(* ===== verification/Prelude.thy ===== *)
theory Prelude
  imports Main "HOL-Library.Word" "HOL-Library.Monad_Syntax"
begin

unbundle bit_operations_syntax

text \<open>
  Shared vocabulary of the development: Go's machine integers and byte slices, the error
  values of the server, little-endian byte strings, and the generic lemmas the components
  use.

  Conventions. A run-time panic of the Go code is \<^term>\<open>None\<close> of an \<open>option\<close>; a Go
  pair \<open>(T, error)\<close> is \<open>go_error + T\<close>; an error built with \<open>errors.Join\<close> is the
  list of its leaves (nil is \<open>[]\<close>). The text that \<open>fmt.Errorf\<close> puts around a wrapped
  error is not modelled: what \<open>errors.Is\<close> can see is.
\<close>

section \<open>Machine integers\<close>

type_synonym u8 = "8 word"
type_synonym u16 = "16 word"
type_synonym u32 = "32 word"
type_synonym u64 = "64 word"
type_synonym i32 = "32 word" \<comment> \<open>read with \<open>sint\<close>\<close>
type_synonym i64 = "64 word" \<comment> \<open>read with \<open>sint\<close>\<close>

section \<open>Error values\<close>

text \<open>
  The sentinel errors of the packages \<open>sensorserver\<close> (one per \<open>errors.New\<close> variable), the
  standard library's sentinels the code tests for, and two classes of other errors:
  \<open>ErrText\<close> for an error made on the spot from a message and \<open>ErrOS\<close> for a failure the
  operating system reports.
\<close>

datatype go_error =
    ErrInvalidMagic | ErrUnsupportedType | ErrPayloadTooLarge | ErrInvalidPayload
  | ErrChecksumMismatch | ErrDatagramSize
  | ErrDataFileClosed | ErrDataStreamClosed | ErrDataStreamFull | ErrDataEngineClosed
  | ErrUnknownDevice | ErrUnknownSensor
  | ErrInvalidQuarantineEntry | ErrQuarantineClosed
  | ErrInvalidConfiguration | ErrRestartRequired | ErrTCPServerClosed
  | EOF | ErrUnexpectedEOF | NetErrClosed | ContextCanceled | DeadlineExceeded
  | ErrText string | ErrOS nat

text \<open>\<open>errors.Join\<close> drops nil and keeps its arguments in order; \<open>errors.Is\<close> looks at every
  leaf.\<close>

definition errors_Join :: "go_error list \<Rightarrow> go_error list \<Rightarrow> go_error list" where
  "errors_Join a b = a @ b"

definition errors_Is :: "go_error list \<Rightarrow> go_error \<Rightarrow> bool" where
  "errors_Is e target \<longleftrightarrow> target \<in> set e"

section \<open>Byte slices\<close>

text \<open>
  A Go slice is a window on an array: \<open>elems\<close> are the bytes up to its length, \<open>spare\<close> the
  bytes of the array between its length and its capacity. Indexing is checked against the
  length, but a slice expression \<open>s[i:j]\<close> only against the capacity, so it can reach into
  \<open>spare\<close>.
\<close>

record slice =
  elems :: "u8 list"
  spare :: "u8 list"

definition slice_of :: "u8 list \<Rightarrow> slice" where
  "slice_of bs = \<lparr>elems = bs, spare = []\<rparr>"

definition slice_len :: "slice \<Rightarrow> nat" where
  "slice_len s = length (elems s)"

definition go_index :: "slice \<Rightarrow> int \<Rightarrow> u8 option" where
  "go_index s i =
     (if 0 \<le> i \<and> i < int (length (elems s)) then Some (elems s ! nat i) else None)"

definition go_slice :: "slice \<Rightarrow> int \<Rightarrow> int \<Rightarrow> slice option" where
  "go_slice s i j =
     (let arr = elems s @ spare s in
      if 0 \<le> i \<and> i \<le> j \<and> j \<le> int (length arr)
      then Some \<lparr>elems = take (nat j - nat i) (drop (nat i) arr), spare = drop (nat j) arr\<rparr>
      else None)"

text \<open>\<open>go_store s i bs\<close> overwrites the array from position \<open>i\<close> on, after the window
  \<open>s[i : i + len(bs)]\<close> has passed its capacity check.\<close>

definition go_store :: "slice \<Rightarrow> int \<Rightarrow> u8 list \<Rightarrow> slice option" where
  "go_store s i bs =
     (let arr = elems s @ spare s; n = length (elems s) in
      if 0 \<le> i \<and> i + int (length bs) \<le> int (length arr)
      then (let arr' = take (nat i) arr @ bs @ drop (nat i + length bs) arr
            in Some \<lparr>elems = take n arr', spare = drop n arr'\<rparr>)
      else None)"

section \<open>Little-endian integers\<close>

text \<open>
  \<open>le_bytes n w\<close> is what \<open>binary.LittleEndian.PutUintN\<close> stores for \<open>n\<close> bytes and
  \<open>le_word\<close> what \<open>binary.LittleEndian.UintN\<close> reads back.
\<close>

primrec le_bytes :: "nat \<Rightarrow> 'a::len word \<Rightarrow> u8 list" where
  "le_bytes 0 w = []"
| "le_bytes (Suc n) w = ucast w # le_bytes n (drop_bit 8 w)"

primrec le_word :: "u8 list \<Rightarrow> 'a::len word" where
  "le_word [] = 0"
| "le_word (b # bs) = ucast b OR push_bit 8 (le_word bs)"

named_theorems wire \<open>facts that evaluate reads and writes of byte windows\<close>
named_theorems inv_intros \<open>preservation of the components' invariants\<close>

section \<open>Generic lemmas\<close>

subsection \<open>Lists\<close>

lemma take_drop_append_exact [simp]:
  "length xs = n \<Longrightarrow> take m (drop n (xs @ ys)) = take m ys"
  by simp

lemma take_drop_nth2:
  "i + 2 \<le> length xs \<Longrightarrow> take 2 (drop i xs) = [xs ! i, xs ! (i + 1)]"
  by (simp add: numeral_2_eq_2 Cons_nth_drop_Suc [symmetric])

lemma sum_list_map_const: "sum_list (map (\<lambda>_. c) xs) = c * length xs" for c :: nat
  by (induction xs) auto

lemma filter_partition_length:
  "length (filter P xs) + length (filter (\<lambda>x. \<not> P x) xs) = length xs"
  by (induction xs) auto

subsection \<open>Slices\<close>

lemma slice_of_simps [simp]:
  "elems (slice_of bs) = bs" "spare (slice_of bs) = []"
  by (simp_all add: slice_of_def)

lemma go_slice_within [wire]:
  assumes "i + n \<le> length (elems s)"
  shows "go_slice s (int i) (int i + int n) =
    Some \<lparr>elems = take n (drop i (elems s)), spare = drop (i + n) (elems s @ spare s)\<rparr>"
  using assms by (simp add: go_slice_def Let_def nat_add_distrib)

lemma go_slice_prefix [wire]:
  assumes "n \<le> length (elems s)"
  shows "go_slice s 0 (int n) = Some \<lparr>elems = take n (elems s), spare = drop n (elems s @ spare s)\<rparr>"
  using assms by (simp add: go_slice_def Let_def)

lemma go_index_within [wire]:
  "i < length (elems s) \<Longrightarrow> go_index s (int i) = Some (elems s ! i)"
  by (simp add: go_index_def)

lemma go_store_within [wire]:
  assumes "i + length bs \<le> length (elems s)"
  shows "go_store s (int i) bs =
    Some \<lparr>elems = take i (elems s) @ bs @ drop (i + length bs) (elems s), spare = spare s\<rparr>"
proof -
  let ?e = "take i (elems s) @ bs @ drop (i + length bs) (elems s)"
  have new: "take i (elems s @ spare s) @ bs @ drop (i + length bs) (elems s @ spare s) = ?e @ spare s"
    using assms by simp
  have len: "length (elems s) = length ?e"
    using assms by simp
  have bound: "int i + int (length bs) \<le> int (length (elems s @ spare s))"
    using assms by simp
  have "take (length (elems s)) (?e @ spare s) = ?e" "drop (length (elems s)) (?e @ spare s) = spare s"
    by (simp_all only: len append_eq_conv_conj [THEN iffD1, OF refl, THEN conjunct1, symmetric]
        append_eq_conv_conj [THEN iffD1, OF refl, THEN conjunct2, symmetric])
  then show ?thesis
    unfolding go_store_def Let_def nat_int new using bound by auto
qed

subsection \<open>Little-endian integers\<close>

lemma length_le_bytes [simp]: "length (le_bytes n w) = n"
  by (induction n arbitrary: w) auto

lemma le_bytes_eval:
  "le_bytes 2 w = [ucast w, ucast (drop_bit 8 w)]"
  "le_bytes 3 w = [ucast w, ucast (drop_bit 8 w), ucast (drop_bit 16 w)]"
  "le_bytes 4 w = [ucast w, ucast (drop_bit 8 w), ucast (drop_bit 16 w), ucast (drop_bit 24 w)]"
  "le_bytes 8 w = [ucast w, ucast (drop_bit 8 w), ucast (drop_bit 16 w), ucast (drop_bit 24 w),
     ucast (drop_bit 32 w), ucast (drop_bit 40 w), ucast (drop_bit 48 w), ucast (drop_bit 56 w)]"
  unfolding numeral_nat le_bytes.simps by simp_all

lemma le_word_le_bytes_bits:
  fixes w :: "'a::len word"
  shows "bit (le_word (le_bytes n w) :: 'a word) i \<longleftrightarrow> i < 8 * n \<and> bit w i"
proof (induction n arbitrary: w i)
  case 0
  then show ?case by simp
next
  case (Suc n)
  show ?case
  proof (cases "i < 8")
    case True
    then show ?thesis
      by (auto simp: bit_or_iff bit_push_bit_iff bit_ucast_iff dest: bit_imp_le_length)
  next
    case False
    then show ?thesis
      by (auto simp: bit_or_iff bit_push_bit_iff bit_ucast_iff Suc.IH bit_drop_bit_eq
          dest: bit_imp_le_length)
  qed
qed

lemma le_word_le_bytes [simp]:
  fixes w :: "'a::len word"
  shows "LENGTH('a) \<le> 8 * n \<Longrightarrow> le_word (le_bytes n w) = w"
  by (rule bit_word_eqI) (simp add: le_word_le_bytes_bits)

lemma bit_le_word_bound: "bit (le_word bs :: 'a::len word) n \<Longrightarrow> n < 8 * length bs"
proof (induction bs arbitrary: n)
  case Nil
  then show ?case by simp
next
  case (Cons b bs)
  then show ?case
    by (fastforce simp: bit_or_iff bit_push_bit_iff bit_ucast_iff dest: bit_imp_le_length)
qed

lemma drop_bit_le_word_Cons:
  assumes "8 * Suc (length bs) \<le> LENGTH('a::len)"
  shows "drop_bit 8 (le_word (b # bs) :: 'a word) = le_word bs"
proof (rule bit_word_eqI)
  fix n
  assume "n < LENGTH('a)"
  then show "bit (drop_bit 8 (le_word (b # bs) :: 'a word)) n \<longleftrightarrow> bit (le_word bs :: 'a word) n"
    using bit_le_word_bound [of bs n, where 'a = 'a] assms
    by (auto simp: bit_or_iff bit_push_bit_iff bit_ucast_iff bit_drop_bit_eq dest: bit_imp_le_length)
qed

lemma ucast_le_word_Cons:
  assumes "8 \<le> LENGTH('a::len)"
  shows "(ucast (le_word (b # bs) :: 'a word) :: u8) = b"
  using assms
  by (intro bit_word_eqI)
     (auto simp: bit_or_iff bit_push_bit_iff bit_ucast_iff dest: bit_imp_le_length)

lemma le_bytes_le_word [simp]:
  "8 * length bs \<le> LENGTH('a) \<Longrightarrow> le_bytes (length bs) (le_word bs :: 'a::len word) = bs"
  by (induction bs) (simp_all add: drop_bit_le_word_Cons ucast_le_word_Cons del: le_word.simps)

lemma le_bytes_inj:
  assumes "LENGTH('a::len) \<le> 8 * n" and "le_bytes n (v :: 'a word) = le_bytes n w"
  shows "v = w"
  using assms by (metis le_word_le_bytes)

end
