(* ===== verification/BinaryData.thy ===== *)
theory BinaryData
  imports Prelude
begin

text \<open>
  \<open>sensor-server/binary_data.go\<close>: the cursor over a byte slice that the wire protocol and
  the quarantine log read and write with. Every operation checks its window the way Go does
  and is \<^term>\<open>None\<close> where the Go code panics; the writes return the changed slice. The lemmas
  evaluate each operation on a window that lies inside the slice, and show that reading is
  the inverse of writing.
\<close>

text \<open>A MAC address is the Go array \<open>[6]byte\<close>.\<close>

datatype MACAddress = MACAddress u8 u8 u8 u8 u8 u8

primrec mac_bytes :: "MACAddress \<Rightarrow> u8 list" where
  "mac_bytes (MACAddress a b c d e f) = [a, b, c, d, e, f]"

definition zeroMAC :: MACAddress where
  "zeroMAC = MACAddress 0 0 0 0 0 0"

text \<open>\<open>copy(mac[:], bytes)\<close> into the zero array: bytes that are missing stay zero.\<close>

definition copyMAC :: "u8 list \<Rightarrow> MACAddress" where
  "copyMAC bs = (let b = take 6 bs @ replicate (6 - length bs) 0
     in MACAddress (b ! 0) (b ! 1) (b ! 2) (b ! 3) (b ! 4) (b ! 5))"

record BinaryData =
  buf :: slice
  off :: int

definition SkipBytes :: "int \<Rightarrow> BinaryData \<Rightarrow> BinaryData" where
  "SkipBytes n d = d\<lparr>off := off d + n\<rparr>"

definition ReadMAC :: "BinaryData \<Rightarrow> (MACAddress \<times> BinaryData) option" where
  "ReadMAC d = do {
     w \<leftarrow> go_slice (buf d) (off d) (off d + 6);
     Some (copyMAC (elems w), d\<lparr>off := off d + 6\<rparr>) }"

definition ReadUint8 :: "BinaryData \<Rightarrow> (u8 \<times> BinaryData) option" where
  "ReadUint8 d = do {
     value \<leftarrow> go_index (buf d) (off d);
     Some (value, d\<lparr>off := off d + 1\<rparr>) }"

definition ReadUint16 :: "BinaryData \<Rightarrow> (u16 \<times> BinaryData) option" where
  "ReadUint16 d = do {
     w \<leftarrow> go_slice (buf d) (off d) (off d + 2);
     Some (le_word (elems w), d\<lparr>off := off d + 2\<rparr>) }"

definition ReadInt24 :: "BinaryData \<Rightarrow> (i32 \<times> BinaryData) option" where
  "ReadInt24 d = do {
     b0 \<leftarrow> go_index (buf d) (off d);
     b1 \<leftarrow> go_index (buf d) (off d + 1);
     b2 \<leftarrow> go_index (buf d) (off d + 2);
     let value = push_bit 8 (ucast b0) OR push_bit 16 (ucast b1) OR push_bit 24 (ucast b2);
     Some (signed_drop_bit 8 value, d\<lparr>off := off d + 3\<rparr>) }"

definition ReadUint32 :: "BinaryData \<Rightarrow> (u32 \<times> BinaryData) option" where
  "ReadUint32 d = do {
     w \<leftarrow> go_slice (buf d) (off d) (off d + 4);
     Some (le_word (elems w), d\<lparr>off := off d + 4\<rparr>) }"

definition ReadUint64 :: "BinaryData \<Rightarrow> (u64 \<times> BinaryData) option" where
  "ReadUint64 d = do {
     w \<leftarrow> go_slice (buf d) (off d) (off d + 8);
     Some (le_word (elems w), d\<lparr>off := off d + 8\<rparr>) }"

text \<open>\<open>make([]byte, length)\<close> panics for a negative length.\<close>

definition ReadBytes :: "int \<Rightarrow> BinaryData \<Rightarrow> (u8 list \<times> BinaryData) option" where
  "ReadBytes n d = (if n < 0 then None else do {
     w \<leftarrow> go_slice (buf d) (off d) (off d + n);
     Some (elems w, d\<lparr>off := off d + n\<rparr>) })"

definition WriteUint8 :: "u8 \<Rightarrow> BinaryData \<Rightarrow> BinaryData option" where
  "WriteUint8 v d = (case go_index (buf d) (off d) of
       None \<Rightarrow> None
     | Some _ \<Rightarrow> Some \<lparr>buf = (buf d)\<lparr>elems := (elems (buf d))[nat (off d) := v]\<rparr>, off = off d + 1\<rparr>)"

definition WriteUint16 :: "u16 \<Rightarrow> BinaryData \<Rightarrow> BinaryData option" where
  "WriteUint16 v d = do {
     s \<leftarrow> go_store (buf d) (off d) (le_bytes 2 v);
     Some \<lparr>buf = s, off = off d + 2\<rparr> }"

definition WriteUint32 :: "u32 \<Rightarrow> BinaryData \<Rightarrow> BinaryData option" where
  "WriteUint32 v d = do {
     s \<leftarrow> go_store (buf d) (off d) (le_bytes 4 v);
     Some \<lparr>buf = s, off = off d + 4\<rparr> }"

definition WriteUint32At :: "u32 \<Rightarrow> int \<Rightarrow> BinaryData \<Rightarrow> BinaryData option" where
  "WriteUint32At v offset d = do {
     s \<leftarrow> go_store (buf d) offset (le_bytes 4 v);
     Some (d\<lparr>buf := s\<rparr>) }"

definition WriteUint64 :: "u64 \<Rightarrow> BinaryData \<Rightarrow> BinaryData option" where
  "WriteUint64 v d = do {
     s \<leftarrow> go_store (buf d) (off d) (le_bytes 8 v);
     Some \<lparr>buf = s, off = off d + 8\<rparr> }"

definition WriteBytes :: "u8 list \<Rightarrow> BinaryData \<Rightarrow> BinaryData option" where
  "WriteBytes bs d = do {
     s \<leftarrow> go_store (buf d) (off d) bs;
     Some \<lparr>buf = s, off = off d + int (length bs)\<rparr> }"

section \<open>MAC addresses\<close>

lemma length_mac_bytes [simp]: "length (mac_bytes m) = 6"
  by (cases m) simp

lemma copyMAC_mac_bytes [simp]: "copyMAC (mac_bytes m) = m"
  by (cases m) (simp add: copyMAC_def)

lemma list6_cases:
  assumes "length bs = 6"
  obtains a b c d e f where "bs = [a, b, c, d, e, f]"
  using assms
  by (auto simp: numeral_eq_Suc length_Suc_conv)

lemma mac_bytes_copyMAC: "length bs = 6 \<Longrightarrow> mac_bytes (copyMAC bs) = bs"
  by (erule list6_cases) (simp add: copyMAC_def)

lemma mac_bytes_inj: "mac_bytes m = mac_bytes n \<longleftrightarrow> m = n"
  by (metis copyMAC_mac_bytes)

section \<open>Reads inside the slice\<close>

text \<open>A cursor at position \<open>i\<close> of the bytes \<open>xs\<close>.\<close>

definition cursor :: "slice \<Rightarrow> nat \<Rightarrow> BinaryData" where
  "cursor s i = \<lparr>buf = s, off = int i\<rparr>"

lemma cursor_simps [simp]: "buf (cursor s i) = s" "off (cursor s i) = int i"
  by (simp_all add: cursor_def)

lemma ReadUint8_within [wire]:
  "i < length (elems s) \<Longrightarrow> ReadUint8 (cursor s i) = Some (elems s ! i, cursor s (i + 1))"
  by (simp add: ReadUint8_def wire cursor_def)

lemma ReadUint16_within [wire]:
  "i + 2 \<le> length (elems s) \<Longrightarrow>
   ReadUint16 (cursor s i) = Some (le_word (take 2 (drop i (elems s))), cursor s (i + 2))"
  using go_slice_within [of i 2 s] by (simp add: ReadUint16_def cursor_def)

lemma ReadUint32_within [wire]:
  "i + 4 \<le> length (elems s) \<Longrightarrow>
   ReadUint32 (cursor s i) = Some (le_word (take 4 (drop i (elems s))), cursor s (i + 4))"
  using go_slice_within [of i 4 s] by (simp add: ReadUint32_def cursor_def)

lemma ReadUint64_within [wire]:
  "i + 8 \<le> length (elems s) \<Longrightarrow>
   ReadUint64 (cursor s i) = Some (le_word (take 8 (drop i (elems s))), cursor s (i + 8))"
  using go_slice_within [of i 8 s] by (simp add: ReadUint64_def cursor_def)

lemma ReadMAC_within [wire]:
  "i + 6 \<le> length (elems s) \<Longrightarrow>
   ReadMAC (cursor s i) = Some (copyMAC (take 6 (drop i (elems s))), cursor s (i + 6))"
  using go_slice_within [of i 6 s] by (simp add: ReadMAC_def cursor_def)

lemma ReadBytes_within [wire]:
  "i + n \<le> length (elems s) \<Longrightarrow>
   ReadBytes (int n) (cursor s i) = Some (take n (drop i (elems s)), cursor s (i + n))"
  by (simp add: ReadBytes_def go_slice_within cursor_def)

section \<open>Signed 24-bit values\<close>

definition int24_of_bytes :: "u8 \<Rightarrow> u8 \<Rightarrow> u8 \<Rightarrow> i32" where
  "int24_of_bytes b0 b1 b2 =
     signed_drop_bit 8 (push_bit 8 (ucast b0) OR push_bit 16 (ucast b1) OR push_bit 24 (ucast b2))"

lemma ReadInt24_within [wire]:
  "i + 3 \<le> length (elems s) \<Longrightarrow>
   ReadInt24 (cursor s i) =
     Some (int24_of_bytes (elems s ! i) (elems s ! (i + 1)) (elems s ! (i + 2)), cursor s (i + 3))"
  using go_index_within [of i s] go_index_within [of "i + 1" s] go_index_within [of "i + 2" s]
  by (simp add: ReadInt24_def int24_of_bytes_def cursor_def add.commute)

lemma int24_of_bytes_bits:
  "bit (int24_of_bytes b0 b1 b2) n \<longleftrightarrow> n < 32 \<and>
     (if n < 8 then bit b0 n else if n < 16 then bit b1 (n - 8)
      else if n < 24 then bit b2 (n - 16) else bit b2 7)"
  unfolding int24_of_bytes_def
  by (auto simp: bit_signed_drop_bit_iff bit_or_iff bit_push_bit_iff bit_ucast_iff
      dest: bit_imp_le_length)

lemma int24_of_le_bytes:
  fixes v :: i32
  shows "int24_of_bytes (le_bytes 3 v ! 0) (le_bytes 3 v ! 1) (le_bytes 3 v ! 2) = signed_take_bit 23 v"
proof (rule bit_word_eqI)
  fix n
  assume n: "n < LENGTH(32)"
  consider "n < 23" | "n = 23" | "23 < n" by linarith
  then show "bit (int24_of_bytes (le_bytes 3 v ! 0) (le_bytes 3 v ! 1) (le_bytes 3 v ! 2)) n
      \<longleftrightarrow> bit (signed_take_bit 23 v) n"
    using n by cases
      (auto simp: int24_of_bytes_bits bit_signed_take_bit_iff numeral_3_eq_3 bit_ucast_iff
        bit_drop_bit_eq min_def)
qed

lemma signed_take_bit_id:
  fixes v :: i32
  assumes "- (2 ^ 23) \<le> sint v" and "sint v < 2 ^ 23"
  shows "signed_take_bit 23 v = v"
proof (rule bit_word_eqI)
  fix n
  assume n: "n < LENGTH(32)"
  have "signed_take_bit 23 (sint v) = sint v"
    using assms by (simp add: signed_take_bit_int_eq_self)
  then have "bit (sint v) (min 23 n) \<longleftrightarrow> bit (sint v) n"
    by (metis bit_signed_take_bit_iff possible_bit_int)
  then show "bit (signed_take_bit 23 v) n \<longleftrightarrow> bit v n"
    using n by (auto simp: bit_signed_take_bit_iff bit_sint_iff min_def split: if_splits)
qed

text \<open>Reading back a 24-bit little-endian value sign-extends it: the value itself when it is
  in range.\<close>

lemma int24_roundtrip:
  fixes v :: i32
  assumes "- (2 ^ 23) \<le> sint v" and "sint v < 2 ^ 23"
  shows "int24_of_bytes (le_bytes 3 v ! 0) (le_bytes 3 v ! 1) (le_bytes 3 v ! 2) = v"
  using assms by (simp only: int24_of_le_bytes signed_take_bit_id)

lemma int24_range: "- (2 ^ 23) \<le> sint (int24_of_bytes b0 b1 b2)" "sint (int24_of_bytes b0 b1 b2) < 2 ^ 23"
proof -
  let ?v = "int24_of_bytes b0 b1 b2"
  have "signed_take_bit 23 (sint ?v) = sint ?v"
  proof (rule bit_eqI)
    fix n :: nat
    consider "n < 23" | "n = 23" | "23 < n" by linarith
    then show "bit (signed_take_bit 23 (sint ?v)) n \<longleftrightarrow> bit (sint ?v) n"
      by cases (auto simp: bit_signed_take_bit_iff bit_sint_iff int24_of_bytes_bits min_def split: if_splits)
  qed
  then show "- (2 ^ 23) \<le> sint ?v" "sint ?v < 2 ^ 23"
    by (metis signed_take_bit_int_greater_eq_minus_exp, metis signed_take_bit_int_less_exp)
qed

section \<open>Writes inside the slice\<close>

text \<open>A cursor that has filled the bytes \<open>done\<close> of its slice and has \<open>rest\<close> left.\<close>

definition filled :: "u8 list \<Rightarrow> u8 list \<Rightarrow> u8 list \<Rightarrow> BinaryData" where
  "filled done rest sp = \<lparr>buf = \<lparr>elems = done @ rest, spare = sp\<rparr>, off = int (length done)\<rparr>"

lemma go_store_filled:
  assumes "length bs \<le> length rest"
  shows "go_store (buf (filled done rest sp)) (off (filled done rest sp)) bs =
    Some \<lparr>elems = (done @ bs) @ drop (length bs) rest, spare = sp\<rparr>"
  using assms by (simp add: filled_def go_store_within)

lemma WriteUint16_filled [wire]:
  "2 \<le> length rest \<Longrightarrow>
   WriteUint16 v (filled done rest sp) = Some (filled (done @ le_bytes 2 v) (drop 2 rest) sp)"
  by (simp add: WriteUint16_def go_store_filled) (simp add: filled_def)

lemma WriteUint32_filled [wire]:
  "4 \<le> length rest \<Longrightarrow>
   WriteUint32 v (filled done rest sp) = Some (filled (done @ le_bytes 4 v) (drop 4 rest) sp)"
  by (simp add: WriteUint32_def go_store_filled) (simp add: filled_def)

lemma WriteUint64_filled [wire]:
  "8 \<le> length rest \<Longrightarrow>
   WriteUint64 v (filled done rest sp) = Some (filled (done @ le_bytes 8 v) (drop 8 rest) sp)"
  by (simp add: WriteUint64_def go_store_filled) (simp add: filled_def)

lemma WriteBytes_filled [wire]:
  "length bs \<le> length rest \<Longrightarrow>
   WriteBytes bs (filled done rest sp) = Some (filled (done @ bs) (drop (length bs) rest) sp)"
  by (simp add: WriteBytes_def go_store_filled) (simp add: filled_def)

lemma WriteUint8_filled [wire]:
  "1 \<le> length rest \<Longrightarrow>
   WriteUint8 v (filled done rest sp) = Some (filled (done @ [v]) (drop 1 rest) sp)"
  by (cases rest) (simp_all add: WriteUint8_def filled_def go_index_def)

lemma WriteUint32At_within [wire]:
  "i + 4 \<le> length (elems (buf d)) \<Longrightarrow>
   WriteUint32At v (int i) d =
     Some (d\<lparr>buf := \<lparr>elems = take i (elems (buf d)) @ le_bytes 4 v @ drop (i + 4) (elems (buf d)),
                   spare = spare (buf d)\<rparr>\<rparr>)"
  by (simp add: WriteUint32At_def go_store_within)

end
