(* ===== verification/Crc32.thy ===== *)
theory Crc32
  imports Prelude
begin

text \<open>
  \<open>crc32.ChecksumIEEE\<close> of Go's \<open>hash/crc32\<close>, the checksum of wire messages and of
  quarantine entries: the reflected IEEE polynomial \<open>0xEDB88320\<close>, one bit at a time. The
  lemmas show that the register update is a linear bijection, from which the checksum
  detects every change confined to a window of up to four bytes.
\<close>

definition crc_bit :: "u32 \<Rightarrow> u32" where
  "crc_bit s = (if bit s 0 then drop_bit 1 s XOR 0xEDB88320 else drop_bit 1 s)"

definition crc_byte :: "u32 \<Rightarrow> u8 \<Rightarrow> u32" where
  "crc_byte s b = (crc_bit ^^ 8) (s XOR ucast b)"

definition crc_update :: "u32 \<Rightarrow> u8 list \<Rightarrow> u32" where
  "crc_update s bs = foldl crc_byte s bs"

definition ChecksumIEEE :: "u8 list \<Rightarrow> u32" where
  "ChecksumIEEE bs = crc_update 0xFFFFFFFF bs XOR 0xFFFFFFFF"

section \<open>Evaluation\<close>

lemma crc_byte_unfold:
  "crc_byte s b =
     crc_bit (crc_bit (crc_bit (crc_bit (crc_bit (crc_bit (crc_bit (crc_bit (s XOR ucast b))))))))"
  by (simp add: crc_byte_def numeral_eq_Suc)

lemma crc_bit_numerals:
  "crc_bit (numeral (num.Bit0 n)) = drop_bit 1 (numeral (num.Bit0 n))"
  "crc_bit (numeral (num.Bit1 n)) = drop_bit 1 (numeral (num.Bit1 n)) XOR 0xEDB88320"
  "crc_bit 0 = 0"
  "crc_bit 1 = 0xEDB88320"
  by (simp_all add: crc_bit_def)

lemmas crc_eval = ChecksumIEEE_def crc_update_def crc_byte_unfold crc_bit_numerals

text \<open>The check value of the design document, for the ASCII bytes of \<open>123456789\<close>.\<close>

lemma ChecksumIEEE_check_value:
  "ChecksumIEEE [0x31, 0x32, 0x33, 0x34, 0x35, 0x36, 0x37, 0x38, 0x39] = 0xCBF43926"
  by (simp add: crc_eval)

section \<open>The register update is a linear bijection\<close>

lemma crc_bit_xor: "crc_bit (s XOR t) = crc_bit s XOR crc_bit t"
  by (rule bit_word_eqI) (auto simp: crc_bit_def bit_xor_iff bit_drop_bit_eq)

lemma crc_bit_top: "bit (crc_bit s) 31 \<longleftrightarrow> bit s 0"
proof -
  have "bit (0xEDB88320 :: u32) 31" by simp
  moreover have "\<not> bit (drop_bit 1 s) 31"
    by (auto simp: bit_drop_bit_eq dest: bit_imp_le_length)
  ultimately show ?thesis by (simp add: crc_bit_def bit_xor_iff)
qed

lemma crc_bit_zero: "crc_bit s = 0 \<Longrightarrow> s = 0"
proof -
  assume z: "crc_bit s = 0"
  then have b0: "\<not> bit s 0" using crc_bit_top [of s] by simp
  then have d: "drop_bit 1 s = 0" using z by (simp add: crc_bit_def)
  show "s = 0"
  proof (rule bit_word_eqI)
    fix n
    have "\<not> bit s n"
    proof (cases n)
      case 0
      then show ?thesis using b0 by simp
    next
      case (Suc m)
      have "\<not> bit (drop_bit 1 s) m" using d by simp
      then show ?thesis using Suc by (simp add: bit_drop_bit_eq)
    qed
    then show "bit s n \<longleftrightarrow> bit (0 :: u32) n" by simp
  qed
qed

lemma xor_eq_0_iff: "a XOR b = 0 \<longleftrightarrow> a = b" for a b :: "'a::len word"
  by (metis word_bw_assocs(3) word_bw_same(3) xor.right_neutral)

lemma xor_right_cancel: "a XOR c = b XOR c \<longleftrightarrow> a = b" for a b c :: "'a::len word"
  by (metis word_bw_assocs(3) word_bw_same(3) xor.right_neutral)

lemma crc_bits_xor: "(crc_bit ^^ n) (s XOR t) = (crc_bit ^^ n) s XOR (crc_bit ^^ n) t"
  by (induction n) (simp_all add: crc_bit_xor)

lemma crc_bits_zero: "(crc_bit ^^ n) s = 0 \<Longrightarrow> s = 0"
  by (induction n) (auto dest: crc_bit_zero)

lemma crc_bits_inj: "(crc_bit ^^ n) s = (crc_bit ^^ n) t \<longleftrightarrow> s = t"
  by (metis crc_bits_xor crc_bits_zero xor_eq_0_iff)

lemma crc_byte_inj_state: "crc_byte s b = crc_byte t b \<longleftrightarrow> s = t"
  by (simp add: crc_byte_def crc_bits_inj xor_right_cancel)

lemma crc_update_Nil [simp]: "crc_update s [] = s"
  and crc_update_Cons [simp]: "crc_update s (b # bs) = crc_update (crc_byte s b) bs"
  and crc_update_append: "crc_update s (bs @ cs) = crc_update (crc_update s bs) cs"
  by (simp_all add: crc_update_def)

lemma crc_update_inj_state: "crc_update s bs = crc_update t bs \<longleftrightarrow> s = t"
  by (induction bs arbitrary: s t) (auto simp: crc_byte_inj_state)

section \<open>Detection of short bursts\<close>

lemma crc_bit_push:
  assumes "\<not> bit v 31"
  shows "crc_bit (push_bit 1 v) = v"
proof -
  have even: "\<not> bit (push_bit 1 v) 0"
    by (simp only: bit_push_bit_iff) simp
  have "drop_bit 1 (push_bit 1 v) = v"
  proof (rule bit_word_eqI)
    fix n
    assume "n < LENGTH(32)"
    then show "bit (drop_bit 1 (push_bit 1 v)) n \<longleftrightarrow> bit v n"
      using assms by (cases "n = 31") (simp_all only: bit_drop_bit_eq bit_push_bit_iff o_apply, auto)
  qed
  with even show ?thesis
    by (simp only: crc_bit_def if_False)
qed

lemma crc_bits_push:
  assumes "\<And>n. bit v n \<Longrightarrow> n + k < 32"
  shows "(crc_bit ^^ k) (push_bit k v) = v"
  using assms
proof (induction k)
  case 0
  then show ?case by simp
next
  case (Suc k)
  have top: "\<not> bit (push_bit k v) 31"
    using Suc.prems [of "31 - k"] by (auto simp: bit_push_bit_iff)
  have "(crc_bit ^^ Suc k) (push_bit (Suc k) v) = (crc_bit ^^ k) (crc_bit (push_bit 1 (push_bit k v)))"
    by (simp only: funpow_Suc_right o_apply push_bit_push_bit plus_1_eq_Suc)
  also have "\<dots> = (crc_bit ^^ k) (push_bit k v)"
    by (simp only: crc_bit_push [OF top])
  also have "\<dots> = v"
    using Suc.prems by (intro Suc.IH) fastforce
  finally show ?case .
qed

lemma crc_update_short:
  "length bs \<le> 4 \<Longrightarrow> crc_update s bs = (crc_bit ^^ (8 * length bs)) (s XOR le_word bs)"
proof (induction bs arbitrary: s)
  case Nil
  then show ?case by simp
next
  case (Cons b bs)
  let ?w = "le_word bs :: u32"
  have shift: "(crc_bit ^^ 8) (push_bit 8 ?w) = ?w"
  proof (rule crc_bits_push)
    fix n
    assume "bit ?w n"
    then have "n < 8 * length bs" by (rule bit_le_word_bound)
    then show "n + 8 < 32" using Cons.prems by simp
  qed
  have disj: "ucast b OR push_bit 8 ?w = ucast b XOR push_bit 8 ?w"
    by (rule bit_word_eqI)
       (auto simp: bit_or_iff bit_xor_iff bit_push_bit_iff bit_ucast_iff dest: bit_imp_le_length)
  have "crc_update s (b # bs) = (crc_bit ^^ (8 * length bs)) (crc_byte s b XOR ?w)"
    using Cons by simp
  also have "crc_byte s b XOR ?w = (crc_bit ^^ 8) (s XOR (ucast b XOR push_bit 8 ?w))"
    by (simp only: crc_byte_def crc_bits_xor shift word_bw_assocs)
  also have "(crc_bit ^^ (8 * length bs)) \<dots> = (crc_bit ^^ (8 * length bs + 8)) (s XOR le_word (b # bs))"
    by (simp only: funpow_add o_apply le_word.simps disj)
  finally show ?case
    by (simp only: length_Cons mult_Suc_right add.commute)
qed

text \<open>Two equally long byte strings that agree outside a window of at most four bytes have
  different checksums unless they are equal.\<close>

lemma ChecksumIEEE_burst:
  assumes "length old = length new" and "length old \<le> 4"
    and "ChecksumIEEE (pre @ old @ post) = ChecksumIEEE (pre @ new @ post)"
  shows "old = new"
proof -
  have "crc_update (crc_update 0xFFFFFFFF pre) old = crc_update (crc_update 0xFFFFFFFF pre) new"
    using assms(3)
    by (simp only: ChecksumIEEE_def crc_update_append crc_update_inj_state xor_right_cancel)
  then have "(le_word old :: u32) = le_word new"
    using assms(1,2) by (simp add: crc_update_short crc_bits_inj word_bw_comms xor_right_cancel)
  moreover have "le_bytes (length old) (le_word old :: u32) = old"
    by (rule le_bytes_le_word) (use assms(2) in simp)
  moreover have "le_bytes (length new) (le_word new :: u32) = new"
    by (rule le_bytes_le_word) (use assms(1,2) in simp)
  ultimately show ?thesis
    using assms(1) by metis
qed

end
