(* ===== verification/GoIO.thy ===== *)
theory GoIO
  imports Prelude
begin

text \<open>
  The part of Go's \<open>io\<close> package the stream protocol uses: a reader that delivers its bytes in
  chunks of any size (a TCP segment each, say) and \<open>io.ReadFull\<close> over it. The lemmas show that
  \<open>io.ReadFull\<close> sees only the concatenation of the chunks.
\<close>

text \<open>A reader has chunks still to come, and an error it reports when they are used up
  (\<open>io.EOF\<close> when the peer closed the connection in good order). A chunk may be empty: a
  \<open>Read\<close> may return no byte and no error.\<close>

record Reader =
  chunks :: "u8 list list"
  failure :: go_error

text \<open>One \<open>Read\<close> into a buffer of \<open>n\<close> bytes.\<close>

fun Read :: "nat \<Rightarrow> u8 list list \<Rightarrow> (u8 list \<times> u8 list list) option" where
  "Read n [] = None"
| "Read n (c # cs) =
     (if length c \<le> n then Some (c, cs) else Some (take n c, drop n c # cs))"

text \<open>The loop of \<open>io.ReadAtLeast\<close>: read until the buffer is full or the reader fails.\<close>

function gather :: "nat \<Rightarrow> u8 list list \<Rightarrow> u8 list \<times> u8 list list" where
  "gather n cs =
     (if n = 0 then ([], cs)
      else case Read n cs of
          None \<Rightarrow> ([], cs)
        | Some (got, cs') \<Rightarrow>
            (let (more, cs'') = gather (n - length got) cs' in (got @ more, cs'')))"
  by pat_completeness auto
termination
proof (relation "measures [\<lambda>(n, cs). length cs, \<lambda>(n, cs). n]")
  show "wf (measures [\<lambda>(n, cs). length cs, \<lambda>(n, cs). n])" by simp
  fix n :: nat and cs :: "u8 list list" and x got cs'
  assume "n \<noteq> 0" "Read n cs = Some x" "(got, cs') = x"
  then show "((n - length got, cs'), (n, cs)) \<in> measures [\<lambda>(n, cs). length cs, \<lambda>(n, cs). n]"
    by (cases cs) (auto split: if_splits)
qed

declare gather.simps [simp del]

definition io_ReadFull :: "nat \<Rightarrow> Reader \<Rightarrow> (go_error + u8 list) \<times> Reader" where
  "io_ReadFull n r =
     (let (got, cs) = gather n (chunks r) in
      (if length got \<ge> n then Inr got
       else if got \<noteq> [] \<and> failure r = EOF then Inl ErrUnexpectedEOF
       else Inl (failure r), r\<lparr>chunks := cs\<rparr>))"

section \<open>ReadFull sees the concatenation\<close>

abbreviation stream :: "Reader \<Rightarrow> u8 list" where
  "stream r \<equiv> concat (chunks r)"

lemma gather_concat: "fst (gather n cs) = take n (concat cs) \<and> concat (snd (gather n cs)) = drop n (concat cs)"
proof (induction n cs rule: gather.induct)
  case (1 n cs)
  show ?case
  proof (cases "n = 0")
    case True
    then show ?thesis by (simp add: gather.simps)
  next
    case False
    show ?thesis
    proof (cases "Read n cs")
      case None
      then have "cs = []" by (cases cs) (auto split: if_splits)
      then show ?thesis using False by (simp add: gather.simps)
    next
      case (Some x)
      obtain got cs' where x: "x = (got, cs')" by (cases x)
      have read: "concat cs = got @ concat cs'" "length got \<le> n"
        using Some x by (cases cs; auto split: if_splits)+
      have "gather n cs = (got @ fst (gather (n - length got) cs'), snd (gather (n - length got) cs'))"
        using False Some x by (subst gather.simps) (simp add: split_beta)
      then show ?thesis
        using 1 [OF False Some x [symmetric]] x read by simp
    qed
  qed
qed

lemma io_ReadFull_eq:
  "fst (io_ReadFull n r) =
     (if n \<le> length (stream r) then Inr (take n (stream r))
      else if stream r \<noteq> [] \<and> failure r = EOF then Inl ErrUnexpectedEOF else Inl (failure r))"
  using gather_concat [of n "chunks r"]
  by (auto simp: io_ReadFull_def split_beta min_def)

lemma io_ReadFull_rest:
  "stream (snd (io_ReadFull n r)) = drop n (stream r)" "failure (snd (io_ReadFull n r)) = failure r"
  using gather_concat [of n "chunks r"] by (simp_all add: io_ReadFull_def split_beta)

end
