(* ===== verification/House.thy ===== *)
theory House
  imports GoStrings
begin

text \<open>
  \<open>sensor-server/house_*.go\<close>: the enumerations of the house (floors, rooms, sensors, units,
  actuators) with their name tables and conversions. A Go map that the program never changes
  is an association list here (in the source's order) and its lookup is \<^const>\<open>map_of\<close>; names
  are byte strings, so a non-ASCII letter is its UTF-8 bytes. The lemmas show that the tables
  are total and injective where the program relies on it, which makes the conversions
  inverse to each other and the search of a unit name independent of Go's map order.
\<close>

section \<open>Floors (\<open>house_floor.go\<close>) and rooms (\<open>house_room.go\<close>)\<close>

type_synonym FloorType = u8
type_synonym RoomType = u8

abbreviation (input) FLOOR_BASEMENT :: FloorType where "FLOOR_BASEMENT \<equiv> 0"
abbreviation (input) FLOOR_FIRST :: FloorType where "FLOOR_FIRST \<equiv> 1"
abbreviation (input) FLOOR_SECOND :: FloorType where "FLOOR_SECOND \<equiv> 2"
abbreviation (input) FLOOR_THIRD :: FloorType where "FLOOR_THIRD \<equiv> 3"
abbreviation (input) FLOOR_COUNT :: FloorType where "FLOOR_COUNT \<equiv> 4"
abbreviation (input) FLOOR_INVALID :: FloorType where "FLOOR_INVALID \<equiv> 255"

definition floorTypeNames :: "(FloorType \<times> string) list" where
  "floorTypeNames =
    [(FLOOR_BASEMENT, ''basement''),
     (FLOOR_FIRST, ''first''),
     (FLOOR_SECOND, ''second''),
     (FLOOR_THIRD, ''third'')]"

definition floorNameToType :: "(string \<times> FloorType) list" where
  "floorNameToType =
    [(''basement'', FLOOR_BASEMENT),
     (''first'', FLOOR_FIRST),
     (''second'', FLOOR_SECOND),
     (''third'', FLOOR_THIRD)]"

definition FloorType_String :: "FloorType \<Rightarrow> string" where
  "FloorType_String f = (case map_of floorTypeNames f of Some name \<Rightarrow> name | None \<Rightarrow> ''unknown'')"

definition FloorTypeFromString :: "string \<Rightarrow> FloorType" where
  "FloorTypeFromString s =
     (case map_of floorNameToType s of Some floorType \<Rightarrow> floorType | None \<Rightarrow> FLOOR_INVALID)"

abbreviation (input) ROOM_LIVING :: RoomType where "ROOM_LIVING \<equiv> 0"
abbreviation (input) ROOM_DINING :: RoomType where "ROOM_DINING \<equiv> 1"
abbreviation (input) ROOM_KITCHEN :: RoomType where "ROOM_KITCHEN \<equiv> 2"
abbreviation (input) ROOM_BATHROOM :: RoomType where "ROOM_BATHROOM \<equiv> 3"
abbreviation (input) ROOM_BEDROOM :: RoomType where "ROOM_BEDROOM \<equiv> 4"
abbreviation (input) ROOM_STAIRCASE :: RoomType where "ROOM_STAIRCASE \<equiv> 5"
abbreviation (input) ROOM_ENTRANCE :: RoomType where "ROOM_ENTRANCE \<equiv> 6"
abbreviation (input) ROOM_COUNT :: RoomType where "ROOM_COUNT \<equiv> 7"
abbreviation (input) ROOM_INVALID :: RoomType where "ROOM_INVALID \<equiv> 255"
abbreviation (input) ROOM_STUDYROOM :: RoomType where "ROOM_STUDYROOM \<equiv> ROOM_BEDROOM"
abbreviation (input) ROOM_MASTER_BEDROOM :: RoomType where "ROOM_MASTER_BEDROOM \<equiv> ROOM_LIVING"

definition roomTypeNames :: "(RoomType \<times> string) list" where
  "roomTypeNames =
    [(ROOM_LIVING, ''living''),
     (ROOM_DINING, ''dining''),
     (ROOM_KITCHEN, ''kitchen''),
     (ROOM_BATHROOM, ''bathroom''),
     (ROOM_BEDROOM, ''bedroom''),
     (ROOM_STAIRCASE, ''staircase''),
     (ROOM_ENTRANCE, ''entrance'')]"

definition roomNameToType :: "(string \<times> RoomType) list" where
  "roomNameToType =
    [(''living'', ROOM_LIVING),
     (''dining'', ROOM_DINING),
     (''kitchen'', ROOM_KITCHEN),
     (''bathroom'', ROOM_BATHROOM),
     (''bedroom'', ROOM_BEDROOM),
     (''studyroom'', ROOM_STUDYROOM),
     (''master_bedroom'', ROOM_MASTER_BEDROOM),
     (''staircase'', ROOM_STAIRCASE),
     (''entrance'', ROOM_ENTRANCE),
     (''storage'', ROOM_DINING),
     (''backroom'', ROOM_KITCHEN)]"

definition RoomType_String :: "RoomType \<Rightarrow> string" where
  "RoomType_String r = (case map_of roomTypeNames r of Some name \<Rightarrow> name | None \<Rightarrow> ''unknown'')"

definition RoomTypeFromString :: "string \<Rightarrow> RoomType" where
  "RoomTypeFromString s =
     (case map_of roomNameToType s of Some roomType \<Rightarrow> roomType | None \<Rightarrow> ROOM_INVALID)"

section \<open>Sensors (\<open>house_sensors.go\<close>)\<close>

type_synonym SensorType = u8

abbreviation (input) SENSOR_ID_UNKNOWN :: SensorType where "SENSOR_ID_UNKNOWN \<equiv> 0"
abbreviation (input) SENSOR_ID_TEMPERATURE :: SensorType where "SENSOR_ID_TEMPERATURE \<equiv> 1"
abbreviation (input) SENSOR_ID_HUMIDITY :: SensorType where "SENSOR_ID_HUMIDITY \<equiv> 2"
abbreviation (input) SENSOR_ID_PRESSURE :: SensorType where "SENSOR_ID_PRESSURE \<equiv> 3"
abbreviation (input) SENSOR_ID_LIGHT :: SensorType where "SENSOR_ID_LIGHT \<equiv> 4"
abbreviation (input) SENSOR_ID_UV :: SensorType where "SENSOR_ID_UV \<equiv> 5"
abbreviation (input) SENSOR_ID_CO :: SensorType where "SENSOR_ID_CO \<equiv> 6"
abbreviation (input) SENSOR_ID_CO2 :: SensorType where "SENSOR_ID_CO2 \<equiv> 7"
abbreviation (input) SENSOR_ID_HCHO :: SensorType where "SENSOR_ID_HCHO \<equiv> 8"
abbreviation (input) SENSOR_ID_VOC :: SensorType where "SENSOR_ID_VOC \<equiv> 9"
abbreviation (input) SENSOR_ID_NOX :: SensorType where "SENSOR_ID_NOX \<equiv> 10"
abbreviation (input) SENSOR_ID_PM005 :: SensorType where "SENSOR_ID_PM005 \<equiv> 11"
abbreviation (input) SENSOR_ID_PM010 :: SensorType where "SENSOR_ID_PM010 \<equiv> 12"
abbreviation (input) SENSOR_ID_PM025 :: SensorType where "SENSOR_ID_PM025 \<equiv> 13"
abbreviation (input) SENSOR_ID_PM040 :: SensorType where "SENSOR_ID_PM040 \<equiv> 14"
abbreviation (input) SENSOR_ID_PM100 :: SensorType where "SENSOR_ID_PM100 \<equiv> 15"
abbreviation (input) SENSOR_ID_SOUND :: SensorType where "SENSOR_ID_SOUND \<equiv> 16"
abbreviation (input) SENSOR_ID_BINARY :: SensorType where "SENSOR_ID_BINARY \<equiv> 17"
abbreviation (input) SENSOR_ID_AMPLITUDE :: SensorType where "SENSOR_ID_AMPLITUDE \<equiv> 18"
abbreviation (input) SENSOR_ID_DURATION :: SensorType where "SENSOR_ID_DURATION \<equiv> 19"
abbreviation (input) SENSOR_ID_FREQUENCY :: SensorType where "SENSOR_ID_FREQUENCY \<equiv> 20"
abbreviation (input) SENSOR_ID_BATTERY :: SensorType where "SENSOR_ID_BATTERY \<equiv> 21"
abbreviation (input) SENSOR_ID_VOLTAGE :: SensorType where "SENSOR_ID_VOLTAGE \<equiv> 22"
abbreviation (input) SENSOR_ID_CURRENT :: SensorType where "SENSOR_ID_CURRENT \<equiv> 23"
abbreviation (input) SENSOR_ID_POWER :: SensorType where "SENSOR_ID_POWER \<equiv> 24"
abbreviation (input) SENSOR_ID_ENERGY :: SensorType where "SENSOR_ID_ENERGY \<equiv> 25"
abbreviation (input) SENSOR_ID_GAS_M3 :: SensorType where "SENSOR_ID_GAS_M3 \<equiv> 26"
abbreviation (input) SENSOR_ID_WATER_M3 :: SensorType where "SENSOR_ID_WATER_M3 \<equiv> 27"
abbreviation (input) SENSOR_ID_kWAh :: SensorType where "SENSOR_ID_kWAh \<equiv> 28"

text \<open>\<open>ToSensorType(id uint16)\<close>: identifiers past the last sensor are the unknown sensor.\<close>

definition ToSensorType :: "u16 \<Rightarrow> SensorType" where
  "ToSensorType i = (if i > ucast SENSOR_ID_kWAh then SENSOR_ID_UNKNOWN else ucast i)"

record SensorTypeValueRange =
  RangeMin :: int
  RangeMax :: int

definition SensorTypeValueRanges :: "(SensorType \<times> SensorTypeValueRange) list" where
  "SensorTypeValueRanges =
    [(SENSOR_ID_UNKNOWN, \<lparr>RangeMin = -32768, RangeMax = 32767\<rparr>),
     (SENSOR_ID_TEMPERATURE, \<lparr>RangeMin = -400, RangeMax = 1250\<rparr>),
     (SENSOR_ID_HUMIDITY, \<lparr>RangeMin = 0, RangeMax = 100\<rparr>),
     (SENSOR_ID_PRESSURE, \<lparr>RangeMin = 30000, RangeMax = 110000\<rparr>),
     (SENSOR_ID_LIGHT, \<lparr>RangeMin = 0, RangeMax = 100000\<rparr>),
     (SENSOR_ID_UV, \<lparr>RangeMin = 0, RangeMax = 15\<rparr>),
     (SENSOR_ID_CO, \<lparr>RangeMin = 0, RangeMax = 10000\<rparr>),
     (SENSOR_ID_CO2, \<lparr>RangeMin = 400, RangeMax = 5000\<rparr>),
     (SENSOR_ID_HCHO, \<lparr>RangeMin = 0, RangeMax = 1000\<rparr>),
     (SENSOR_ID_VOC, \<lparr>RangeMin = 0, RangeMax = 10000\<rparr>),
     (SENSOR_ID_NOX, \<lparr>RangeMin = 0, RangeMax = 10000\<rparr>),
     (SENSOR_ID_PM005, \<lparr>RangeMin = 0, RangeMax = 250\<rparr>),
     (SENSOR_ID_PM010, \<lparr>RangeMin = 0, RangeMax = 500\<rparr>),
     (SENSOR_ID_PM025, \<lparr>RangeMin = 0, RangeMax = 500\<rparr>),
     (SENSOR_ID_PM040, \<lparr>RangeMin = 0, RangeMax = 500\<rparr>),
     (SENSOR_ID_PM100, \<lparr>RangeMin = 0, RangeMax = 1000\<rparr>),
     (SENSOR_ID_SOUND, \<lparr>RangeMin = 0, RangeMax = 130\<rparr>),
     (SENSOR_ID_BINARY, \<lparr>RangeMin = 0, RangeMax = 1\<rparr>),
     (SENSOR_ID_AMPLITUDE, \<lparr>RangeMin = 0, RangeMax = 100\<rparr>),
     (SENSOR_ID_DURATION, \<lparr>RangeMin = 0, RangeMax = 3600000\<rparr>),
     (SENSOR_ID_FREQUENCY, \<lparr>RangeMin = 0, RangeMax = 1000000\<rparr>),
     (SENSOR_ID_BATTERY, \<lparr>RangeMin = 0, RangeMax = 100\<rparr>),
     (SENSOR_ID_VOLTAGE, \<lparr>RangeMin = 0, RangeMax = 5000\<rparr>),
     (SENSOR_ID_CURRENT, \<lparr>RangeMin = -2000, RangeMax = 2000\<rparr>),
     (SENSOR_ID_POWER, \<lparr>RangeMin = -100000, RangeMax = 100000\<rparr>),
     (SENSOR_ID_ENERGY, \<lparr>RangeMin = 0, RangeMax = 16000000\<rparr>),
     (SENSOR_ID_GAS_M3, \<lparr>RangeMin = 0, RangeMax = 16000000\<rparr>),
     (SENSOR_ID_WATER_M3, \<lparr>RangeMin = 0, RangeMax = 16000000\<rparr>),
     (SENSOR_ID_kWAh, \<lparr>RangeMin = 0, RangeMax = 16000000\<rparr>)]"

definition SensorTypeNames :: "(SensorType \<times> string) list" where
  "SensorTypeNames =
    [(SENSOR_ID_UNKNOWN, ''Unknown''),
     (SENSOR_ID_TEMPERATURE, ''Temperature''),
     (SENSOR_ID_HUMIDITY, ''Humidity''),
     (SENSOR_ID_PRESSURE, ''Pressure''),
     (SENSOR_ID_LIGHT, ''Light''),
     (SENSOR_ID_UV, ''UV''),
     (SENSOR_ID_CO, ''Carbon Monoxide''),
     (SENSOR_ID_CO2, ''Carbon Dioxide''),
     (SENSOR_ID_HCHO, ''Formaldehyde''),
     (SENSOR_ID_VOC, ''Volatile Organic Compounds''),
     (SENSOR_ID_NOX, ''Nitrogen Oxides''),
     (SENSOR_ID_PM005, ''Particulate Matter 0.5''),
     (SENSOR_ID_PM010, ''Particulate Matter 1.0''),
     (SENSOR_ID_PM025, ''Particulate Matter 2.5''),
     (SENSOR_ID_PM040, ''Particulate Matter 4.0''),
     (SENSOR_ID_PM100, ''Particulate Matter 10.0''),
     (SENSOR_ID_SOUND, ''Noise/Sound Level''),
     (SENSOR_ID_BINARY, ''On/Off''),
     (SENSOR_ID_AMPLITUDE, ''Amplitude''),
     (SENSOR_ID_DURATION, ''Duration''),
     (SENSOR_ID_FREQUENCY, ''Frequency''),
     (SENSOR_ID_BATTERY, ''Battery''),
     (SENSOR_ID_VOLTAGE, ''Voltage''),
     (SENSOR_ID_CURRENT, ''Current''),
     (SENSOR_ID_POWER, ''Power''),
     (SENSOR_ID_ENERGY, ''Energy''),
     (SENSOR_ID_GAS_M3, ''Gas Meter''),
     (SENSOR_ID_WATER_M3, ''Water Meter''),
     (SENSOR_ID_kWAh, ''Electric Meter'')]"

definition SensorType_String :: "SensorType \<Rightarrow> string" where
  "SensorType_String t = (case map_of SensorTypeNames t of
       Some name \<Rightarrow> name
     | None \<Rightarrow> ''Unknown('' @ decimal (unat t) @ '')'')"

definition SensorNameToSensorType :: "(string \<times> SensorType) list" where
  "SensorNameToSensorType =
    [(''unknown'', SENSOR_ID_UNKNOWN),
     (''temperature'', SENSOR_ID_TEMPERATURE),
     (''humidity'', SENSOR_ID_HUMIDITY),
     (''pressure'', SENSOR_ID_PRESSURE),
     (''light'', SENSOR_ID_LIGHT),
     (''uv'', SENSOR_ID_UV),
     (''carbon monoxide'', SENSOR_ID_CO),
     (''carbon dioxide'', SENSOR_ID_CO2),
     (''formaldehyde'', SENSOR_ID_HCHO),
     (''volatile organic compounds'', SENSOR_ID_VOC),
     (''nitrogen oxides'', SENSOR_ID_NOX),
     (''particulate matter 0.5'', SENSOR_ID_PM005),
     (''particulate matter 1.0'', SENSOR_ID_PM010),
     (''particulate matter 2.5'', SENSOR_ID_PM025),
     (''particulate matter 4.0'', SENSOR_ID_PM040),
     (''particulate matter 10.0'', SENSOR_ID_PM100),
     (''sound'', SENSOR_ID_SOUND),
     (''binary'', SENSOR_ID_BINARY),
     (''amplitude'', SENSOR_ID_AMPLITUDE),
     (''duration'', SENSOR_ID_DURATION),
     (''frequency'', SENSOR_ID_FREQUENCY),
     (''battery'', SENSOR_ID_BATTERY),
     (''voltage'', SENSOR_ID_VOLTAGE),
     (''current'', SENSOR_ID_CURRENT),
     (''power'', SENSOR_ID_POWER),
     (''energy'', SENSOR_ID_ENERGY),
     (''gas meter'', SENSOR_ID_GAS_M3),
     (''water meter'', SENSOR_ID_WATER_M3),
     (''electric meter'', SENSOR_ID_kWAh)]"

section \<open>Actuators (\<open>house_actuators.go\<close>)\<close>

type_synonym ActuatorType = u8

abbreviation (input) ACTUATOR_ID_UNKNOWN :: ActuatorType where "ACTUATOR_ID_UNKNOWN \<equiv> 0"
abbreviation (input) ACTUATOR_ID_1 :: ActuatorType where "ACTUATOR_ID_1 \<equiv> 1"
abbreviation (input) ACTUATOR_ID_2 :: ActuatorType where "ACTUATOR_ID_2 \<equiv> 2"
abbreviation (input) ACTUATOR_ID_3 :: ActuatorType where "ACTUATOR_ID_3 \<equiv> 3"
abbreviation (input) ACTUATOR_ID_4 :: ActuatorType where "ACTUATOR_ID_4 \<equiv> 4"
abbreviation (input) ACTUATOR_ID_5 :: ActuatorType where "ACTUATOR_ID_5 \<equiv> 5"
abbreviation (input) ACTUATOR_ID_6 :: ActuatorType where "ACTUATOR_ID_6 \<equiv> 6"
abbreviation (input) ACTUATOR_ID_7 :: ActuatorType where "ACTUATOR_ID_7 \<equiv> 7"
abbreviation (input) ACTUATOR_ID_8 :: ActuatorType where "ACTUATOR_ID_8 \<equiv> 8"
abbreviation (input) ACTUATOR_ID_9 :: ActuatorType where "ACTUATOR_ID_9 \<equiv> 9"
abbreviation (input) ACTUATOR_ID_10 :: ActuatorType where "ACTUATOR_ID_10 \<equiv> 10"
abbreviation (input) ACTUATOR_ID_MAX :: ActuatorType where "ACTUATOR_ID_MAX \<equiv> 11"

definition ToActuatorType :: "u8 \<Rightarrow> ActuatorType" where
  "ToActuatorType i = (if i \<ge> ACTUATOR_ID_MAX then ACTUATOR_ID_UNKNOWN else i)"

definition ActuatorTypeNames :: "(ActuatorType \<times> string) list" where
  "ActuatorTypeNames =
    [(ACTUATOR_ID_UNKNOWN, ''Unknown''),
     (ACTUATOR_ID_1, ''Actuator1''),
     (ACTUATOR_ID_2, ''Actuator2''),
     (ACTUATOR_ID_3, ''Actuator3''),
     (ACTUATOR_ID_4, ''Actuator4''),
     (ACTUATOR_ID_5, ''Actuator5''),
     (ACTUATOR_ID_6, ''Actuator6''),
     (ACTUATOR_ID_7, ''Actuator7''),
     (ACTUATOR_ID_8, ''Actuator8''),
     (ACTUATOR_ID_9, ''Actuator9''),
     (ACTUATOR_ID_10, ''Actuator10'')]"

definition ActuatorType_String :: "ActuatorType \<Rightarrow> string" where
  "ActuatorType_String t = (case map_of ActuatorTypeNames t of
       Some name \<Rightarrow> name
     | None \<Rightarrow> ''Unknown('' @ decimal (unat t) @ '')'')"

definition ActuatorNameToActuatorType :: "(string \<times> ActuatorType) list" where
  "ActuatorNameToActuatorType =
    [(''Unknown'', ACTUATOR_ID_UNKNOWN),
     (''Actuator1'', ACTUATOR_ID_1),
     (''Actuator2'', ACTUATOR_ID_2),
     (''Actuator3'', ACTUATOR_ID_3),
     (''Actuator4'', ACTUATOR_ID_4),
     (''Actuator5'', ACTUATOR_ID_5),
     (''Actuator6'', ACTUATOR_ID_6),
     (''Actuator7'', ACTUATOR_ID_7),
     (''Actuator8'', ACTUATOR_ID_8),
     (''Actuator9'', ACTUATOR_ID_9),
     (''Actuator10'', ACTUATOR_ID_10)]"

section \<open>Units (\<open>house_units.go\<close>)\<close>

type_synonym UnitType = u8

abbreviation (input) UTemperature :: UnitType where "UTemperature \<equiv> 0"
abbreviation (input) UCelcius :: UnitType where "UCelcius \<equiv> 1"
abbreviation (input) UFahrenheit :: UnitType where "UFahrenheit \<equiv> 2"
abbreviation (input) UKelvin :: UnitType where "UKelvin \<equiv> 3"
abbreviation (input) UPressure :: UnitType where "UPressure \<equiv> 6"
abbreviation (input) UBar :: UnitType where "UBar \<equiv> 7"
abbreviation (input) UPascal :: UnitType where "UPascal \<equiv> 8"
abbreviation (input) UAtmosphere :: UnitType where "UAtmosphere \<equiv> 9"
abbreviation (input) UHumidity :: UnitType where "UHumidity \<equiv> 13"
abbreviation (input) UVelocity :: UnitType where "UVelocity \<equiv> 17"
abbreviation (input) UKilometersPerHour :: UnitType where "UKilometersPerHour \<equiv> 18"
abbreviation (input) UMilesPerHour :: UnitType where "UMilesPerHour \<equiv> 19"
abbreviation (input) UAcceleration :: UnitType where "UAcceleration \<equiv> 20"
abbreviation (input) UGForce :: UnitType where "UGForce \<equiv> 21"
abbreviation (input) UPpm :: UnitType where "UPpm \<equiv> 25"
abbreviation (input) UPpb :: UnitType where "UPpb \<equiv> 26"
abbreviation (input) UPercent :: UnitType where "UPercent \<equiv> 27"
abbreviation (input) UKilograms :: UnitType where "UKilograms \<equiv> 30"
abbreviation (input) UGrams :: UnitType where "UGrams \<equiv> 31"
abbreviation (input) UMilligrams :: UnitType where "UMilligrams \<equiv> 32"
abbreviation (input) UMicrograms :: UnitType where "UMicrograms \<equiv> 33"
abbreviation (input) UTons :: UnitType where "UTons \<equiv> 34"
abbreviation (input) UPounds :: UnitType where "UPounds \<equiv> 35"
abbreviation (input) UOunces :: UnitType where "UOunces \<equiv> 36"
abbreviation (input) UKilometers :: UnitType where "UKilometers \<equiv> 40"
abbreviation (input) UMeters :: UnitType where "UMeters \<equiv> 41"
abbreviation (input) UCentimeters :: UnitType where "UCentimeters \<equiv> 42"
abbreviation (input) UMillimeters :: UnitType where "UMillimeters \<equiv> 43"
abbreviation (input) UMiles :: UnitType where "UMiles \<equiv> 44"
abbreviation (input) UFeet :: UnitType where "UFeet \<equiv> 45"
abbreviation (input) UInches :: UnitType where "UInches \<equiv> 46"
abbreviation (input) UHours :: UnitType where "UHours \<equiv> 50"
abbreviation (input) UMinutes :: UnitType where "UMinutes \<equiv> 51"
abbreviation (input) USeconds :: UnitType where "USeconds \<equiv> 52"
abbreviation (input) UMilliseconds :: UnitType where "UMilliseconds \<equiv> 53"
abbreviation (input) UMicroseconds :: UnitType where "UMicroseconds \<equiv> 54"
abbreviation (input) UNanoseconds :: UnitType where "UNanoseconds \<equiv> 55"
abbreviation (input) ULiters :: UnitType where "ULiters \<equiv> 59"
abbreviation (input) UMilliliters :: UnitType where "UMilliliters \<equiv> 60"
abbreviation (input) UCubicMeters :: UnitType where "UCubicMeters \<equiv> 61"
abbreviation (input) UGallons :: UnitType where "UGallons \<equiv> 62"
abbreviation (input) UJoules :: UnitType where "UJoules \<equiv> 66"
abbreviation (input) UKiloJoules :: UnitType where "UKiloJoules \<equiv> 67"
abbreviation (input) UWatts :: UnitType where "UWatts \<equiv> 68"
abbreviation (input) UKiloWatts :: UnitType where "UKiloWatts \<equiv> 69"
abbreviation (input) UMegaWatts :: UnitType where "UMegaWatts \<equiv> 70"
abbreviation (input) UKiloWattHour :: UnitType where "UKiloWattHour \<equiv> 71"
abbreviation (input) UBytes :: UnitType where "UBytes \<equiv> 75"
abbreviation (input) UKiloBytes :: UnitType where "UKiloBytes \<equiv> 76"
abbreviation (input) UMegaBytes :: UnitType where "UMegaBytes \<equiv> 77"
abbreviation (input) UGigaBytes :: UnitType where "UGigaBytes \<equiv> 78"
abbreviation (input) UTeraBytes :: UnitType where "UTeraBytes \<equiv> 79"
abbreviation (input) UVolt :: UnitType where "UVolt \<equiv> 83"
abbreviation (input) UMilliVolt :: UnitType where "UMilliVolt \<equiv> 84"
abbreviation (input) UAmpere :: UnitType where "UAmpere \<equiv> 85"
abbreviation (input) UMilliAmpere :: UnitType where "UMilliAmpere \<equiv> 86"
abbreviation (input) UOhm :: UnitType where "UOhm \<equiv> 87"
abbreviation (input) UFarad :: UnitType where "UFarad \<equiv> 88"
abbreviation (input) UHenry :: UnitType where "UHenry \<equiv> 89"
abbreviation (input) UdBm :: UnitType where "UdBm \<equiv> 90"
abbreviation (input) UHertz :: UnitType where "UHertz \<equiv> 93"
abbreviation (input) UKiloHertz :: UnitType where "UKiloHertz \<equiv> 94"
abbreviation (input) UMegaHertz :: UnitType where "UMegaHertz \<equiv> 95"
abbreviation (input) UGigaHertz :: UnitType where "UGigaHertz \<equiv> 96"
abbreviation (input) UDegrees :: UnitType where "UDegrees \<equiv> 100"
abbreviation (input) URadians :: UnitType where "URadians \<equiv> 101"
abbreviation (input) UOnOff :: UnitType where "UOnOff \<equiv> 105"
abbreviation (input) UOpenClose :: UnitType where "UOpenClose \<equiv> 106"
abbreviation (input) UTrueFalse :: UnitType where "UTrueFalse \<equiv> 107"
abbreviation (input) UActiveInactive :: UnitType where "UActiveInactive \<equiv> 108"
abbreviation (input) UEnabledDisabled :: UnitType where "UEnabledDisabled \<equiv> 109"
abbreviation (input) UStartStop :: UnitType where "UStartStop \<equiv> 110"
abbreviation (input) UAlarmNormal :: UnitType where "UAlarmNormal \<equiv> 111"
abbreviation (input) UFaultNormal :: UnitType where "UFaultNormal \<equiv> 112"
abbreviation (input) UPresentAbsent :: UnitType where "UPresentAbsent \<equiv> 113"
abbreviation (input) UDetectedNotDetected :: UnitType where "UDetectedNotDetected \<equiv> 114"
abbreviation (input) UDecibels :: UnitType where "UDecibels \<equiv> 116"
abbreviation (input) ULux :: UnitType where "ULux \<equiv> 120"
abbreviation (input) UUvIndex :: UnitType where "UUvIndex \<equiv> 121"
abbreviation (input) Uugm3 :: UnitType where "Uugm3 \<equiv> 125"
abbreviation (input) Umgm3 :: UnitType where "Umgm3 \<equiv> 126"
abbreviation (input) UUnknown :: UnitType where "UUnknown \<equiv> 255"

definition SensorTypeUnits :: "(SensorType \<times> UnitType) list" where
  "SensorTypeUnits =
    [(SENSOR_ID_UNKNOWN, UUnknown),
     (SENSOR_ID_TEMPERATURE, UTemperature),
     (SENSOR_ID_HUMIDITY, UHumidity),
     (SENSOR_ID_PRESSURE, UPressure),
     (SENSOR_ID_LIGHT, ULux),
     (SENSOR_ID_UV, UUvIndex),
     (SENSOR_ID_CO, UPpm),
     (SENSOR_ID_CO2, UPpm),
     (SENSOR_ID_HCHO, UPpm),
     (SENSOR_ID_VOC, UPpm),
     (SENSOR_ID_NOX, UPpm),
     (SENSOR_ID_PM005, Uugm3),
     (SENSOR_ID_PM010, Uugm3),
     (SENSOR_ID_PM025, Uugm3),
     (SENSOR_ID_PM040, Uugm3),
     (SENSOR_ID_PM100, Uugm3),
     (SENSOR_ID_SOUND, UDecibels),
     (SENSOR_ID_BINARY, UOnOff),
     (SENSOR_ID_AMPLITUDE, UPercent),
     (SENSOR_ID_DURATION, UMilliseconds),
     (SENSOR_ID_FREQUENCY, UHertz),
     (SENSOR_ID_BATTERY, UPercent),
     (SENSOR_ID_VOLTAGE, UVolt),
     (SENSOR_ID_CURRENT, UAmpere),
     (SENSOR_ID_POWER, UKiloWatts),
     (SENSOR_ID_ENERGY, UKiloWattHour),
     (SENSOR_ID_GAS_M3, UCubicMeters),
     (SENSOR_ID_WATER_M3, UCubicMeters),
     (SENSOR_ID_kWAh, UKiloWattHour)]"

definition UnitForSensorType :: "SensorType \<Rightarrow> UnitType" where
  "UnitForSensorType t = (case map_of SensorTypeUnits t of Some unit \<Rightarrow> unit | None \<Rightarrow> UUnknown)"

definition UnitTypeToSymbolString :: "(UnitType \<times> string) list" where
  "UnitTypeToSymbolString =
    [(UTemperature, [CHR 0xC2, CHR 0xB0] @ ''C''),
     (UCelcius, [CHR 0xC2, CHR 0xB0] @ ''C''),
     (UFahrenheit, [CHR 0xC2, CHR 0xB0] @ ''F''),
     (UKelvin, ''K''),
     (UPressure, ''Pa''),
     (UBar, ''bar''),
     (UPascal, ''Pa''),
     (UAtmosphere, ''atm''),
     (UHumidity, ''%''),
     (UVelocity, ''m/s''),
     (UKilometersPerHour, ''km/h''),
     (UMilesPerHour, ''mph''),
     (UAcceleration, ''m/s'' @ [CHR 0xC2, CHR 0xB2]),
     (UGForce, ''g''),
     (UPpm, ''ppm''),
     (UPpb, ''ppb''),
     (UPercent, ''%''),
     (UKilograms, ''kg''),
     (UGrams, ''g''),
     (UMilligrams, ''mg''),
     (UMicrograms, [CHR 0xC2, CHR 0xB5] @ ''g''),
     (UTons, ''t''),
     (UPounds, ''lb''),
     (UOunces, ''oz''),
     (UKilometers, ''km''),
     (UMeters, ''m''),
     (UCentimeters, ''cm''),
     (UMillimeters, ''mm''),
     (UMiles, ''mi''),
     (UFeet, ''ft''),
     (UInches, ''in''),
     (UHours, ''h''),
     (UMinutes, ''min''),
     (USeconds, ''s''),
     (UMilliseconds, ''ms''),
     (UMicroseconds, [CHR 0xC2, CHR 0xB5] @ ''s''),
     (UNanoseconds, ''ns''),
     (ULiters, ''L''),
     (UMilliliters, ''mL''),
     (UCubicMeters, ''m'' @ [CHR 0xC2, CHR 0xB3]),
     (UGallons, ''gal''),
     (UJoules, ''J''),
     (UKiloJoules, ''kJ''),
     (UWatts, ''W''),
     (UKiloWatts, ''kW''),
     (UMegaWatts, ''MW''),
     (UKiloWattHour, ''kWh''),
     (UBytes, ''B''),
     (UKiloBytes, ''kB''),
     (UMegaBytes, ''MB''),
     (UGigaBytes, ''GB''),
     (UTeraBytes, ''TB''),
     (UVolt, ''V''),
     (UMilliVolt, ''mV''),
     (UAmpere, ''A''),
     (UMilliAmpere, ''mA''),
     (UOhm, [CHR 0xCE, CHR 0xA9]),
     (UFarad, ''F''),
     (UHenry, ''H''),
     (UdBm, ''dBm''),
     (UHertz, ''Hz''),
     (UKiloHertz, ''kHz''),
     (UMegaHertz, ''MHz''),
     (UGigaHertz, ''GHz''),
     (UDegrees, [CHR 0xC2, CHR 0xB0]),
     (URadians, ''rad''),
     (UOnOff, ''On/Off''),
     (UOpenClose, ''Open/Close''),
     (UTrueFalse, ''True/False''),
     (UActiveInactive, ''Active/Inactive''),
     (UEnabledDisabled, ''Enabled/Disabled''),
     (UStartStop, ''Start/Stop''),
     (UAlarmNormal, ''Alarm/Normal''),
     (UFaultNormal, ''Fault/Normal''),
     (UPresentAbsent, ''Present/Absent''),
     (UDetectedNotDetected, ''Detected/Not Detected''),
     (UDecibels, ''dB''),
     (ULux, ''lx''),
     (UUvIndex, ''UV Index''),
     (Uugm3, [CHR 0xC2, CHR 0xB5] @ ''g/m'' @ [CHR 0xC2, CHR 0xB3]),
     (Umgm3, ''mg/m'' @ [CHR 0xC2, CHR 0xB3]),
     (UUnknown, ''?'')]"

definition UnitTypeToString :: "(UnitType \<times> string) list" where
  "UnitTypeToString =
    [(UTemperature, ''Temperature''),
     (UCelcius, ''Celsius''),
     (UFahrenheit, ''Fahrenheit''),
     (UKelvin, ''Kelvin''),
     (UPressure, ''Pressure''),
     (UBar, ''Bar''),
     (UPascal, ''Pascal''),
     (UAtmosphere, ''Atmosphere''),
     (UHumidity, ''Humidity''),
     (UVelocity, ''Velocity''),
     (UKilometersPerHour, ''Kilometers per Hour''),
     (UMilesPerHour, ''Miles per Hour''),
     (UAcceleration, ''Acceleration''),
     (UGForce, ''G-Force''),
     (UPpm, ''Parts per Million (PPM)''),
     (UPpb, ''Parts per Billion (PPB)''),
     (UPercent, ''Percent (%)''),
     (UKilograms, ''Kilograms (kg)''),
     (UGrams, ''Grams (g)''),
     (UMilligrams, ''Milligrams (mg)''),
     (UMicrograms, ''Micrograms ('' @ [CHR 0xC2, CHR 0xB5] @ ''g)''),
     (UTons, ''Tons (t)''),
     (UPounds, ''Pounds (lb)''),
     (UOunces, ''Ounces (oz)''),
     (UKilometers, ''Kilometers (km)''),
     (UMeters, ''Meters (m)''),
     (UCentimeters, ''Centimeters (cm)''),
     (UMillimeters, ''Millimeters (mm)''),
     (UMiles, ''Miles (mi)''),
     (UFeet, ''Feet (ft)''),
     (UInches, ''Inches (in)''),
     (UHours, ''Hours (h)''),
     (UMinutes, ''Minutes (min)''),
     (USeconds, ''Seconds (s)''),
     (UMilliseconds, ''Milliseconds (ms)''),
     (UMicroseconds, ''Microseconds ('' @ [CHR 0xC2, CHR 0xB5] @ ''s)''),
     (UNanoseconds, ''Nanoseconds (ns)''),
     (ULiters, ''Liters (L)''),
     (UMilliliters, ''Milliliters (mL)''),
     (UCubicMeters, ''Cubic Meters (m'' @ [CHR 0xC2, CHR 0xB3] @ '')''),
     (UGallons, ''Gallons (gal)''),
     (UJoules, ''Joules (J)''),
     (UKiloJoules, ''Kilojoules (kJ)''),
     (UWatts, ''Watts (W)''),
     (UKiloWatts, ''Kilowatts (kW)''),
     (UMegaWatts, ''Megawatts (MW)''),
     (UKiloWattHour, ''Kilowatt-hour (kWh)''),
     (UBytes, ''Bytes (B)''),
     (UKiloBytes, ''Kilobytes (KB)''),
     (UMegaBytes, ''Megabytes (MB)''),
     (UGigaBytes, ''Gigabytes (GB)''),
     (UTeraBytes, ''Terabytes (TB)''),
     (UVolt, ''Volts (V)''),
     (UMilliVolt, ''Millivolts (mV)''),
     (UAmpere, ''Amperes (A)''),
     (UMilliAmpere, ''Milliamperes (mA)''),
     (UOhm, ''Ohms ('' @ [CHR 0xCE, CHR 0xA9] @ '')''),
     (UFarad, ''Farads (F)''),
     (UHenry, ''Henrys (H)''),
     (UdBm, ''Decibel-milliwatts (dBm)''),
     (UHertz, ''Hertz (Hz)''),
     (UKiloHertz, ''Kilohertz (kHz)''),
     (UMegaHertz, ''Megahertz (MHz)''),
     (UGigaHertz, ''Gigahertz (GHz)''),
     (UDegrees, ''Degrees ('' @ [CHR 0xC2, CHR 0xB0] @ '')''),
     (URadians, ''Radians (rad)''),
     (UOnOff, ''On/Off''),
     (UOpenClose, ''Open/Close''),
     (UTrueFalse, ''True/False''),
     (UActiveInactive, ''Active/Inactive''),
     (UEnabledDisabled, ''Enabled/Disabled''),
     (UStartStop, ''Start/Stop''),
     (UAlarmNormal, ''Alarm/Normal''),
     (UFaultNormal, ''Fault/Normal''),
     (UPresentAbsent, ''Present/Absent''),
     (UDetectedNotDetected, ''Detected/Not Detected''),
     (UDecibels, ''Decibels (dB)''),
     (ULux, ''Lux (lx)''),
     (UUvIndex, ''UV Index''),
     (Uugm3, ''Micrograms per Cubic Meter ('' @ [CHR 0xC2, CHR 0xB5] @ ''g/m'' @ [CHR 0xC2, CHR 0xB3] @ '')''),
     (Umgm3, ''Milligrams per Cubic Meter (mg/m'' @ [CHR 0xC2, CHR 0xB3] @ '')'')]"

definition UnitType_String :: "UnitType \<Rightarrow> string" where
  "UnitType_String u = (case map_of UnitTypeToString u of Some name \<Rightarrow> name | None \<Rightarrow> ''Unknown'')"

definition UnitType_Symbol :: "UnitType \<Rightarrow> string" where
  "UnitType_Symbol u = (case map_of UnitTypeToSymbolString u of Some symbol \<Rightarrow> symbol | None \<Rightarrow> ''?'')"

section \<open>Small words\<close>

text \<open>The words below a numeral, listed: case analysis over an enumeration.\<close>

lemma word_less_cases:
  fixes w :: "'a::len word"
  assumes "unat w < n"
  shows "\<exists>k < n. w = of_nat k"
  using assms by (intro exI [of _ "unat w"]) simp

lemma u8_less_of_nat:
  fixes w :: u8
  shows "w < 4 \<Longrightarrow> w = 0 \<or> w = 1 \<or> w = 2 \<or> w = 3"
    and "w < 7 \<Longrightarrow> w = 0 \<or> w = 1 \<or> w = 2 \<or> w = 3 \<or> w = 4 \<or> w = 5 \<or> w = 6"
  by (auto simp: word_less_nat_alt word_unat_eq_iff)

section \<open>Conversions\<close>

lemma FloorTypeFromString_String:
  "FloorTypeFromString (FloorType_String f) = (if f < FLOOR_COUNT then f else FLOOR_INVALID)"
  by (auto simp: FloorTypeFromString_def FloorType_String_def floorTypeNames_def
      floorNameToType_def dest: u8_less_of_nat)

lemma RoomTypeFromString_String:
  "RoomTypeFromString (RoomType_String r) = (if r < ROOM_COUNT then r else ROOM_INVALID)"
  by (auto simp: RoomTypeFromString_def RoomType_String_def roomTypeNames_def
      roomNameToType_def dest: u8_less_of_nat)

lemma FloorTypeFromString_valid:
  "FloorTypeFromString s = FLOOR_INVALID \<or> FloorTypeFromString s < FLOOR_COUNT"
  by (auto simp: FloorTypeFromString_def floorNameToType_def)

lemma RoomTypeFromString_valid:
  "RoomTypeFromString s = ROOM_INVALID \<or> RoomTypeFromString s < ROOM_COUNT"
  by (auto simp: RoomTypeFromString_def roomNameToType_def)

lemma FloorType_String_inj:
  "f < FLOOR_COUNT \<Longrightarrow> g < FLOOR_COUNT \<Longrightarrow> FloorType_String f = FloorType_String g \<longleftrightarrow> f = g"
  by (metis FloorTypeFromString_String)

lemma RoomType_String_inj:
  "q < ROOM_COUNT \<Longrightarrow> r < ROOM_COUNT \<Longrightarrow> RoomType_String q = RoomType_String r \<longleftrightarrow> q = r"
  by (metis RoomTypeFromString_String)

section \<open>Tables\<close>

lemma distinct_SensorTypeNames: "distinct (map fst SensorTypeNames)" "distinct (map snd SensorTypeNames)"
  by (simp_all add: SensorTypeNames_def)

lemma dom_SensorTypeNames: "map_of SensorTypeNames t \<noteq> None \<longleftrightarrow> t \<le> SENSOR_ID_kWAh"
proof -
  have "map_of SensorTypeNames t \<noteq> None \<longleftrightarrow> t \<in> fst ` set SensorTypeNames"
    by (simp add: map_of_eq_None_iff)
  also have "\<dots> \<longleftrightarrow> unat t < 29"
    by (simp add: SensorTypeNames_def word_unat_eq_iff) presburger
  finally show ?thesis by (simp add: word_le_nat_alt) presburger
qed

lemma distinct_UnitTypeToString: "distinct (map fst UnitTypeToString)" "distinct (map snd UnitTypeToString)"
  by (simp_all add: UnitTypeToString_def)

end
