(* ===== verification/Protocol.thy ===== *)
theory Protocol
  imports BinaryData Crc32 GoIO House
begin

text \<open>
  \<open>sensor-server/protocol.go\<close>: the wire format. Messages are decoded with the cursor of
  \<open>BinaryData\<close> exactly in the source's order of reads and checks; a decoder is \<^term>\<open>None\<close>
  where Go would panic. The lemmas give a closed form of each decoder, which shows that no
  input makes it panic, that it accepts exactly the encodings \<open>EncodeMessage\<close> produces, and
  that it never looks at bytes beyond the length of its slice.
\<close>

section \<open>Constants and data\<close>

definition MessageMagic :: u16 where "MessageMagic = 0xF00D"
definition MessageHeaderSize :: nat where "MessageHeaderSize = 16"
definition SensorRecordSize :: nat where "SensorRecordSize = 4"
definition MaximumPayloadSize :: nat where "MaximumPayloadSize = 8 * 1024"

type_synonym MessageType = u16

definition MessageTypeInvalid :: MessageType where "MessageTypeInvalid = 0"
definition MessageTypeSensorData :: MessageType where "MessageTypeSensorData = 1"
definition MessageTypeActuatorData :: MessageType where "MessageTypeActuatorData = 2"

record MessageHeader =
  Magic :: u16
  MsgType :: MessageType
  PayloadLength :: u16
  MAC :: MACAddress
  Checksum :: u32

record SensorRecord =
  RecType :: SensorType
  Value :: i32

record Message =
  Header :: MessageHeader
  Payload :: "u8 list"
  Sensors :: "SensorRecord list"

lemmas protocol_consts = MessageMagic_def MessageHeaderSize_def SensorRecordSize_def
  MaximumPayloadSize_def MessageTypeInvalid_def MessageTypeSensorData_def MessageTypeActuatorData_def

section \<open>Decoders\<close>

definition DecodeHeader :: "slice \<Rightarrow> (go_error + MessageHeader) option" where
  "DecodeHeader data =
     (if length (elems data) \<noteq> MessageHeaderSize then Some (Inl ErrUnexpectedEOF)
      else do {
        (hdrMagic, d) \<leftarrow> ReadUint16 \<lparr>buf = data, off = 0\<rparr>;
        (hdrType, d) \<leftarrow> ReadUint16 d;
        (payloadLength, d) \<leftarrow> ReadUint16 d;
        (mac, d) \<leftarrow> ReadMAC d;
        (checksum, d) \<leftarrow> ReadUint32 d;
        let header = \<lparr>Magic = hdrMagic, MsgType = hdrType, PayloadLength = payloadLength,
                      MAC = mac, Checksum = checksum\<rparr>;
        Some (if Magic header \<noteq> MessageMagic then Inl ErrInvalidMagic
              else if unat (PayloadLength header) > MaximumPayloadSize then Inl ErrPayloadTooLarge
              else Inr header) })"

text \<open>The loop of \<open>DecodeMessage\<close> over the records of the payload.\<close>

fun decodeSensors :: "nat \<Rightarrow> BinaryData \<Rightarrow> SensorRecord list option" where
  "decodeSensors 0 d = Some []"
| "decodeSensors (Suc n) d = do {
     (sensorTypeValue, d) \<leftarrow> ReadUint8 d;
     (value, d) \<leftarrow> ReadInt24 d;
     rest \<leftarrow> decodeSensors n d;
     Some (\<lparr>RecType = ToSensorType (ucast sensorTypeValue), Value = value\<rparr> # rest) }"

definition DecodeMessage :: "MessageHeader \<Rightarrow> slice \<Rightarrow> (go_error + Message) option" where
  "DecodeMessage header payload =
     (if length (elems payload) \<noteq> unat (PayloadLength header) then Some (Inl ErrInvalidPayload)
      else if MsgType header \<noteq> MessageTypeSensorData then Some (Inl ErrUnsupportedType)
      else if unat (PayloadLength header) mod SensorRecordSize \<noteq> 0 then Some (Inl ErrInvalidPayload)
      else if ChecksumIEEE (elems payload) \<noteq> Checksum header then Some (Inl ErrChecksumMismatch)
      else do {
        sensors \<leftarrow> decodeSensors (length (elems payload) div SensorRecordSize)
                     \<lparr>buf = payload, off = 0\<rparr>;
        Some (Inr \<lparr>Header = header, Payload = elems payload, Sensors = sensors\<rparr>) })"

text \<open>\<open>ReadMessage\<close> reads exactly one message from a TCP byte stream.\<close>

definition ReadMessage :: "Reader \<Rightarrow> ((go_error + Message) \<times> Reader) option" where
  "ReadMessage reader =
     (case io_ReadFull MessageHeaderSize reader of
        (Inl err, reader) \<Rightarrow> Some (Inl err, reader)
      | (Inr headerBytes, reader) \<Rightarrow> do {
          hdr \<leftarrow> DecodeHeader (slice_of headerBytes);
          (case hdr of
             Inl err \<Rightarrow> Some (Inl err, reader)
           | Inr header \<Rightarrow>
               (case io_ReadFull (unat (PayloadLength header)) reader of
                  (Inl err, reader) \<Rightarrow> Some (Inl err, reader)
                | (Inr payload, reader) \<Rightarrow> do {
                    message \<leftarrow> DecodeMessage header (slice_of payload);
                    Some (message, reader) })) })"

definition DecodeDatagram :: "slice \<Rightarrow> (go_error + Message) option" where
  "DecodeDatagram datagram =
     (if length (elems datagram) < MessageHeaderSize then Some (Inl ErrDatagramSize)
      else do {
        headerBytes \<leftarrow> go_slice datagram 0 (int MessageHeaderSize);
        hdr \<leftarrow> DecodeHeader headerBytes;
        (case hdr of
           Inl err \<Rightarrow> Some (Inl err)
         | Inr header \<Rightarrow>
             if length (elems datagram) \<noteq> MessageHeaderSize + unat (PayloadLength header)
             then Some (Inl ErrDatagramSize)
             else do {
               payload \<leftarrow> go_slice datagram (int MessageHeaderSize) (int (length (elems datagram)));
               DecodeMessage header payload }) })"

section \<open>Encoder\<close>

text \<open>The five fields of the header, as \<open>PutUint16\<close>, \<open>copy\<close> and \<open>PutUint32\<close> lay them out.\<close>

definition headerBytesOf :: "MessageType \<Rightarrow> MACAddress \<Rightarrow> u8 list \<Rightarrow> u8 list" where
  "headerBytesOf messageType mac payload =
     le_bytes 2 MessageMagic @ le_bytes 2 messageType @
     le_bytes 2 (word_of_nat (length payload) :: u16) @ mac_bytes mac @
     le_bytes 4 (ChecksumIEEE payload)"

definition EncodeMessage :: "MessageType \<Rightarrow> MACAddress \<Rightarrow> u8 list \<Rightarrow> (go_error + u8 list) option" where
  "EncodeMessage messageType mac payload =
     (if length payload > MaximumPayloadSize then Some (Inl ErrPayloadTooLarge)
      else if messageType \<noteq> MessageTypeSensorData then Some (Inl ErrUnsupportedType)
      else if length payload mod SensorRecordSize \<noteq> 0 then Some (Inl ErrInvalidPayload)
      else do {
        let headerBytes = headerBytesOf messageType mac payload;
        hdr \<leftarrow> DecodeHeader (slice_of headerBytes);
        (case hdr of
           Inl err \<Rightarrow> Some (Inl err)
         | Inr _ \<Rightarrow> Some (Inr (headerBytes @ payload))) })"

section \<open>Closed forms\<close>

text \<open>The header a 16-byte string carries, field by field at the offsets of the wire format.\<close>

definition header_at :: "u8 list \<Rightarrow> MessageHeader" where
  "header_at bs = \<lparr>Magic = le_word (take 2 bs), MsgType = le_word (take 2 (drop 2 bs)),
     PayloadLength = le_word (take 2 (drop 4 bs)), MAC = copyMAC (take 6 (drop 6 bs)),
     Checksum = le_word (take 4 (drop 12 bs))\<rparr>"

text \<open>The sensor records of a payload, four bytes each.\<close>

definition records_of :: "u8 list \<Rightarrow> SensorRecord list" where
  "records_of p = map (\<lambda>i. \<lparr>RecType = ToSensorType (ucast (p ! (4 * i))),
     Value = int24_of_bytes (p ! (4 * i + 1)) (p ! (4 * i + 2)) (p ! (4 * i + 3))\<rparr>)
     [0..<length p div 4]"

lemma cursor_fold: "\<lparr>buf = s, off = 0\<rparr> = cursor s 0" "\<lparr>buf = s, off = int i\<rparr> = cursor s i"
  by (simp_all add: cursor_def)

lemma DecodeHeader_eq:
  "DecodeHeader data = Some
     (if length (elems data) \<noteq> 16 then Inl ErrUnexpectedEOF
      else if Magic (header_at (elems data)) \<noteq> MessageMagic then Inl ErrInvalidMagic
      else if unat (PayloadLength (header_at (elems data))) > MaximumPayloadSize
        then Inl ErrPayloadTooLarge
      else Inr (header_at (elems data)))"
proof (cases "length (elems data) = 16")
  case True
  then show ?thesis
    by (simp add: DecodeHeader_def MessageHeaderSize_def cursor_fold wire header_at_def
        del: add_2_eq_Suc add_2_eq_Suc')
next
  case False
  then show ?thesis
    by (simp add: DecodeHeader_def MessageHeaderSize_def)
qed

lemma decodeSensors_eq:
  "k + 4 * n \<le> length (elems s) \<Longrightarrow>
   decodeSensors n (cursor s k) = Some (map (\<lambda>i. \<lparr>RecType = ToSensorType (ucast (elems s ! (k + 4 * i))),
     Value = int24_of_bytes (elems s ! (k + 4 * i + 1)) (elems s ! (k + 4 * i + 2))
       (elems s ! (k + 4 * i + 3))\<rparr>) [0..<n])"
proof (induction n arbitrary: k)
  case 0
  then show ?case by simp
next
  case (Suc n)
  have split: "[0..<Suc n] = 0 # map Suc [0..<n]"
    by (simp add: map_Suc_upt upt_conv_Cons del: upt_Suc)
  from Suc.prems have IH: "decodeSensors n (cursor s (k + 4)) =
      Some (map (\<lambda>i. \<lparr>RecType = ToSensorType (ucast (elems s ! (k + 4 + 4 * i))),
     Value = int24_of_bytes (elems s ! (k + 4 + 4 * i + 1)) (elems s ! (k + 4 + 4 * i + 2))
       (elems s ! (k + 4 + 4 * i + 3))\<rparr>) [0..<n])"
    by (intro Suc.IH) simp
  have reads: "ReadUint8 (cursor s k) = Some (elems s ! k, cursor s (k + 1))"
    "ReadInt24 (cursor s (k + 1)) = Some (int24_of_bytes (elems s ! (k + 1)) (elems s ! (k + 2))
       (elems s ! (k + 3)), cursor s (k + 4))"
    using Suc.prems ReadUint8_within [of k s] ReadInt24_within [of "k + 1" s]
    by (simp_all add: numeral_eq_Suc)
  show ?case
    unfolding split using IH reads
    by (simp add: o_def algebra_simps)
qed

lemma DecodeMessage_eq:
  "DecodeMessage header payload = Some
     (let p = elems payload in
      if length p \<noteq> unat (PayloadLength header) then Inl ErrInvalidPayload
      else if MsgType header \<noteq> MessageTypeSensorData then Inl ErrUnsupportedType
      else if length p mod 4 \<noteq> 0 then Inl ErrInvalidPayload
      else if ChecksumIEEE p \<noteq> Checksum header then Inl ErrChecksumMismatch
      else Inr \<lparr>Header = header, Payload = p, Sensors = records_of p\<rparr>)"
proof -
  have "decodeSensors (length (elems payload) div 4) (cursor payload 0) = Some (records_of (elems payload))"
    using decodeSensors_eq [of 0 "length (elems payload) div 4" payload]
    by (simp add: records_of_def)
  then show ?thesis
    by (cases "length (elems payload) = unat (PayloadLength header)")
       (simp_all add: DecodeMessage_def SensorRecordSize_def cursor_fold Let_def)
qed

text \<open>The verdict on a datagram as a function of its bytes alone.\<close>

definition datagram_verdict :: "u8 list \<Rightarrow> go_error + Message" where
  "datagram_verdict bs =
     (if length bs < 16 then Inl ErrDatagramSize
      else let h = header_at (take 16 bs); p = drop 16 bs in
        if Magic h \<noteq> MessageMagic then Inl ErrInvalidMagic
        else if unat (PayloadLength h) > MaximumPayloadSize then Inl ErrPayloadTooLarge
        else if length p \<noteq> unat (PayloadLength h) then Inl ErrDatagramSize
        else if MsgType h \<noteq> MessageTypeSensorData then Inl ErrUnsupportedType
        else if length p mod 4 \<noteq> 0 then Inl ErrInvalidPayload
        else if ChecksumIEEE p \<noteq> Checksum h then Inl ErrChecksumMismatch
        else Inr \<lparr>Header = h, Payload = p, Sensors = records_of p\<rparr>)"

lemma DecodeDatagram_eq: "DecodeDatagram datagram = Some (datagram_verdict (elems datagram))"
proof (cases "length (elems datagram) < 16")
  case True
  then show ?thesis
    by (simp add: DecodeDatagram_def datagram_verdict_def MessageHeaderSize_def)
next
  case False
  define hb p where "hb = take 16 (elems datagram)" and "p = drop 16 (elems datagram)"
  then have e: "elems datagram = hb @ p" and hb: "length hb = 16"
    using False by simp_all
  obtain sp where w1: "go_slice datagram 0 16 = Some \<lparr>elems = hb, spare = sp\<rparr>"
    using go_slice_prefix [of 16 datagram] e hb by simp
  obtain sp' where w2: "go_slice datagram 16 (16 + int (length p)) = Some \<lparr>elems = p, spare = sp'\<rparr>"
    using go_slice_within [of 16 "length p" datagram] e hb by simp
  show ?thesis
    by (cases "unat (PayloadLength (header_at hb)) = length p")
       (simp_all add: DecodeDatagram_def datagram_verdict_def MessageHeaderSize_def e hb w1 w2
         DecodeHeader_eq DecodeMessage_eq Let_def)
qed

section \<open>Encoding and decoding\<close>

text \<open>The message that a sensor-data payload from a device stands for.\<close>

definition canonical_message :: "MACAddress \<Rightarrow> u8 list \<Rightarrow> Message" where
  "canonical_message mac payload =
     \<lparr>Header = \<lparr>Magic = MessageMagic, MsgType = MessageTypeSensorData,
        PayloadLength = word_of_nat (length payload), MAC = mac, Checksum = ChecksumIEEE payload\<rparr>,
      Payload = payload, Sensors = records_of payload\<rparr>"

lemma canonical_message_simps [simp]:
  "Payload (canonical_message mac p) = p"
  "Sensors (canonical_message mac p) = records_of p"
  "MAC (Header (canonical_message mac p)) = mac"
  "MsgType (Header (canonical_message mac p)) = MessageTypeSensorData"
  "PayloadLength (Header (canonical_message mac p)) = word_of_nat (length p)"
  by (simp_all add: canonical_message_def)

lemma length_headerBytesOf [simp]: "length (headerBytesOf t mac p) = 16"
  by (simp add: headerBytesOf_def)

lemma header_at_fields:
  fixes mg t n :: u16 and c :: u32
  shows "header_at (le_bytes 2 mg @ le_bytes 2 t @ le_bytes 2 n @ mac_bytes mac @ le_bytes 4 c) =
    \<lparr>Magic = mg, MsgType = t, PayloadLength = n, MAC = mac, Checksum = c\<rparr>"
  by (simp add: header_at_def)

lemma fields_header_at:
  assumes "length hb = 16"
  shows "le_bytes 2 (Magic (header_at hb)) @ le_bytes 2 (MsgType (header_at hb)) @
    le_bytes 2 (PayloadLength (header_at hb)) @ mac_bytes (MAC (header_at hb)) @
    le_bytes 4 (Checksum (header_at hb)) = hb"
proof -
  have field: "le_bytes n (le_word (take n xs) :: 'a::len word) = take n xs"
    if "n \<le> length xs" "8 * n \<le> LENGTH('a)" for n and xs :: "u8 list"
    using le_bytes_le_word [of "take n xs", where 'a = 'a] that by simp
  have cut: "take 2 hb @ take 2 (drop 2 hb) @ take 2 (drop 4 hb) @ take 6 (drop 6 hb) @ take 4 (drop 12 hb) = hb"
  proof -
    have "hb = take (2 + 2 + 2 + 6 + 4) hb" using assms by simp
    also have "\<dots> = take 2 hb @ take 2 (drop 2 hb) @ take 2 (drop 4 hb) @ take 6 (drop 6 hb) @ take 4 (drop 12 hb)"
      by (simp only: take_add append_assoc) simp
    finally show ?thesis by simp
  qed
  show ?thesis
    unfolding header_at_def MessageHeader.select_convs
    by (subst field, use assms in simp, simp)+
       (subst mac_bytes_copyMAC, use assms in simp, rule cut)
qed

lemma unat_length16: "length p \<le> MaximumPayloadSize \<Longrightarrow> unat (word_of_nat (length p) :: u16) = length p"
  by (simp add: unat_of_nat MaximumPayloadSize_def)

lemma EncodeMessage_eq:
  "EncodeMessage t mac p = Some
     (if length p > MaximumPayloadSize then Inl ErrPayloadTooLarge
      else if t \<noteq> MessageTypeSensorData then Inl ErrUnsupportedType
      else if length p mod 4 \<noteq> 0 then Inl ErrInvalidPayload
      else Inr (headerBytesOf t mac p @ p))"
  using unat_length16 [of p]
  by (simp add: EncodeMessage_def DecodeHeader_eq SensorRecordSize_def headerBytesOf_def header_at_fields)

lemma datagram_verdict_encoded:
  assumes "length p \<le> MaximumPayloadSize" "length p mod 4 = 0"
  shows "datagram_verdict (headerBytesOf MessageTypeSensorData mac p @ p) = Inr (canonical_message mac p)"
  using assms unat_length16 [of p]
  by (simp add: datagram_verdict_def Let_def canonical_message_def)
     (simp add: headerBytesOf_def header_at_fields)

lemma datagram_verdict_accepts:
  assumes "datagram_verdict bs = Inr m"
  shows "bs = headerBytesOf MessageTypeSensorData (MAC (Header m)) (Payload m) @ Payload m"
    and "length (Payload m) \<le> MaximumPayloadSize" and "length (Payload m) mod 4 = 0"
    and "m = canonical_message (MAC (Header m)) (Payload m)"
proof -
  define hb p where "hb = take 16 bs" and "p = drop 16 bs"
  from assms have len: "length hb = 16" and m: "m = \<lparr>Header = header_at hb, Payload = p, Sensors = records_of p\<rparr>"
    and h: "Magic (header_at hb) = MessageMagic" "unat (PayloadLength (header_at hb)) \<le> MaximumPayloadSize"
      "length p = unat (PayloadLength (header_at hb))" "MsgType (header_at hb) = MessageTypeSensorData"
      "length p mod 4 = 0" "Checksum (header_at hb) = ChecksumIEEE p"
    by (auto simp: datagram_verdict_def Let_def hb_def p_def split: if_splits)
  have pl: "PayloadLength (header_at hb) = word_of_nat (length p)"
    by (simp only: h(3) of_nat_unat ucast_id)
  have hd: "header_at hb = \<lparr>Magic = MessageMagic, MsgType = MessageTypeSensorData,
      PayloadLength = word_of_nat (length p), MAC = MAC (header_at hb), Checksum = ChecksumIEEE p\<rparr>"
    by (rule MessageHeader.equality) (use h(1,4,6) pl in simp_all)
  show "m = canonical_message (MAC (Header m)) (Payload m)"
    by (simp only: m canonical_message_def Message.select_convs hd [symmetric])
  show "length (Payload m) \<le> MaximumPayloadSize" "length (Payload m) mod 4 = 0"
    using m h by simp_all
  have "hb = headerBytesOf MessageTypeSensorData (MAC (header_at hb)) p"
    using fields_header_at [OF len] h(1,4,6) pl by (simp add: headerBytesOf_def)
  then show "bs = headerBytesOf MessageTypeSensorData (MAC (Header m)) (Payload m) @ Payload m"
    using m by (simp add: hb_def p_def)
qed

text \<open>The golden message the server's tests share with the firmware.\<close>

lemma EncodeMessage_golden:
  "EncodeMessage MessageTypeSensorData (MACAddress 0x02 0 0 0xAB 0xCD 0xEF)
     [0x01, 0xD7, 0x00, 0x00, 0x02, 0xD3, 0xFF, 0xFF] =
   Some (Inr [0x0D, 0xF0, 0x01, 0x00, 0x08, 0x00, 0x02, 0x00, 0x00, 0xAB, 0xCD, 0xEF,
     0x21, 0xB3, 0x0C, 0x5C, 0x01, 0xD7, 0x00, 0x00, 0x02, 0xD3, 0xFF, 0xFF])"
proof -
  have "ChecksumIEEE [0x01, 0xD7, 0x00, 0x00, 0x02, 0xD3, 0xFF, 0xFF] = 0x5C0CB321"
    by (simp add: crc_eval)
  then show ?thesis
    by (simp add: EncodeMessage_eq headerBytesOf_def protocol_consts le_bytes_eval)
qed

section \<open>Sensor records\<close>

text \<open>The four bytes a device sends for a reading.\<close>

definition record_bytes :: "SensorRecord \<Rightarrow> u8 list" where
  "record_bytes r = RecType r # le_bytes 3 (Value r)"

definition sendable :: "SensorRecord \<Rightarrow> bool" where
  "sendable r \<longleftrightarrow> RecType r \<le> SENSOR_ID_kWAh \<and> - (2 ^ 23) \<le> sint (Value r) \<and> sint (Value r) < 2 ^ 23"

lemma length_record_bytes [simp]: "length (record_bytes r) = 4"
  by (simp add: record_bytes_def)

lemma ToSensorType_known: "t \<le> SENSOR_ID_kWAh \<Longrightarrow> ToSensorType (ucast t) = t"
proof -
  assume "t \<le> SENSOR_ID_kWAh"
  then have "\<not> (ucast t :: u16) > ucast (SENSOR_ID_kWAh)"
    by (simp add: word_less_nat_alt word_le_nat_alt unsigned_ucast_eq take_bit_nat_eq_self)
  moreover have "ucast (ucast t :: u16) = t"
    by (rule bit_word_eqI) (auto simp: bit_ucast_iff)
  ultimately show ?thesis
    by (simp add: ToSensorType_def)
qed

lemma ToSensorType_bound: "ToSensorType t \<le> SENSOR_ID_kWAh"
  by (auto simp: ToSensorType_def word_le_nat_alt word_less_nat_alt unsigned_ucast_eq take_bit_nat_eq_self)

lemma records_of_Cons:
  assumes "length b = 4"
  shows "records_of (b @ p) = \<lparr>RecType = ToSensorType (ucast (b ! 0)),
     Value = int24_of_bytes (b ! 1) (b ! 2) (b ! 3)\<rparr> # records_of p"
proof -
  have split: "[0..<Suc n] = 0 # map Suc [0..<n]" for n
    by (simp add: map_Suc_upt upt_conv_Cons del: upt_Suc)
  have "length (b @ p) div 4 = Suc (length p div 4)"
    using assms by simp
  then show ?thesis
    using assms unfolding records_of_def
    by (simp add: split nth_append add.commute del: upt_Suc add_2_eq_Suc add_2_eq_Suc')
qed

lemma records_of_Nil [simp]: "records_of [] = []"
  by (simp add: records_of_def)

lemma record_bytes_decode:
  assumes "sendable r"
  shows "\<lparr>RecType = ToSensorType (ucast (record_bytes r ! 0)),
     Value = int24_of_bytes (record_bytes r ! 1) (record_bytes r ! 2) (record_bytes r ! 3)\<rparr> = r"
proof -
  have "int24_of_bytes (le_bytes 3 (Value r) ! 0) (le_bytes 3 (Value r) ! 1) (le_bytes 3 (Value r) ! 2) = Value r"
    using assms by (intro int24_roundtrip) (simp_all add: sendable_def)
  then show ?thesis
    using assms by (simp add: record_bytes_def sendable_def ToSensorType_known numeral_2_eq_2 numeral_3_eq_3)
qed

lemma records_of_record_bytes:
  "(\<And>r. r \<in> set rs \<Longrightarrow> sendable r) \<Longrightarrow> records_of (concat (map record_bytes rs)) = rs"
  by (induction rs) (simp_all add: records_of_Cons record_bytes_decode del: One_nat_def)

lemma length_concat_record_bytes [simp]: "length (concat (map record_bytes rs)) = 4 * length rs"
  by (induction rs) simp_all

section \<open>Streams\<close>

lemma ReadMessage_encoded:
  assumes "length p \<le> MaximumPayloadSize" "length p mod 4 = 0"
    and "stream r = headerBytesOf MessageTypeSensorData mac p @ p @ rest"
  shows "\<exists>r'. ReadMessage r = Some (Inr (canonical_message mac p), r') \<and> stream r' = rest \<and> failure r' = failure r"
proof -
  let ?hb = "headerBytesOf MessageTypeSensorData mac p"
  obtain r1 where r1: "io_ReadFull 16 r = (Inr ?hb, r1)" "stream r1 = p @ rest" "failure r1 = failure r"
    using io_ReadFull_eq [of 16 r] io_ReadFull_rest [of 16 r] assms(3)
    by (cases "io_ReadFull 16 r") simp
  obtain r2 where r2: "io_ReadFull (length p) r1 = (Inr p, r2)" "stream r2 = rest" "failure r2 = failure r"
    using io_ReadFull_eq [of "length p" r1] io_ReadFull_rest [of "length p" r1] r1(2,3)
    by (cases "io_ReadFull (length p) r1") simp
  have hd: "header_at ?hb = Header (canonical_message mac p)"
    by (simp add: headerBytesOf_def header_at_fields canonical_message_def)
  have msg: "DecodeMessage (header_at ?hb) (slice_of p) = Some (Inr (canonical_message mac p))"
    using assms(1,2) unat_length16 [of p]
    by (simp add: hd DecodeMessage_eq) (simp add: canonical_message_def)
  have "DecodeHeader (slice_of ?hb) = Some (Inr (header_at ?hb))"
    using assms(1) unat_length16 [of p]
    by (simp add: DecodeHeader_eq hd) (simp add: canonical_message_def)
  then show ?thesis
    using r1(1) r2 msg unat_length16 [OF assms(1)]
    by (simp add: ReadMessage_def MessageHeaderSize_def hd)
qed

section \<open>Properties\<close>

text \<open>
  C1. The datagram decoder accepts exactly the canonical encodings: it returns the message
  \<open>m\<close> if and only if the datagram's bytes are what \<open>EncodeMessage\<close> produces for the MAC and
  the payload of \<open>m\<close>, and \<open>m\<close> is the message those stand for.
\<close>

theorem DecodeDatagram_exact:
  "DecodeDatagram s = Some (Inr m) \<longleftrightarrow>
     EncodeMessage MessageTypeSensorData (MAC (Header m)) (Payload m) = Some (Inr (elems s)) \<and>
     m = canonical_message (MAC (Header m)) (Payload m)"
proof
  assume "DecodeDatagram s = Some (Inr m)"
  then have v: "datagram_verdict (elems s) = Inr m" by (simp add: DecodeDatagram_eq)
  show "EncodeMessage MessageTypeSensorData (MAC (Header m)) (Payload m) = Some (Inr (elems s)) \<and>
     m = canonical_message (MAC (Header m)) (Payload m)"
    using datagram_verdict_accepts [OF v] by (simp add: EncodeMessage_eq)
next
  assume enc: "EncodeMessage MessageTypeSensorData (MAC (Header m)) (Payload m) = Some (Inr (elems s)) \<and>
     m = canonical_message (MAC (Header m)) (Payload m)"
  then have "length (Payload m) \<le> MaximumPayloadSize" "length (Payload m) mod 4 = 0"
    "elems s = headerBytesOf MessageTypeSensorData (MAC (Header m)) (Payload m) @ Payload m"
    by (auto simp: EncodeMessage_eq split: if_splits)
  then show "DecodeDatagram s = Some (Inr m)"
    using enc by (simp add: DecodeDatagram_eq datagram_verdict_encoded)
qed

text \<open>
  The datagram decoder never panics and looks only at the bytes of the datagram: whatever
  stale bytes a pooled receive buffer holds beyond the datagram's length, the result is the
  same verdict on the datagram's own bytes.
\<close>

theorem DecodeDatagram_total:
  "DecodeDatagram \<lparr>elems = bs, spare = stale\<rparr> = Some (datagram_verdict bs)"
  by (simp add: DecodeDatagram_eq)

text \<open>
  C2. A burst of corruption in the payload is detected: change up to four consecutive payload
  bytes of an accepted datagram and the decoder rejects it with a checksum mismatch.
\<close>

theorem DecodeDatagram_burst:
  assumes "DecodeDatagram s = Some (Inr m)" and "elems s = pre @ old @ post"
    and "16 \<le> length pre" and "length new = length old" and "length old \<le> 4" and "new \<noteq> old"
  shows "DecodeDatagram \<lparr>elems = pre @ new @ post, spare = stale\<rparr> = Some (Inl ErrChecksumMismatch)"
proof -
  define p0 where "p0 = drop 16 pre"
  have parts: "take 16 (elems s) = take 16 pre" "drop 16 (elems s) = p0 @ old @ post"
    "take 16 (pre @ new @ post) = take 16 pre" "drop 16 (pre @ new @ post) = p0 @ new @ post"
    using assms(2,3) by (simp_all add: p0_def)
  have v: "datagram_verdict (elems s) = Inr m"
    using assms(1) by (simp add: DecodeDatagram_eq)
  have crc: "ChecksumIEEE (p0 @ old @ post) \<noteq> ChecksumIEEE (p0 @ new @ post)"
    using ChecksumIEEE_burst [of old new p0 post] assms(4-6) by auto
  have "length (elems s) = length (pre @ new @ post)"
    using assms(2,4) by simp
  then have "datagram_verdict (pre @ new @ post) = Inl ErrChecksumMismatch"
    using v crc assms(4) unfolding datagram_verdict_def Let_def parts
    by (auto split: if_splits)
  then show ?thesis
    by (simp add: DecodeDatagram_eq)
qed

theorem DecodeDatagram_burst_witness:
  "DecodeDatagram \<lparr>elems = headerBytesOf MessageTypeSensorData (MACAddress 2 0 0 0xAB 0xCD 0xEF) [1, 10, 0, 0]
     @ [1, 11, 0, 1], spare = [7]\<rparr> = Some (Inl ErrChecksumMismatch)"
proof -
  let ?mac = "MACAddress 2 0 0 0xAB 0xCD 0xEF" and ?p = "[1, 10, 0, 0] :: u8 list"
  let ?s = "slice_of (headerBytesOf MessageTypeSensorData ?mac ?p @ ?p)"
  have "DecodeDatagram ?s = Some (Inr (canonical_message ?mac ?p))"
    by (simp add: DecodeDatagram_eq datagram_verdict_encoded MaximumPayloadSize_def)
  then show ?thesis
    using DecodeDatagram_burst [of ?s _ "headerBytesOf MessageTypeSensorData ?mac ?p" ?p "[]" "[1, 11, 0, 1]" "[7]"]
    by simp
qed

text \<open>
  Framing of a TCP stream does not depend on how the bytes arrive: whenever the bytes
  still to come start with the encoding of a message, however they are cut into chunks,
  \<open>ReadMessage\<close> returns that message and leaves exactly the bytes after it.
\<close>

theorem ReadMessage_framing:
  assumes "EncodeMessage t mac payload = Some (Inr bytes)" and "concat (chunks r) = bytes @ rest"
  shows "\<exists>r'. ReadMessage r = Some (Inr (canonical_message mac payload), r') \<and>
    concat (chunks r') = rest \<and> failure r' = failure r"
proof -
  have "length payload \<le> MaximumPayloadSize" "length payload mod 4 = 0"
    "stream r = headerBytesOf MessageTypeSensorData mac payload @ payload @ rest"
    using assms by (auto simp: EncodeMessage_eq split: if_splits)
  then show ?thesis by (rule ReadMessage_encoded)
qed

theorem ReadMessage_framing_witness:
  "\<exists>r'. ReadMessage \<lparr>chunks = [take 3 (headerBytesOf MessageTypeSensorData zeroMAC [1, 10, 0, 0]), [],
      drop 3 (headerBytesOf MessageTypeSensorData zeroMAC [1, 10, 0, 0]) @ [1], [10, 0, 0, 13]], failure = EOF\<rparr> =
    Some (Inr (canonical_message zeroMAC [1, 10, 0, 0]), r') \<and> concat (chunks r') = [13] \<and> failure r' = EOF"
proof -
  let ?hb = "headerBytesOf MessageTypeSensorData zeroMAC [1, 10, 0, 0]"
  let ?r = "\<lparr>chunks = [take 3 ?hb, [], drop 3 ?hb @ [1], [10, 0, 0, 13]], failure = EOF\<rparr>"
  have "EncodeMessage MessageTypeSensorData zeroMAC [1, 10, 0, 0] = Some (Inr (?hb @ [1, 10, 0, 0]))"
    by (simp add: EncodeMessage_eq MaximumPayloadSize_def)
  moreover have "concat (chunks ?r) = (?hb @ [1, 10, 0, 0]) @ [13]"
    by (simp flip: append_assoc)
  ultimately show ?thesis
    using ReadMessage_framing [of MessageTypeSensorData zeroMAC "[1, 10, 0, 0]" "?hb @ [1, 10, 0, 0]" ?r "[13]"]
    by simp
qed

text \<open>
  C3. Sensor readings survive the wire: the records decoded from a payload that a device
  built from readings with known sensor types and 24-bit values are those readings.
\<close>

theorem DecodeMessage_readings:
  assumes "\<And>r. r \<in> set rs \<Longrightarrow> sendable r" and "4 * length rs \<le> MaximumPayloadSize"
  shows "\<exists>bytes m. EncodeMessage MessageTypeSensorData mac (concat (map record_bytes rs)) = Some (Inr bytes) \<and>
    DecodeDatagram \<lparr>elems = bytes, spare = stale\<rparr> = Some (Inr m) \<and> Sensors m = rs"
proof -
  let ?p = "concat (map record_bytes rs)"
  have "datagram_verdict (headerBytesOf MessageTypeSensorData mac ?p @ ?p) = Inr (canonical_message mac ?p)"
    using assms(2) by (intro datagram_verdict_encoded) simp_all
  then show ?thesis
    using assms(2) by (simp add: EncodeMessage_eq DecodeDatagram_eq records_of_record_bytes [OF assms(1)])
qed

theorem DecodeMessage_readings_witness:
  "\<exists>bytes m. EncodeMessage MessageTypeSensorData zeroMAC
      (concat (map record_bytes [\<lparr>RecType = 1, Value = - 5\<rparr>, \<lparr>RecType = 7, Value = 800\<rparr>])) = Some (Inr bytes) \<and>
    DecodeDatagram \<lparr>elems = bytes, spare = [1, 2]\<rparr> = Some (Inr m) \<and>
    Sensors m = [\<lparr>RecType = 1, Value = - 5\<rparr>, \<lparr>RecType = 7, Value = 800\<rparr>]"
  by (rule DecodeMessage_readings) (auto simp: sendable_def MaximumPayloadSize_def)

text \<open>
  C4. Every record the decoder hands on is in range: its sensor type is one of the house's
  sensors (or the unknown one) and its value fits a signed 24-bit integer, for any payload.
\<close>

theorem DecodeMessage_range:
  assumes "DecodeMessage header payload = Some (Inr m)" and "r \<in> set (Sensors m)"
  shows "RecType r \<le> SENSOR_ID_kWAh \<and> - (2 ^ 23) \<le> sint (Value r) \<and> sint (Value r) < 2 ^ 23"
proof -
  from assms(1) have "Sensors m = records_of (elems payload)"
    by (auto simp: DecodeMessage_eq Let_def split: if_splits)
  with assms(2) show ?thesis
    by (auto simp: records_of_def ToSensorType_bound int24_range [simplified])
qed

theorem DecodeMessage_range_witness:
  "RecType (records_of [1, 10, 0, 0x80] ! 0) \<le> SENSOR_ID_kWAh \<and>
   - (2 ^ 23) \<le> sint (Value (records_of [1, 10, 0, 0x80] ! 0)) \<and>
   sint (Value (records_of [1, 10, 0, 0x80] ! 0)) < 2 ^ 23"
proof -
  let ?p = "[1, 10, 0, 0x80] :: u8 list"
  let ?m = "canonical_message zeroMAC ?p"
  have "DecodeMessage (Header ?m) (slice_of ?p) = Some (Inr ?m)"
    by (simp add: DecodeMessage_eq Let_def) (simp add: canonical_message_def)
  moreover have "records_of ?p ! 0 \<in> set (Sensors ?m)"
    by (simp add: records_of_def)
  ultimately show ?thesis by (rule DecodeMessage_range)
qed

end
