(* ===== verification/FileSystem.thy ===== *)
theory FileSystem
  imports GoStrings "HOL-Library.AList" "HOL-Library.Char_ord" "HOL-Library.List_Lexorder"
begin

text \<open>
  \<open>sensor-server/platform.go\<close>: the interface \<open>FileSystem\<close> with its implementation
  \<open>OSFileSystem\<close>, which hands every call to package \<open>os\<close>. The model is the tree of files
  and directories those calls act on, together with a script of faults: the \<open>n\<close>-th call fails
  when \<open>faults n\<close> says so, and a failing \<open>Write\<close> or \<open>ReadAll\<close> may have moved some bytes
  first. Theorems that quantify over the script cover every way the disk can fail.

  A path is its list of components, so \<open>filepath.Join(dir, name)\<close> is \<open>dir @ [name]\<close>. A file
  handle is the path it was opened on: no component renames or removes a file it has open. Permission
  bits, and what survives a crash of the machine without \<open>Sync\<close>, are outside the model.
\<close>

section \<open>State\<close>

type_synonym path = "string list"

datatype node = RegFile "u8 list" | DirNode

text \<open>A fault: the error number and how many bytes a transfer moves before it fails.\<close>

record fault =
  errno :: nat
  moved :: nat

record FS =
  nodes :: "(path \<times> node) list"
  ops :: nat
  faults :: "nat \<Rightarrow> fault option"

datatype open_flags = readWriteFlags | createAppendReadWriteFlags | createTruncateReadWriteFlags

abbreviation ENOENT :: go_error where "ENOENT \<equiv> ErrOS 2"
abbreviation EEXIST :: go_error where "EEXIST \<equiv> ErrOS 17"
abbreviation ENOTDIR :: go_error where "ENOTDIR \<equiv> ErrOS 20"
abbreviation EISDIR :: go_error where "EISDIR \<equiv> ErrOS 21"

definition lookup :: "FS \<Rightarrow> path \<Rightarrow> node option" where
  "lookup fs p = map_of (nodes fs) p"

definition set_node :: "path \<Rightarrow> node \<Rightarrow> FS \<Rightarrow> FS" where
  "set_node p v fs = fs\<lparr>nodes := AList.update p v (nodes fs)\<rparr>"

text \<open>The empty path is the directory the server runs in.\<close>

definition is_dir :: "FS \<Rightarrow> path \<Rightarrow> bool" where
  "is_dir fs p \<longleftrightarrow> p = [] \<or> lookup fs p = Some DirNode"

definition path_string :: "path \<Rightarrow> string" where
  "path_string p = (case p of [] \<Rightarrow> [] | c # cs \<Rightarrow> c @ concat (map (\<lambda>d. CHR ''/'' # d) cs))"

text \<open>Every call consults the fault script once.\<close>

definition fault_now :: "FS \<Rightarrow> fault option" where
  "fault_now fs = faults fs (ops fs)"

definition tick :: "FS \<Rightarrow> FS" where
  "tick fs = fs\<lparr>ops := Suc (ops fs)\<rparr>"

section \<open>Calls\<close>

definition fs_OpenFile :: "path \<Rightarrow> open_flags \<Rightarrow> FS \<Rightarrow> (go_error list + path) \<times> FS" where
  "fs_OpenFile p flags fs =
     (case fault_now fs of
        Some f \<Rightarrow> (Inl [ErrOS (errno f)], tick fs)
      | None \<Rightarrow>
          (case lookup fs p of
             Some DirNode \<Rightarrow> (Inl [EISDIR], tick fs)
           | Some (RegFile bs) \<Rightarrow>
               (Inr p, if flags = createTruncateReadWriteFlags then set_node p (RegFile []) (tick fs)
                       else tick fs)
           | None \<Rightarrow>
               if flags = readWriteFlags then (Inl [ENOENT], tick fs)
               else if p = [] then (Inl [EISDIR], tick fs)
               else if is_dir fs (butlast p) then (Inr p, set_node p (RegFile []) (tick fs))
               else (Inl [ENOENT], tick fs)))"

text \<open>\<open>os.MkdirAll\<close> creates the ancestors first and accepts directories that exist.\<close>

fun mkdirs :: "path \<Rightarrow> path \<Rightarrow> FS \<Rightarrow> go_error list \<times> FS" where
  "mkdirs parent [] fs = ([], fs)"
| "mkdirs parent (c # cs) fs =
     (case lookup fs (parent @ [c]) of
        Some DirNode \<Rightarrow> mkdirs (parent @ [c]) cs fs
      | Some (RegFile _) \<Rightarrow> ([ENOTDIR], fs)
      | None \<Rightarrow> mkdirs (parent @ [c]) cs (set_node (parent @ [c]) DirNode fs))"

definition fs_MkdirAll :: "path \<Rightarrow> FS \<Rightarrow> go_error list \<times> FS" where
  "fs_MkdirAll p fs =
     (case fault_now fs of
        Some f \<Rightarrow> ([ErrOS (errno f)], tick fs)
      | None \<Rightarrow> mkdirs [] p (tick fs))"

text \<open>\<open>os.ReadDir\<close> returns the entries in the order of their names, each with its \<open>IsDir\<close>.\<close>

definition entries_of :: "FS \<Rightarrow> path \<Rightarrow> string list" where
  "entries_of fs p =
     sort (remdups (map last (filter (\<lambda>q. q \<noteq> [] \<and> butlast q = p) (map fst (nodes fs)))))"

definition fs_ReadDir :: "path \<Rightarrow> FS \<Rightarrow> (go_error list + (string \<times> bool) list) \<times> FS" where
  "fs_ReadDir p fs =
     (case fault_now fs of
        Some f \<Rightarrow> (Inl [ErrOS (errno f)], tick fs)
      | None \<Rightarrow>
          (if is_dir fs p
           then (Inr (map (\<lambda>n. (n, is_dir fs (p @ [n]))) (entries_of fs p)), tick fs)
           else (Inl [ENOENT], tick fs)))"

text \<open>\<open>os.Stat\<close>: the size of a regular file (a directory's size is system dependent, and never
  used).\<close>

definition fs_Stat :: "path \<Rightarrow> FS \<Rightarrow> (go_error list + int) \<times> FS" where
  "fs_Stat p fs =
     (case fault_now fs of
        Some f \<Rightarrow> (Inl [ErrOS (errno f)], tick fs)
      | None \<Rightarrow>
          (case lookup fs p of
             None \<Rightarrow> (Inl [ENOENT], tick fs)
           | Some DirNode \<Rightarrow> (Inr 0, tick fs)
           | Some (RegFile bs) \<Rightarrow> (Inr (int (length bs)), tick fs)))"

definition fs_Rename :: "path \<Rightarrow> path \<Rightarrow> FS \<Rightarrow> go_error list \<times> FS" where
  "fs_Rename old new fs =
     (case fault_now fs of
        Some f \<Rightarrow> ([ErrOS (errno f)], tick fs)
      | None \<Rightarrow>
          (case (lookup fs old, lookup fs new) of
             (None, _) \<Rightarrow> ([ENOENT], tick fs)
           | (_, Some DirNode) \<Rightarrow> ([EEXIST], tick fs)
           | (Some v, _) \<Rightarrow>
               ([], (set_node new v (tick fs))\<lparr>nodes := AList.delete old (AList.update new v (nodes fs))\<rparr>)))"

definition fs_Remove :: "path \<Rightarrow> FS \<Rightarrow> go_error list \<times> FS" where
  "fs_Remove p fs =
     (case fault_now fs of
        Some f \<Rightarrow> ([ErrOS (errno f)], tick fs)
      | None \<Rightarrow>
          (case lookup fs p of
             None \<Rightarrow> ([ENOENT], tick fs)
           | Some v \<Rightarrow> ([], (tick fs)\<lparr>nodes := AList.delete p (nodes fs)\<rparr>)))"

text \<open>The methods of an open file. \<open>Write\<close> on an append handle adds at the end and returns how
  many bytes it took.\<close>

definition file_Write :: "path \<Rightarrow> u8 list \<Rightarrow> FS \<Rightarrow> nat \<times> go_error list \<times> FS" where
  "file_Write h bs fs =
     (case fault_now fs of
        Some f \<Rightarrow>
          (let part = take (moved f) bs in
           (length part, [ErrOS (errno f)],
            case lookup fs h of
              Some (RegFile old) \<Rightarrow> set_node h (RegFile (old @ part)) (tick fs)
            | _ \<Rightarrow> tick fs))
      | None \<Rightarrow>
          (length bs, [],
           case lookup fs h of
             Some (RegFile old) \<Rightarrow> set_node h (RegFile (old @ bs)) (tick fs)
           | _ \<Rightarrow> tick fs))"

definition file_Sync :: "path \<Rightarrow> FS \<Rightarrow> go_error list \<times> FS" where
  "file_Sync h fs = (case fault_now fs of Some f \<Rightarrow> [ErrOS (errno f)] | None \<Rightarrow> [], tick fs)"

definition file_Close :: "path \<Rightarrow> FS \<Rightarrow> go_error list \<times> FS" where
  "file_Close h fs = (case fault_now fs of Some f \<Rightarrow> [ErrOS (errno f)] | None \<Rightarrow> [], tick fs)"

definition file_Truncate :: "path \<Rightarrow> nat \<Rightarrow> FS \<Rightarrow> go_error list \<times> FS" where
  "file_Truncate h n fs =
     (case fault_now fs of
        Some f \<Rightarrow> ([ErrOS (errno f)], tick fs)
      | None \<Rightarrow>
          ([], case lookup fs h of
             Some (RegFile old) \<Rightarrow>
               set_node h (RegFile (take n old @ replicate (n - length old) 0)) (tick fs)
           | _ \<Rightarrow> tick fs))"

text \<open>\<open>io.ReadAll\<close> on a file just opened for reading: the bytes read and the error.\<close>

definition file_ReadAll :: "path \<Rightarrow> FS \<Rightarrow> u8 list \<times> go_error list \<times> FS" where
  "file_ReadAll h fs =
     (let data = (case lookup fs h of Some (RegFile bs) \<Rightarrow> bs | _ \<Rightarrow> []) in
      case fault_now fs of
        Some f \<Rightarrow> (take (moved f) data, [ErrOS (errno f)], tick fs)
      | None \<Rightarrow> (data, [], tick fs))"

section \<open>What is stored\<close>

text \<open>The bytes of a file; a file that does not exist has none.\<close>

definition stored :: "FS \<Rightarrow> path \<Rightarrow> u8 list" where
  "stored fs p = (case lookup fs p of Some (RegFile bs) \<Rightarrow> bs | _ \<Rightarrow> [])"

definition is_file :: "FS \<Rightarrow> path \<Rightarrow> bool" where
  "is_file fs p \<longleftrightarrow> (case lookup fs p of Some (RegFile bs) \<Rightarrow> True | _ \<Rightarrow> False)"

definition no_faults :: "FS \<Rightarrow> bool" where
  "no_faults fs \<longleftrightarrow> (\<forall>n. faults fs n = None)"

named_theorems fs_simps \<open>effect of the file system calls on lookups\<close>

lemma lookup_set_node [fs_simps]: "lookup (set_node p v fs) q = (if q = p then Some v else lookup fs q)"
  by (simp add: lookup_def set_node_def update_conv')

lemma lookup_tick [fs_simps]: "lookup (tick fs) q = lookup fs q"
  by (simp add: lookup_def tick_def)

lemma faults_set_node [fs_simps]: "faults (set_node p v fs) = faults fs" "ops (set_node p v fs) = ops fs"
  by (simp_all add: set_node_def)

lemma faults_tick [fs_simps]: "faults (tick fs) = faults fs"
  by (simp add: tick_def)

lemma stored_set_node [fs_simps]:
  "stored (set_node p v fs) q = (if q = p then (case v of RegFile bs \<Rightarrow> bs | DirNode \<Rightarrow> []) else stored fs q)"
  by (simp add: stored_def fs_simps split: node.splits)

lemma stored_tick [fs_simps]: "stored (tick fs) = stored fs" "is_file (tick fs) = is_file fs"
  by (simp_all add: stored_def is_file_def fun_eq_iff fs_simps)

lemma is_file_set_node [fs_simps]:
  "is_file (set_node p v fs) q = (if q = p then v \<noteq> DirNode else is_file fs q)"
  by (simp add: is_file_def fs_simps split: node.splits)

lemma is_file_lookup: "is_file fs p \<longleftrightarrow> lookup fs p = Some (RegFile (stored fs p))"
  by (auto simp: is_file_def stored_def split: option.splits node.splits)

lemma no_faults_now [simp]: "no_faults fs \<Longrightarrow> fault_now fs = None"
  by (simp add: no_faults_def fault_now_def)

lemma no_faults_ops [fs_simps]:
  "no_faults (set_node p v fs) = no_faults fs" "no_faults (tick fs) = no_faults fs"
  by (simp_all add: no_faults_def fs_simps)

lemma is_dir_set_RegFile: "lookup fs p \<noteq> Some DirNode \<Longrightarrow> is_dir (set_node p (RegFile bs) fs) q \<longleftrightarrow> is_dir fs q \<and> (q = [] \<or> q \<noteq> p)"
  by (auto simp: is_dir_def fs_simps)

lemma is_dir_tick [fs_simps]: "is_dir (tick fs) = is_dir fs"
  by (simp add: is_dir_def fun_eq_iff fs_simps)

subsection \<open>Effect of the calls\<close>

text \<open>Opening for append never changes the bytes of any file, whether it succeeds or not.\<close>

lemma OpenFile_stored:
  assumes "flags \<noteq> createTruncateReadWriteFlags"
  shows "stored (snd (fs_OpenFile p flags fs)) = stored fs"
  using assms
  by (auto simp: fs_OpenFile_def fun_eq_iff fs_simps stored_def split: option.splits node.splits)

lemma OpenFile_faults [simp]: "faults (snd (fs_OpenFile p flags fs)) = faults fs"
  by (auto simp: fs_OpenFile_def fs_simps split: option.splits node.splits)

lemma OpenFile_ok:
  assumes "fs_OpenFile p flags fs = (Inr h, fs')"
  shows "h = p" "is_file fs' p" "\<And>q. q \<noteq> p \<Longrightarrow> lookup fs' q = lookup fs q"
  using assms
  by (auto simp: fs_OpenFile_def fs_simps is_file_def split: option.splits node.splits if_splits)

lemma OpenFile_err:
  assumes "fs_OpenFile p flags fs = (Inl e, fs')"
  shows "e \<noteq> []" "lookup fs' = lookup fs"
  using assms
  by (auto simp: fs_OpenFile_def fs_simps fun_eq_iff split: option.splits node.splits if_splits)

lemma Stat_err: "fs_Stat p fs = (Inl e, fs') \<Longrightarrow> e \<noteq> []"
  by (auto simp: fs_Stat_def split: option.splits node.splits)

lemma ReadDir_err: "fs_ReadDir p fs = (Inl e, fs') \<Longrightarrow> e \<noteq> []"
  by (auto simp: fs_ReadDir_def split: option.splits if_splits)

lemma OpenFile_no_faults:
  assumes "no_faults fs" "flags \<noteq> readWriteFlags" "p \<noteq> []" "is_dir fs (butlast p)"
    "lookup fs p \<noteq> Some DirNode"
  shows "fst (fs_OpenFile p flags fs) = Inr p"
  using assms by (auto simp: fs_OpenFile_def split: option.splits node.splits)

lemma file_Write_eq:
  assumes "file_Write h bs fs = (n, err, fs')" and "is_file fs h"
  shows "fs' = set_node h (RegFile (stored fs h @ take n bs)) (tick fs)"
    "n \<le> length bs" "err = [] \<Longrightarrow> n = length bs"
  using assms unfolding is_file_lookup
  by (auto simp: file_Write_def Let_def min_def split: option.splits)

lemma file_Write_stored:
  assumes "file_Write h bs fs = (n, err, fs')" and "is_file fs h"
  shows "stored fs' = (stored fs)(h := stored fs h @ take n bs)" "is_file fs' = is_file fs"
    "faults fs' = faults fs" "\<And>q. q \<noteq> h \<Longrightarrow> lookup fs' q = lookup fs q"
  using assms(2) unfolding file_Write_eq(1) [OF assms] by (auto simp: fun_eq_iff fs_simps)

lemma file_Sync_simps [simp]:
  "lookup (snd (file_Sync h fs)) = lookup fs" "faults (snd (file_Sync h fs)) = faults fs"
  "stored (snd (file_Sync h fs)) = stored fs" "is_file (snd (file_Sync h fs)) = is_file fs"
  by (simp_all add: file_Sync_def fun_eq_iff fs_simps)

lemma file_Close_simps [simp]:
  "lookup (snd (file_Close h fs)) = lookup fs" "faults (snd (file_Close h fs)) = faults fs"
  "stored (snd (file_Close h fs)) = stored fs" "is_file (snd (file_Close h fs)) = is_file fs"
  by (simp_all add: file_Close_def fun_eq_iff fs_simps)

lemma no_faults_results:
  assumes "no_faults fs"
  shows "fst (file_Sync h fs) = []" "fst (file_Close h fs) = []" "fst (snd (file_Write h bs fs)) = []"
    "fst (file_Truncate h n fs) = []" "fst (snd (file_ReadAll h fs)) = []"
  using assms
  by (simp_all add: file_Sync_def file_Close_def file_Write_def file_Truncate_def file_ReadAll_def)

lemma no_faults_sync_close [simp]:
  "no_faults (snd (file_Sync h fs)) = no_faults fs" "no_faults (snd (file_Close h fs)) = no_faults fs"
  by (simp_all add: no_faults_def)

lemma no_faults_eq: "faults fs' = faults fs \<Longrightarrow> no_faults fs' = no_faults fs"
  by (simp add: no_faults_def)

subsection \<open>Creating directories\<close>

lemma set_DirNode_new:
  assumes "lookup fs p = None"
  shows "stored (set_node p DirNode fs) = stored fs" "is_file (set_node p DirNode fs) = is_file fs"
  using assms by (auto simp: fun_eq_iff fs_simps stored_def is_file_def)

lemma is_dir_set_DirNode: "is_dir (set_node p DirNode fs) q \<longleftrightarrow> is_dir fs q \<or> q = p"
  by (auto simp: is_dir_def fs_simps)

lemma mkdirs_keeps:
  "mkdirs par cs fs = (e, fs') \<Longrightarrow>
     stored fs' = stored fs \<and> is_file fs' = is_file fs \<and> faults fs' = faults fs
     \<and> (\<forall>q. length q > length par + length cs \<longrightarrow> lookup fs' q = lookup fs q)
     \<and> (\<forall>q. is_dir fs q \<longrightarrow> is_dir fs' q)"
proof (induction par cs fs arbitrary: e fs' rule: mkdirs.induct)
  case (1 par fs)
  then show ?case by simp
next
  case (2 par c cs fs)
  show ?case
  proof (cases "lookup fs (par @ [c])")
    case None
    let ?fs = "set_node (par @ [c]) DirNode fs"
    have "mkdirs (par @ [c]) cs ?fs = (e, fs')" using 2(3) None by simp
    note IH = 2(1) [OF None this]
    have "length q > length par + length (c # cs) \<Longrightarrow> q \<noteq> par @ [c]" for q by auto
    with IH show ?thesis
      using set_DirNode_new [OF None] by (simp add: fs_simps is_dir_set_DirNode)
  next
    case (Some v)
    show ?thesis
    proof (cases v)
      case (RegFile bs)
      then show ?thesis using 2(3) Some by simp
    next
      case DirNode
      with Some 2(3) have "mkdirs (par @ [c]) cs fs = (e, fs')" by simp
      from 2(2) [OF Some DirNode this] show ?thesis by simp
    qed
  qed
qed

lemma mkdirs_ok:
  "mkdirs par cs fs = ([], fs') \<Longrightarrow> is_dir fs par \<Longrightarrow> is_dir fs' (par @ cs)"
proof (induction par cs fs arbitrary: fs' rule: mkdirs.induct)
  case (2 par c cs fs)
  show ?case
  proof (cases "lookup fs (par @ [c])")
    case None
    then show ?thesis using 2 by (simp add: is_dir_def fs_simps)
  next
    case (Some v)
    then show ?thesis using 2 by (cases v) (auto simp: is_dir_def)
  qed
qed simp

lemma mkdirs_succeeds:
  "(\<And>q. prefix q cs \<Longrightarrow> \<not> is_file fs (par @ q)) \<Longrightarrow> fst (mkdirs par cs fs) = []"
proof (induction par cs fs rule: mkdirs.induct)
  case (2 par c cs fs)
  have sub: "\<not> is_file fs ((par @ [c]) @ q)" if "prefix q cs" for q
    using 2(3) [of "c # q"] that by simp
  show ?case
  proof (cases "lookup fs (par @ [c])")
    case None
    then show ?thesis using 2(1) [OF None] sub set_DirNode_new(2) [OF None] by simp
  next
    case (Some v)
    then show ?thesis using 2(2) sub sub [of "[]"] by (cases v) (auto simp: is_file_def)
  qed
qed simp

lemma MkdirAll_spec:
  assumes "fs_MkdirAll p fs = (e, fs')"
  shows "stored fs' = stored fs" "is_file fs' = is_file fs" "faults fs' = faults fs"
    "\<And>q. length q > length p \<Longrightarrow> lookup fs' q = lookup fs q" "e = [] \<Longrightarrow> is_dir fs' p"
    "no_faults fs \<Longrightarrow> (\<And>q. prefix q p \<Longrightarrow> \<not> is_file fs q) \<Longrightarrow> e = []"
    "\<And>q. is_dir fs q \<Longrightarrow> is_dir fs' q"
proof -
  have "stored fs' = stored fs \<and> is_file fs' = is_file fs \<and> faults fs' = faults fs
    \<and> (\<forall>q. length q > length p \<longrightarrow> lookup fs' q = lookup fs q) \<and> (\<forall>q. is_dir fs q \<longrightarrow> is_dir fs' q)"
    using assms mkdirs_keeps [of "[]" p "tick fs" e fs']
    by (auto simp: fs_MkdirAll_def fs_simps split: option.splits)
  then show "stored fs' = stored fs" "is_file fs' = is_file fs" "faults fs' = faults fs"
    "\<And>q. length q > length p \<Longrightarrow> lookup fs' q = lookup fs q" "\<And>q. is_dir fs q \<Longrightarrow> is_dir fs' q"
    by auto
  show "e = [] \<Longrightarrow> is_dir fs' p"
    using assms mkdirs_ok [of "[]" p "tick fs" fs']
    by (auto simp: fs_MkdirAll_def is_dir_def split: option.splits)
  show "no_faults fs \<Longrightarrow> (\<And>q. prefix q p \<Longrightarrow> \<not> is_file fs q) \<Longrightarrow> e = []"
    using assms mkdirs_succeeds [of p "tick fs" "[]"] by (auto simp: fs_MkdirAll_def fs_simps)
qed

end
