(* ===== verification/Bufio.thy ===== *)
theory Bufio
  imports FileSystem
begin

text \<open>
  \<open>bufio.Writer\<close> of Go's standard library, on a file handle: the buffer, its size and the sticky
  error. Once a write to the file has failed, every later \<open>Write\<close> and \<open>Flush\<close> returns that
  error again. The lemmas state the contract a client uses: what is on disk followed by what is
  buffered grows by exactly the bytes of each \<open>Write\<close> that succeeds, and a \<open>Flush\<close> that
  succeeds leaves nothing buffered.
\<close>

record Writer =
  wr :: path
  wbuf :: "u8 list"
  wcap :: nat
  werr :: "go_error list"

definition NewWriterSize :: "path \<Rightarrow> nat \<Rightarrow> Writer" where
  "NewWriterSize h n = \<lparr>wr = h, wbuf = [], wcap = (if n = 0 then 4096 else n), werr = []\<rparr>"

definition bufio_Flush :: "Writer \<Rightarrow> FS \<Rightarrow> go_error list \<times> Writer \<times> FS" where
  "bufio_Flush b fs =
     (if werr b \<noteq> [] then (werr b, b, fs)
      else if wbuf b = [] then ([], b, fs)
      else (let (n, err, fs') = file_Write (wr b) (wbuf b) fs in
            if err \<noteq> [] then (err, b\<lparr>wbuf := drop n (wbuf b), werr := err\<rparr>, fs')
            else ([], b\<lparr>wbuf := []\<rparr>, fs')))"

text \<open>The loop of \<open>Writer.Write\<close>: an empty buffer is bypassed, a partly filled one is topped up
  and flushed.\<close>

function bufio_fill :: "u8 list \<Rightarrow> Writer \<Rightarrow> FS \<Rightarrow> u8 list \<times> Writer \<times> FS" where
  "bufio_fill p b fs =
     (if length p > wcap b - length (wbuf b) \<and> werr b = [] then
        (if wbuf b = [] then
           (let (n, err, fs') = file_Write (wr b) p fs
            in bufio_fill (drop n p) (b\<lparr>werr := err\<rparr>) fs')
         else
           (let n = wcap b - length (wbuf b);
                (err, b', fs') = bufio_Flush (b\<lparr>wbuf := wbuf b @ take n p\<rparr>) fs
            in bufio_fill (drop n p) b' fs'))
      else (p, b, fs))"
  by pat_completeness auto
termination
proof (relation "measures [\<lambda>(p, b, fs). length p, \<lambda>(p, b, fs). if werr b = [] then 1 else 0, \<lambda>(p, b, fs). length (wbuf b)]")
  fix p :: "u8 list" and b :: Writer and fs x n y err fs'
  assume a: "length p > wcap b - length (wbuf b) \<and> werr b = []"
    and x: "x = file_Write (wr b) p fs" and "(n, y) = x" "(err, fs') = y"
  then have w: "file_Write (wr b) p fs = (n, err, fs')" by simp
  have "n = length p \<or> err \<noteq> []"
    using w by (auto simp: file_Write_def Let_def split: option.splits)
  then show "((drop n p, b\<lparr>werr := err\<rparr>, fs'), p, b, fs)
      \<in> measures [\<lambda>(p, b, fs). length p, \<lambda>(p, b, fs). if werr b = [] then 1 else 0, \<lambda>(p, b, fs). length (wbuf b)]"
    using a by auto
next
  fix p :: "u8 list" and b :: Writer and fs n x err y b' fs'
  assume a: "length p > wcap b - length (wbuf b) \<and> werr b = []" and ne: "wbuf b \<noteq> []"
    and n: "n = wcap b - length (wbuf b)"
    and x: "x = bufio_Flush (b\<lparr>wbuf := wbuf b @ take n p\<rparr>) fs" and "(err, y) = x" "(b', fs') = y"
  then have f: "bufio_Flush (b\<lparr>wbuf := wbuf b @ take n p\<rparr>) fs = (err, b', fs')" by simp
  have "werr b' \<noteq> [] \<or> wbuf b' = []"
    using f a ne by (auto simp: bufio_Flush_def split: prod.splits if_splits)
  then show "((drop n p, b', fs'), p, b, fs)
      \<in> measures [\<lambda>(p, b, fs). length p, \<lambda>(p, b, fs). if werr b = [] then 1 else 0, \<lambda>(p, b, fs). length (wbuf b)]"
    using a ne n by (cases "n = 0") auto
qed simp

declare bufio_fill.simps [simp del]

definition bufio_Write :: "u8 list \<Rightarrow> Writer \<Rightarrow> FS \<Rightarrow> go_error list \<times> Writer \<times> FS" where
  "bufio_Write p b fs =
     (let (p', b', fs') = bufio_fill p b fs in
      if werr b' \<noteq> [] then (werr b', b', fs')
      else ([], b'\<lparr>wbuf := wbuf b' @ p'\<rparr>, fs'))"

section \<open>Contract\<close>

text \<open>The logical content of the file: stored bytes, then buffered ones.\<close>

definition logical :: "Writer \<Rightarrow> FS \<Rightarrow> u8 list" where
  "logical b fs = stored fs (wr b) @ wbuf b"

definition same_elsewhere :: "path \<Rightarrow> FS \<Rightarrow> FS \<Rightarrow> bool" where
  "same_elsewhere p fs fs' \<longleftrightarrow>
     faults fs' = faults fs \<and> is_file fs' = is_file fs \<and> (\<forall>q. q \<noteq> p \<longrightarrow> lookup fs' q = lookup fs q)"

lemma same_elsewhere_refl [simp]: "same_elsewhere p fs fs"
  by (simp add: same_elsewhere_def)

lemma same_elsewhere_trans: "same_elsewhere p fs fs' \<Longrightarrow> same_elsewhere p fs' fs'' \<Longrightarrow> same_elsewhere p fs fs''"
  by (simp add: same_elsewhere_def)

lemma same_elsewhere_stored: "same_elsewhere p fs fs' \<Longrightarrow> q \<noteq> p \<Longrightarrow> stored fs' q = stored fs q"
  by (simp add: same_elsewhere_def stored_def)

lemma same_elsewhere_is_dir:
  assumes "same_elsewhere p fs fs'" "is_file fs p"
  shows "is_dir fs' = is_dir fs"
proof
  fix q
  have "is_file fs' p" using assms by (simp add: same_elsewhere_def)
  then show "is_dir fs' q = is_dir fs q"
    using assms by (cases "q = p") (auto simp: is_dir_def same_elsewhere_def is_file_lookup)
qed

lemma file_Write_elsewhere:
  "file_Write h bs fs = (n, err, fs') \<Longrightarrow> is_file fs h \<Longrightarrow> same_elsewhere h fs fs'"
  using file_Write_stored [of h bs fs n err fs'] by (simp add: same_elsewhere_def)

lemma bufio_Flush_spec:
  assumes "bufio_Flush b fs = (err, b', fs')" "is_file fs (wr b)"
  shows "same_elsewhere (wr b) fs fs'" "wr b' = wr b" "wcap b' = wcap b"
    "length (wbuf b') \<le> length (wbuf b)" "logical b' fs' = logical b fs"
    "err = werr b'" "err = [] \<Longrightarrow> wbuf b' = [] \<and> werr b = []" "werr b \<noteq> [] \<Longrightarrow> b' = b \<and> fs' = fs"
    "no_faults fs \<Longrightarrow> werr b = [] \<Longrightarrow> err = []"
proof -
  obtain n e g where w: "file_Write (wr b) (wbuf b) fs = (n, e, g)" by (cases "file_Write (wr b) (wbuf b) fs")
  note ws = file_Write_eq [OF w assms(2)] file_Write_stored [OF w assms(2)] file_Write_elsewhere [OF w assms(2)]
  have nf: "no_faults fs \<Longrightarrow> e = []" using no_faults_results(3) [of fs "wr b" "wbuf b"] w by simp
  show "same_elsewhere (wr b) fs fs'" "wr b' = wr b" "wcap b' = wcap b"
    "length (wbuf b') \<le> length (wbuf b)" "logical b' fs' = logical b fs"
    "err = werr b'" "err = [] \<Longrightarrow> wbuf b' = [] \<and> werr b = []" "werr b \<noteq> [] \<Longrightarrow> b' = b \<and> fs' = fs"
    "no_faults fs \<Longrightarrow> werr b = [] \<Longrightarrow> err = []"
    using assms ws nf w by (auto simp: bufio_Flush_def logical_def split: if_splits)
qed

lemma bufio_fill_spec:
  assumes "bufio_fill p b fs = (p', b', fs')" "is_file fs (wr b)"
  shows "same_elsewhere (wr b) fs fs' \<and> wr b' = wr b \<and> wcap b' = wcap b
    \<and> (werr b' = [] \<longrightarrow> logical b' fs' @ p' = logical b fs @ p \<and> length p' \<le> wcap b' - length (wbuf b'))
    \<and> (\<exists>q. prefix q p \<and> logical b' fs' = logical b fs @ q)
    \<and> (no_faults fs \<longrightarrow> werr b = [] \<longrightarrow> werr b' = [])
    \<and> (werr b \<noteq> [] \<longrightarrow> werr b' = werr b)
    \<and> (length (wbuf b) \<le> wcap b \<longrightarrow> length (wbuf b') \<le> wcap b')"
  using assms
proof (induction p b fs arbitrary: p' b' fs' rule: bufio_fill.induct)
  case (1 p b fs)
  show ?case
  proof (cases "length p > wcap b - length (wbuf b) \<and> werr b = []")
    case False
    then have "bufio_fill p b fs = (p, b, fs)" by (subst bufio_fill.simps) (rule if_not_P)
    then show ?thesis using 1(3) False by auto
  next
    case loop: True
    show ?thesis
    proof (cases "wbuf b = []")
      case True
      obtain n e g where w: "file_Write (wr b) p fs = (n, e, g)" by (cases "file_Write (wr b) p fs")
      let ?b = "b\<lparr>werr := e\<rparr>"
      have step: "bufio_fill (drop n p) ?b g = (p', b', fs')"
        using 1(3) loop True w by (subst (asm) bufio_fill.simps) simp
      have g: "is_file g (wr ?b)" "same_elsewhere (wr b) fs g" "no_faults g = no_faults fs"
        using file_Write_stored [OF w 1(4)] 1(4) file_Write_elsewhere [OF w 1(4)] by (auto simp: no_faults_def)
      have log: "logical ?b g = logical b fs @ take n p"
        using file_Write_stored(1) [OF w 1(4)] True by (simp add: logical_def)
      have e: "no_faults fs \<Longrightarrow> e = []" using no_faults_results(3) [of fs "wr b" p] w by simp
      have IH: "same_elsewhere (wr b) g fs' \<and> wr b' = wr b \<and> wcap b' = wcap b
        \<and> (werr b' = [] \<longrightarrow> logical b' fs' @ p' = logical ?b g @ drop n p \<and> length p' \<le> wcap b' - length (wbuf b'))
        \<and> (\<exists>q. prefix q (drop n p) \<and> logical b' fs' = logical ?b g @ q)
        \<and> (no_faults g \<longrightarrow> werr ?b = [] \<longrightarrow> werr b' = []) \<and> (werr ?b \<noteq> [] \<longrightarrow> werr b' = werr ?b)
        \<and> (length (wbuf ?b) \<le> wcap ?b \<longrightarrow> length (wbuf b') \<le> wcap b')"
        using 1(1) [OF loop True w [symmetric] refl refl step g(1)] by auto
      obtain q where "prefix q (drop n p)" "logical b' fs' = logical b fs @ take n p @ q"
        using IH log by auto
      moreover from this have "prefix (take n p @ q) p"
        using same_prefix_prefix [of "take n p" q "drop n p"] by simp
      moreover have "same_elsewhere (wr b) fs fs'"
        using IH g(2) same_elsewhere_trans by blast
      moreover have "werr b' = [] \<Longrightarrow> logical b' fs' @ p' = logical b fs @ p"
        using IH log by simp
      ultimately show ?thesis
        using IH e g(3) loop by - (elim conjE, simp add: exI [of _ "take n p @ q"])
    next
      case False
      let ?n = "wcap b - length (wbuf b)"
      let ?b = "b\<lparr>wbuf := wbuf b @ take ?n p\<rparr>"
      obtain e c g where f: "bufio_Flush ?b fs = (e, c, g)" by (cases "bufio_Flush ?b fs")
      have step: "bufio_fill (drop ?n p) c g = (p', b', fs')"
        using 1(3) loop False f by (subst (asm) bufio_fill.simps) (simp add: Let_def)
      have reg: "is_file fs (wr ?b)" using 1(4) by simp
      note fl = bufio_Flush_spec [OF f reg]
      have g: "is_file g (wr c)" "no_faults g = no_faults fs"
        using fl(1,2) 1(4) by (auto simp: same_elsewhere_def no_faults_def)
      have log: "logical c g = logical b fs @ take ?n p"
        using fl(5) by (simp add: logical_def)
      have IH: "same_elsewhere (wr c) g fs' \<and> wr b' = wr c \<and> wcap b' = wcap c
        \<and> (werr b' = [] \<longrightarrow> logical b' fs' @ p' = logical c g @ drop ?n p \<and> length p' \<le> wcap b' - length (wbuf b'))
        \<and> (\<exists>q. prefix q (drop ?n p) \<and> logical b' fs' = logical c g @ q)
        \<and> (no_faults g \<longrightarrow> werr c = [] \<longrightarrow> werr b' = []) \<and> (werr c \<noteq> [] \<longrightarrow> werr b' = werr c)
        \<and> (length (wbuf c) \<le> wcap c \<longrightarrow> length (wbuf b') \<le> wcap b')"
        by (rule 1(2) [OF loop False refl f [symmetric] refl refl step g(1)])
      obtain q where "prefix q (drop ?n p)" "logical b' fs' = logical b fs @ take ?n p @ q"
        using IH log by auto
      moreover from this have "prefix (take ?n p @ q) p"
        using same_prefix_prefix [of "take ?n p" q "drop ?n p"] by simp
      moreover have "same_elsewhere (wr b) fs fs'"
        using IH fl(1,2) same_elsewhere_trans [of "wr b" fs g fs'] by simp
      moreover have "werr b' = [] \<Longrightarrow> logical b' fs' @ p' = logical b fs @ p"
        using IH log by simp
      moreover have "length (wbuf b) \<le> wcap b \<Longrightarrow> length (wbuf c) \<le> wcap c"
        using fl(3,4) by auto
      ultimately show ?thesis
        using IH fl(2,3,6,9) g(2) loop by - (elim conjE, simp add: exI [of _ "take ?n p @ q"])
    qed
  qed
qed

lemma bufio_Write_spec:
  assumes "bufio_Write p b fs = (err, b', fs')" "is_file fs (wr b)"
  shows "same_elsewhere (wr b) fs fs'" "wr b' = wr b" "wcap b' = wcap b" "err = werr b'"
    "err = [] \<Longrightarrow> logical b' fs' = logical b fs @ p"
    "length (wbuf b) \<le> wcap b \<Longrightarrow> length (wbuf b') \<le> wcap b'"
    "\<exists>q. prefix q p \<and> logical b' fs' = logical b fs @ q"
    "no_faults fs \<Longrightarrow> werr b = [] \<Longrightarrow> err = []"
    "werr b \<noteq> [] \<Longrightarrow> err = werr b"
proof -
  obtain p1 b1 f1 where f: "bufio_fill p b fs = (p1, b1, f1)" by (cases "bufio_fill p b fs")
  note spec = bufio_fill_spec [OF f assms(2)]
  have w: "(err, b', fs') = (if werr b1 \<noteq> [] then (werr b1, b1, f1) else ([], b1\<lparr>wbuf := wbuf b1 @ p1\<rparr>, f1))"
    using assms(1) f by (simp add: bufio_Write_def)
  show "same_elsewhere (wr b) fs fs'" "wr b' = wr b" "wcap b' = wcap b" "err = werr b'"
    "err = [] \<Longrightarrow> logical b' fs' = logical b fs @ p"
    "length (wbuf b) \<le> wcap b \<Longrightarrow> length (wbuf b') \<le> wcap b'"
    "no_faults fs \<Longrightarrow> werr b = [] \<Longrightarrow> err = []" "werr b \<noteq> [] \<Longrightarrow> err = werr b"
    using spec w by (auto simp: logical_def split: if_splits)
  show "\<exists>q. prefix q p \<and> logical b' fs' = logical b fs @ q"
    using spec w by (cases "werr b1 = []") (auto simp: logical_def)
qed

end
