(* ===== verification/DataFile.thy ===== *)
theory DataFile
  imports Bufio
begin

text \<open>
  \<open>sensor-server/data-file.go\<close>: a data file is a directory of numbered segments to which
  fixed-size records are appended through a \<open>bufio.Writer\<close>, with rotation by size and repair of
  torn records when it is opened.

  File sizes are \<open>int\<close> and sequence numbers and counters \<open>nat\<close>: reaching the range of
  their 64-bit types would take more records than a disk can hold. A call on the nil
  \<open>bufio.Writer\<close> is the panic \<^term>\<open>None\<close>. Errors keep the leaves \<open>errors.Is\<close> sees; the
  text around them is dropped.
\<close>

section \<open>Records\<close>

abbreviation (input) SensorDataRecordSize :: int where "SensorDataRecordSize \<equiv> 12"

abbreviation (input) firstSegmentSequence :: nat where "firstSegmentSequence \<equiv> 1"

record DataFileOptions =
  Directory :: path
  BufferSize :: int
  RotationSize :: int
  DirectoryMode :: nat
  FileMode :: nat

definition DefaultDataFileOptions :: "path \<Rightarrow> DataFileOptions" where
  "DefaultDataFileOptions directory =
     \<lparr>Directory = directory, BufferSize = 64 * 1024, RotationSize = 64 * 1024 * 1024,
      DirectoryMode = 493, FileMode = 420\<rparr>"

record DataFileCounters =
  BytesWritten :: nat
  Rotations :: nat

record DataFile =
  options :: DataFileOptions
  dfile :: "path option"
  buffer :: "Writer option"
  sequence :: nat
  dsize :: int
  closed :: bool
  bytesWritten :: nat
  rotations :: nat

section \<open>Segment names\<close>

definition segmentName :: "nat \<Rightarrow> string" where
  "segmentName n = zero_padded 8 n @ ''.dat''"

definition parseSegmentName :: "string \<Rightarrow> nat option" where
  "parseSegmentName name =
     (if length name \<noteq> length ''00000001.dat'' \<or> \<not> HasSuffix name ''.dat'' then None
      else case ParseUint (take 8 name) 64 of
          None \<Rightarrow> None
        | Some n \<Rightarrow> if n \<ge> firstSegmentSequence then Some n else None)"

definition segmentPath :: "DataFile \<Rightarrow> path" where
  "segmentPath df = Directory (options df) @ [segmentName (sequence df)]"

section \<open>Discovery and repair\<close>

text \<open>The body of the loop for one segment: \<open>Stat\<close>, and truncation to whole records.\<close>

definition repairSegment :: "path \<Rightarrow> FS \<Rightarrow> (go_error list + int) \<times> FS" where
  "repairSegment p fs =
     (case fs_Stat p fs of
        (Inl e, fs) \<Rightarrow> (Inl e, fs)
      | (Inr sz, fs) \<Rightarrow>
          if sz mod SensorDataRecordSize = 0 then (Inr sz, fs)
          else (let repairedSize = sz - sz mod SensorDataRecordSize in
            case fs_OpenFile p readWriteFlags fs of
              (Inl e, fs) \<Rightarrow> (Inl e, fs)
            | (Inr h, fs) \<Rightarrow>
                (case file_Truncate h (nat repairedSize) fs of
                   (e, fs) \<Rightarrow>
                     if e \<noteq> [] then (Inl e, snd (file_Close h fs))
                     else (let (e1, fs) = file_Sync h fs; (e2, fs) = file_Close h fs in
                           if errors_Join e1 e2 \<noteq> [] then (Inl (errors_Join e1 e2), fs)
                           else (Inr repairedSize, fs)))))"

text \<open>The active segment so far: the one with the highest number.\<close>

definition newer :: "nat \<times> int \<Rightarrow> (nat \<times> int) option \<Rightarrow> (nat \<times> int) option" where
  "newer r found = (case found of None \<Rightarrow> Some r | Some (m, s) \<Rightarrow> if fst r > m then Some r else found)"

fun repairLoop :: "path \<Rightarrow> (string \<times> bool) list \<Rightarrow> (nat \<times> int) option \<Rightarrow> FS
    \<Rightarrow> (go_error list + (nat \<times> int) option) \<times> FS" where
  "repairLoop dir [] found fs = (Inr found, fs)"
| "repairLoop dir ((name, isDir) # entries) found fs =
     (case parseSegmentName name of
        None \<Rightarrow> repairLoop dir entries found fs
      | Some n \<Rightarrow>
          if isDir then repairLoop dir entries found fs
          else (case repairSegment (dir @ [name]) fs of
                  (Inl e, fs) \<Rightarrow> (Inl e, fs)
                | (Inr sz, fs) \<Rightarrow>
                    repairLoop dir entries (newer (n, sz) found) fs))"

definition discoverAndRepairSegments :: "DataFileOptions \<Rightarrow> FS \<Rightarrow> (go_error list + nat \<times> int) \<times> FS" where
  "discoverAndRepairSegments opts fs =
     (case fs_ReadDir (Directory opts) fs of
        (Inl e, fs) \<Rightarrow> (Inl e, fs)
      | (Inr entries, fs) \<Rightarrow>
          (case repairLoop (Directory opts) entries None fs of
             (Inl e, fs) \<Rightarrow> (Inl e, fs)
           | (Inr None, fs) \<Rightarrow> (Inr (firstSegmentSequence, 0), fs)
           | (Inr (Some r), fs) \<Rightarrow> (Inr r, fs)))"

section \<open>Operations\<close>

definition openCurrentSegment :: "DataFile \<Rightarrow> FS \<Rightarrow> go_error list \<times> DataFile \<times> FS" where
  "openCurrentSegment df fs =
     (case fs_OpenFile (segmentPath df) createAppendReadWriteFlags fs of
        (Inl e, fs) \<Rightarrow> (e, df, fs)
      | (Inr h, fs) \<Rightarrow>
          ([], df\<lparr>dfile := Some h, buffer := Some (NewWriterSize h (nat (BufferSize (options df))))\<rparr>, fs))"

definition closeCurrentSegment :: "DataFile \<Rightarrow> FS \<Rightarrow> go_error list \<times> DataFile \<times> FS" where
  "closeCurrentSegment df fs =
     (case dfile df of
        None \<Rightarrow> ([], df, fs)
      | Some h \<Rightarrow>
          (let (e0, fs) = (case buffer df of
                 None \<Rightarrow> ([], fs)
               | Some b \<Rightarrow> (case bufio_Flush b fs of (e, b', fs) \<Rightarrow> (e, fs)));
               (e1, fs) = file_Sync h fs;
               (e2, fs) = file_Close h fs
           in (errors_Join (errors_Join e0 e1) e2, df\<lparr>dfile := None, buffer := None\<rparr>, fs)))"

definition rotate :: "DataFile \<Rightarrow> FS \<Rightarrow> go_error list \<times> DataFile \<times> FS" where
  "rotate df fs =
     (let (e, df, fs) = closeCurrentSegment df fs in
      if e \<noteq> [] then (e, df, fs)
      else openCurrentSegment
             (df\<lparr>sequence := sequence df + 1, rotations := rotations df + 1, dsize := 0\<rparr>) fs)"

definition OpenDataFile :: "DataFileOptions \<Rightarrow> FS \<Rightarrow> (go_error list + DataFile) \<times> FS" where
  "OpenDataFile opts fs =
     (if TrimSpace (path_string (Directory opts)) = [] then (Inl [ErrText ''open data file: empty directory''], fs)
      else if BufferSize opts < 1 then (Inl [ErrText ''open data file: buffer size must be positive''], fs)
      else if RotationSize opts < SensorDataRecordSize
        then (Inl [ErrText ''open data file: rotation size must fit one record''], fs)
      else
        (let opts = opts\<lparr>DirectoryMode := (if DirectoryMode opts = 0 then 493 else DirectoryMode opts),
                         FileMode := (if FileMode opts = 0 then 420 else FileMode opts)\<rparr>;
             (e, fs) = fs_MkdirAll (Directory opts) fs
         in if e \<noteq> [] then (Inl e, fs)
            else case discoverAndRepairSegments opts fs of
                (Inl e, fs) \<Rightarrow> (Inl e, fs)
              | (Inr (n, sz), fs) \<Rightarrow>
                  (let (e, df, fs) = openCurrentSegment
                         \<lparr>options = opts, dfile = None, buffer = None, sequence = n, dsize = sz,
                          closed = False, bytesWritten = 0, rotations = 0\<rparr> fs
                   in if e \<noteq> [] then (Inl e, fs) else (Inr df, fs))))"

text \<open>The twelve bytes of a record: timestamp and value, little-endian.\<close>

definition encodeRecord :: "i64 \<Rightarrow> i32 \<Rightarrow> u8 list" where
  "encodeRecord timestamp val = le_bytes 8 timestamp @ le_bytes 4 val"

definition WriteRecord :: "i64 \<Rightarrow> i32 \<Rightarrow> DataFile \<Rightarrow> FS \<Rightarrow> (go_error list \<times> DataFile \<times> FS) option" where
  "WriteRecord timestamp val df fs =
     (if closed df then Some ([ErrDataFileClosed], df, fs)
      else
        (let (e, df, fs) = (if dsize df + SensorDataRecordSize > RotationSize (options df)
                            then rotate df fs else ([], df, fs))
         in if e \<noteq> [] then Some (e, df, fs)
            else case buffer df of
                None \<Rightarrow> None
              | Some b \<Rightarrow>
                  (let (e, b, fs) = bufio_Write (encodeRecord timestamp val) b fs;
                       df = df\<lparr>buffer := Some b\<rparr>
                   in if e \<noteq> [] then Some (e, df, fs)
                      else Some ([], df\<lparr>dsize := dsize df + SensorDataRecordSize,
                                         bytesWritten := bytesWritten df + 12\<rparr>, fs))))"

definition Flush :: "DataFile \<Rightarrow> FS \<Rightarrow> (go_error list \<times> DataFile \<times> FS) option" where
  "Flush df fs =
     (if closed df then Some ([ErrDataFileClosed], df, fs)
      else case buffer df of
          None \<Rightarrow> None
        | Some b \<Rightarrow> (let (e, b, fs) = bufio_Flush b fs in Some (e, df\<lparr>buffer := Some b\<rparr>, fs)))"

definition Close :: "DataFile \<Rightarrow> FS \<Rightarrow> go_error list \<times> DataFile \<times> FS" where
  "Close df fs =
     (if closed df then ([], df, fs) else closeCurrentSegment (df\<lparr>closed := True\<rparr>) fs)"

definition Counters :: "DataFile \<Rightarrow> DataFileCounters" where
  "Counters df = \<lparr>BytesWritten = bytesWritten df, Rotations = rotations df\<rparr>"

section \<open>Segment names determine sequence numbers\<close>

lemma digits_val_snoc:
  "digits_val acc (s @ [c]) = Some v \<longleftrightarrow>
     is_digit c \<and> digits_val acc s = Some (v div 10) \<and> v mod 10 = digit_val c"
proof -
  have "w * 10 + d = v \<longleftrightarrow> w = v div 10 \<and> v mod 10 = d" if "d < 10" for w d
    using that by auto
  moreover have "is_digit c \<Longrightarrow> digit_val c < 10"
    by (auto simp: is_digit_def digit_val_def)
  ultimately show ?thesis
    by (cases "digits_val acc s") (auto simp: digits_val_append)
qed

lemma digits_val_inj:
  "length s = length t \<Longrightarrow> digits_val acc s = Some v \<Longrightarrow> digits_val acc t = Some v \<Longrightarrow> s = t"
proof (induction s arbitrary: t v rule: rev_induct)
  case Nil
  then show ?case by simp
next
  case (snoc c s)
  from snoc.prems(1) obtain u d where t: "t = u @ [d]" "length u = length s"
    by (cases t rule: rev_cases) auto
  have "digit_val c = digit_val d" "is_digit c" "is_digit d"
    using snoc.prems t by (auto simp: digits_val_snoc)
  then have "(of_char c :: nat) = of_char d"
    unfolding digit_val_def is_digit_def by linarith
  then have "c = d" by simp
  moreover have "s = u"
    using snoc.prems snoc.IH [of u "v div 10"] t by (simp add: digits_val_snoc)
  ultimately show ?case using t by simp
qed

lemma length_zero_padded_8: "length (zero_padded 8 n) = 8 \<longleftrightarrow> n < 10 ^ 8"
  using length_zero_padded [of 7 n] by simp

lemma parseSegmentName_segmentName:
  assumes "1 \<le> n" "n < 10 ^ 8"
  shows "parseSegmentName (segmentName n) = Some n"
proof -
  have len: "length (zero_padded 8 n) = 8"
    using assms by (simp only: length_zero_padded_8)
  have "n < 2 ^ 64" using assms by simp
  then show ?thesis
    using assms len by (simp add: parseSegmentName_def segmentName_def HasSuffix_def ParseUint_zero_padded)
qed

lemma segmentName_parseSegmentName:
  assumes "parseSegmentName name = Some n"
  shows "name = segmentName n \<and> 1 \<le> n \<and> n < 10 ^ 8"
proof -
  have len: "length name = 12" and "HasSuffix name ''.dat''" and n: "1 \<le> n"
    and val: "digits_val 0 (take 8 name) = Some n"
    using assms by (auto simp: parseSegmentName_def ParseUint_def split: if_splits option.splits)
  then have suffix: "drop 8 name = ''.dat''"
    by (simp add: HasSuffix_def eval_nat_numeral)
  have bound: "n < 10 ^ 8"
    using digits_val_bound [OF val] len by simp
  then have "length (zero_padded 8 n) = 8"
    by (simp only: length_zero_padded_8)
  then have "take 8 name = zero_padded 8 n"
    using len by (intro digits_val_inj [OF _ val]) simp_all
  then have "name = segmentName n"
    using append_take_drop_id [of 8 name] suffix by (simp add: segmentName_def)
  then show ?thesis using n bound by simp
qed

text \<open>
  The names of data segments round-trip: a directory entry is taken for segment \<open>n\<close> exactly
  when it is the name the writer gives to segment \<open>n\<close>, for the numbers from 1 to 99999999.
\<close>

theorem parseSegmentName_iff:
  "parseSegmentName name = Some n \<longleftrightarrow> name = segmentName n \<and> 1 \<le> n \<and> n < 10 ^ 8"
  using parseSegmentName_segmentName segmentName_parseSegmentName by blast

lemma segmentName_inj: "segmentName m = segmentName n \<Longrightarrow> m = n"
  by (auto simp: segmentName_def dest: zero_padded_inj)

section \<open>The log a data file holds\<close>

text \<open>The abstract value of a data file is one sequence of bytes: the stored segments in the
  order of their numbers, then what the buffer still holds.\<close>

definition seg_path :: "path \<Rightarrow> nat \<Rightarrow> path" where
  "seg_path dir k = dir @ [segmentName k]"

definition history :: "FS \<Rightarrow> path \<Rightarrow> nat \<Rightarrow> u8 list" where
  "history fs dir n = concat (map (\<lambda>k. stored fs (seg_path dir k)) [1..<Suc n])"

definition dlog :: "DataFile \<Rightarrow> FS \<Rightarrow> u8 list" where
  "dlog df fs = history fs (Directory (options df)) (sequence df)
     @ (case buffer df of None \<Rightarrow> [] | Some b \<Rightarrow> wbuf b)"

definition df_ok :: "DataFile \<Rightarrow> FS \<Rightarrow> bool" where
  "df_ok df fs \<longleftrightarrow>
     SensorDataRecordSize \<le> RotationSize (options df) \<and> 1 \<le> sequence df
     \<and> (\<forall>k > sequence df. stored fs (seg_path (Directory (options df)) k) = [])
     \<and> (case buffer df of
          None \<Rightarrow> dfile df = None
        | Some b \<Rightarrow> dfile df = Some (segmentPath df) \<and> wr b = segmentPath df
            \<and> is_file fs (segmentPath df)
            \<and> (werr b = [] \<longrightarrow> dsize df = int (length (logical b fs))))"

lemma seg_path_eq_iff [simp]: "seg_path dir j = seg_path dir k \<longleftrightarrow> j = k"
  by (auto simp: seg_path_def dest: segmentName_inj)

lemma segmentPath_seg: "segmentPath df = seg_path (Directory (options df)) (sequence df)"
  by (simp add: segmentPath_def seg_path_def)

lemma history_0 [simp]: "history fs dir 0 = []"
  by (simp add: history_def)

lemma history_Suc: "history fs dir (Suc n) = history fs dir n @ stored fs (seg_path dir (Suc n))"
  by (simp add: history_def)

lemma history_cong:
  "(\<And>k. 1 \<le> k \<Longrightarrow> k \<le> n \<Longrightarrow> stored fs' (seg_path dir k) = stored fs (seg_path dir k))
    \<Longrightarrow> history fs' dir n = history fs dir n"
  unfolding history_def by (rule arg_cong [where f = concat], rule map_cong) auto

lemma history_last:
  assumes "same_elsewhere (seg_path dir n) fs fs'" "1 \<le> n"
  shows "history fs' dir n = history fs dir (n - 1) @ stored fs' (seg_path dir n)"
proof (cases n)
  case (Suc m)
  have "history fs' dir m = history fs dir m"
    using assms(1) Suc by (intro history_cong) (simp add: same_elsewhere_stored)
  then show ?thesis using Suc by (simp add: history_Suc)
qed (use assms in simp)

lemma history_split: "1 \<le> n \<Longrightarrow> history fs dir n = history fs dir (n - 1) @ stored fs (seg_path dir n)"
  by (cases n) (simp_all add: history_Suc)

lemma dlog_open:
  assumes "df_ok df fs" "buffer df = Some b"
  shows "dlog df fs = history fs (Directory (options df)) (sequence df - 1) @ logical b fs"
  using assms history_split [of "sequence df" fs "Directory (options df)"]
  by (simp add: dlog_def df_ok_def logical_def segmentPath_seg)

subsection \<open>Closing, opening and rotating a segment\<close>

lemma closeCurrentSegment_none:
  "dfile df = None \<Longrightarrow> closeCurrentSegment df fs = ([], df, fs)"
  by (simp add: closeCurrentSegment_def)

lemma closeCurrentSegment_spec:
  assumes "closeCurrentSegment df fs = (e, df', fs')" "df_ok df fs" "buffer df = Some b"
  shows "df' = df\<lparr>dfile := None, buffer := None\<rparr>" "same_elsewhere (segmentPath df) fs fs'"
    "prefix (stored fs' (segmentPath df)) (logical b fs)"
    "e = [] \<Longrightarrow> stored fs' (segmentPath df) = logical b fs"
    "no_faults fs \<Longrightarrow> werr b = [] \<Longrightarrow> e = []"
proof -
  have h: "dfile df = Some (segmentPath df)" "wr b = segmentPath df" "is_file fs (wr b)"
    using assms by (simp_all add: df_ok_def)
  obtain e0 b0 fs0 where f: "bufio_Flush b fs = (e0, b0, fs0)" by (cases "bufio_Flush b fs")
  note fl = bufio_Flush_spec [OF f h(3)]
  let ?s = "file_Sync (segmentPath df) fs0"
  let ?c = "file_Close (segmentPath df) (snd ?s)"
  have r: "e = e0 @ fst ?s @ fst ?c" "df' = df\<lparr>dfile := None, buffer := None\<rparr>" "fs' = snd ?c"
    using assms(1,3) h(1) f by (auto simp: closeCurrentSegment_def errors_Join_def split_beta)
  show "df' = df\<lparr>dfile := None, buffer := None\<rparr>" by (rule r(2))
  show "same_elsewhere (segmentPath df) fs fs'"
    using fl(1) h(2) r(3) by (simp add: same_elsewhere_def)
  have st: "stored fs' (segmentPath df) = stored fs0 (wr b0)"
    using r(3) fl(2) h(2) by simp
  have "logical b fs = stored fs' (segmentPath df) @ wbuf b0"
    using fl(5) st by (simp add: logical_def)
  then show "prefix (stored fs' (segmentPath df)) (logical b fs)" by simp
  show "e = [] \<Longrightarrow> stored fs' (segmentPath df) = logical b fs"
    using fl(5,7) st r(1) by (simp add: logical_def)
  assume "no_faults fs" "werr b = []"
  moreover have "no_faults fs0" "no_faults (snd ?s)"
    using calculation fl(1) by (simp_all add: same_elsewhere_def no_faults_def)
  ultimately show "e = []" using r(1) fl(9) by (simp add: no_faults_results)
qed

lemma openCurrentSegment_spec:
  assumes "openCurrentSegment df fs = (e, df', fs')"
  shows "stored fs' = stored fs" "faults fs' = faults fs"
    "\<And>q. q \<noteq> segmentPath df \<Longrightarrow> lookup fs' q = lookup fs q"
    "e \<noteq> [] \<Longrightarrow> df' = df \<and> lookup fs' = lookup fs"
    "e = [] \<Longrightarrow> is_file fs' (segmentPath df) \<and>
       df' = df\<lparr>dfile := Some (segmentPath df),
                buffer := Some (NewWriterSize (segmentPath df) (nat (BufferSize (options df))))\<rparr>"
  using assms OpenFile_stored [of createAppendReadWriteFlags "segmentPath df" fs]
    OpenFile_faults [of "segmentPath df" createAppendReadWriteFlags fs]
    OpenFile_ok [of "segmentPath df" createAppendReadWriteFlags fs]
    OpenFile_err [of "segmentPath df" createAppendReadWriteFlags fs]
  by (auto simp: openCurrentSegment_def simp del: OpenFile_faults split: prod.splits sum.splits)

text \<open>A failure of the opening calls is never nil.\<close>

lemma repairSegment_err: "repairSegment p fs = (Inl e, fs') \<Longrightarrow> e \<noteq> []"
  by (auto simp: repairSegment_def Let_def dest: Stat_err OpenFile_err(1) split: prod.splits sum.splits if_splits)

lemma repairLoop_err: "repairLoop dir es acc fs = (Inl e, fs') \<Longrightarrow> e \<noteq> []"
  by (induction dir es acc fs rule: repairLoop.induct)
    (auto simp: Let_def dest: repairSegment_err split: prod.splits sum.splits if_splits option.splits)

lemma OpenDataFile_err: "OpenDataFile opts fs = (Inl e, fs') \<Longrightarrow> e \<noteq> []"
  by (auto simp: OpenDataFile_def discoverAndRepairSegments_def Let_def dest: repairLoop_err ReadDir_err
      split: prod.splits sum.splits if_splits option.splits)

text \<open>Closing a segment cuts the log at most at its end, and not at all when it succeeds.\<close>

lemma closeCurrentSegment_log:
  assumes "closeCurrentSegment df fs = (e, df', fs')" "df_ok df fs"
  shows "df' = df\<lparr>dfile := None, buffer := None\<rparr>" "df_ok df' fs'" "prefix (dlog df' fs') (dlog df fs)"
    "e = [] \<Longrightarrow> dlog df' fs' = dlog df fs"
proof -
  let ?dir = "Directory (options df)"
  have "df' = df\<lparr>dfile := None, buffer := None\<rparr> \<and> df_ok df' fs' \<and> prefix (dlog df' fs') (dlog df fs)
    \<and> (e = [] \<longrightarrow> dlog df' fs' = dlog df fs)"
  proof (cases "buffer df")
    case None
    then have "dfile df = None" using assms(2) by (simp add: df_ok_def)
    then have "e = []" "df' = df" "fs' = fs" using assms(1) by (simp_all add: closeCurrentSegment_none)
    then show ?thesis using None assms(2) \<open>dfile df = None\<close> by (cases df) simp
  next
    case (Some b)
    note cl = closeCurrentSegment_spec [OF assms(1,2) Some]
    have hist: "history fs' ?dir (sequence df) = history fs ?dir (sequence df - 1) @ stored fs' (segmentPath df)"
      using cl(2) assms(2) by (simp add: segmentPath_seg history_last df_ok_def)
    have "stored fs' (seg_path ?dir k) = []" if "k > sequence df" for k
      using cl(2) that assms(2) by (simp add: segmentPath_seg same_elsewhere_stored df_ok_def)
    then have "df_ok df' fs'"
      using assms(2) cl(1) by (simp add: df_ok_def)
    then show ?thesis
      using cl(1,3,4) hist dlog_open [OF assms(2) Some] by (simp add: dlog_def)
  qed
  then show "df' = df\<lparr>dfile := None, buffer := None\<rparr>" "df_ok df' fs'" "prefix (dlog df' fs') (dlog df fs)"
    "e = [] \<Longrightarrow> dlog df' fs' = dlog df fs"
    by blast+
qed

lemma openNextSegment_log:
  assumes "openCurrentSegment (df\<lparr>sequence := sequence df + 1, rotations := r, dsize := 0\<rparr>) fs = (e, df', fs')"
    and "df_ok df fs" "buffer df = None"
  shows "df_ok df' fs'" "dlog df' fs' = dlog df fs" "e \<noteq> [] \<Longrightarrow> buffer df' = None"
    "options df' = options df" "sequence df' = sequence df + 1" "dsize df' = 0" "rotations df' = r"
    "closed df' = closed df" "bytesWritten df' = bytesWritten df" "e = [] \<Longrightarrow> buffer df' \<noteq> None"
proof -
  let ?dir = "Directory (options df)"
  let ?d = "df\<lparr>sequence := sequence df + 1, rotations := r, dsize := 0\<rparr>"
  note os = openCurrentSegment_spec [OF assms(1)]
  have later: "\<forall>k > sequence df. stored fs (seg_path ?dir k) = []"
    using assms(2) by (simp add: df_ok_def)
  have df': "df' = ?d \<or> e = [] \<and> is_file fs' (segmentPath ?d) \<and> df' = ?d\<lparr>dfile := Some (segmentPath ?d),
      buffer := Some (NewWriterSize (segmentPath ?d) (nat (BufferSize (options df))))\<rparr>"
    using os(4,5) by (cases "e = []") simp_all
  have "history fs' ?dir (Suc (sequence df)) = history fs ?dir (sequence df)"
    using later os(1) history_cong [of "sequence df" fs' ?dir fs] by (simp add: history_Suc)
  then show "dlog df' fs' = dlog df fs"
    using df' assms(3) by (auto simp: dlog_def NewWriterSize_def)
  have "stored fs' (segmentPath ?d) = []"
    using later os(1) by (simp add: segmentPath_seg)
  then show "df_ok df' fs'"
    using df' later os(1) assms(2,3)
    by (auto simp: df_ok_def NewWriterSize_def logical_def segmentPath_def)
  show "options df' = options df" "sequence df' = sequence df + 1" "dsize df' = 0" "rotations df' = r"
    "closed df' = closed df" "bytesWritten df' = bytesWritten df"
    using df' by auto
  show "e \<noteq> [] \<Longrightarrow> buffer df' = None" "e = [] \<Longrightarrow> buffer df' \<noteq> None"
    using os(4,5) assms(3) by auto
qed

lemma rotate_spec:
  assumes "rotate df fs = (e, df', fs')" "df_ok df fs"
  shows "df_ok df' fs' \<and> options df' = options df \<and> closed df' = closed df \<and> bytesWritten df' = bytesWritten df
    \<and> prefix (dlog df' fs') (dlog df fs) \<and> (e \<noteq> [] \<longrightarrow> buffer df' = None)
    \<and> (e = [] \<longrightarrow> dlog df' fs' = dlog df fs \<and> sequence df' = sequence df + 1 \<and> dsize df' = 0
        \<and> buffer df' \<noteq> None \<and> rotations df' = rotations df + 1)"
proof -
  obtain e0 df0 fs0 where c: "closeCurrentSegment df fs = (e0, df0, fs0)"
    by (cases "closeCurrentSegment df fs")
  note cl = closeCurrentSegment_log [OF c assms(2)]
  show ?thesis
  proof (cases "e0 = []")
    case False
    then have "e = e0" "df' = df0" "fs' = fs0" using assms(1) c by (simp_all add: rotate_def)
    then show ?thesis using cl(2,3) False by (simp add: cl(1))
  next
    case True
    have o: "openCurrentSegment (df0\<lparr>sequence := sequence df0 + 1, rotations := rotations df0 + 1, dsize := 0\<rparr>) fs0
        = (e, df', fs')"
      using assms(1) c True by (simp add: rotate_def)
    have "buffer df0 = None" by (simp add: cl(1))
    note os = openNextSegment_log [OF o cl(2) this]
    show ?thesis using os cl(4) True by (simp add: cl(1))
  qed
qed

section \<open>Writing\<close>

text \<open>\<open>WriteRecord\<close> after a possible rotation.\<close>

lemma WriteRecord_cases:
  assumes "WriteRecord ts v df fs = Some (e, df', fs')" "\<not> closed df" "df_ok df fs"
  obtains (rotation_failed) "rotate df fs = (e, df', fs')" "e \<noteq> []"
    "dsize df + SensorDataRecordSize > RotationSize (options df)"
  | (written) df1 fs1 b b' where "df_ok df1 fs1" "options df1 = options df" "dlog df1 fs1 = dlog df fs"
    "dsize df1 + SensorDataRecordSize \<le> RotationSize (options df1)" "\<not> closed df1"
    "bytesWritten df1 = bytesWritten df" "buffer df1 = Some b"
    "sequence df \<le> sequence df1" "rotations df1 - rotations df = sequence df1 - sequence df"
    "bufio_Write (encodeRecord ts v) b fs1 = (e, b', fs')"
    "df' = (if e \<noteq> [] then df1\<lparr>buffer := Some b'\<rparr>
            else df1\<lparr>buffer := Some b', dsize := dsize df1 + SensorDataRecordSize,
                     bytesWritten := bytesWritten df1 + 12\<rparr>)"
proof (cases "dsize df + SensorDataRecordSize > RotationSize (options df)")
  case True
  obtain e1 df1 fs1 where r: "rotate df fs = (e1, df1, fs1)" by (cases "rotate df fs")
  note rs = rotate_spec [OF r assms(3)]
  show ?thesis
  proof (cases "e1 = []")
    case False
    then show ?thesis using assms(1,2) r True by (intro rotation_failed) (simp_all add: WriteRecord_def)
  next
    case ok: True
    then obtain b where b: "buffer df1 = Some b" using rs by auto
    obtain e2 b2 fs2 where w: "bufio_Write (encodeRecord ts v) b fs1 = (e2, b2, fs2)"
      by (cases "bufio_Write (encodeRecord ts v) b fs1")
    have "e = e2 \<and> fs' = fs2 \<and> df' = (if e \<noteq> [] then df1\<lparr>buffer := Some b2\<rparr>
            else df1\<lparr>buffer := Some b2, dsize := dsize df1 + SensorDataRecordSize,
                     bytesWritten := bytesWritten df1 + 12\<rparr>)"
      using assms(1,2) r True ok b w by (auto simp: WriteRecord_def Let_def split: if_splits)
    then show ?thesis
      using rs ok b w assms(2,3) by (intro written [of df1 fs1 b b2]) (auto simp: df_ok_def)
  qed
next
  case False
  then obtain b where b: "buffer df = Some b"
    using assms(1,2) by (cases "buffer df") (simp_all add: WriteRecord_def)
  obtain e2 b2 fs2 where w: "bufio_Write (encodeRecord ts v) b fs = (e2, b2, fs2)"
    by (cases "bufio_Write (encodeRecord ts v) b fs")
  have "e = e2 \<and> fs' = fs2 \<and> df' = (if e \<noteq> [] then df\<lparr>buffer := Some b2\<rparr>
          else df\<lparr>buffer := Some b2, dsize := dsize df + SensorDataRecordSize,
                   bytesWritten := bytesWritten df + 12\<rparr>)"
    using assms(1,2) False b w by (auto simp: WriteRecord_def Let_def split: if_splits)
  then show ?thesis
    using False b w assms(2,3) by (intro written [of df fs b b2]) auto
qed

lemma length_encodeRecord [simp]: "length (encodeRecord ts v) = 12"
  by (simp add: encodeRecord_def)

lemma buffer_update:
  assumes "df_ok df fs" "buffer df = Some b" "same_elsewhere (wr b) fs fs'" "wr b' = wr b"
    "werr b' = [] \<Longrightarrow> sz = int (length (logical b' fs'))"
  shows "df_ok (df\<lparr>buffer := Some b', dsize := sz, bytesWritten := n\<rparr>) fs'"
    "dlog (df\<lparr>buffer := Some b', dsize := sz, bytesWritten := n\<rparr>) fs'
      = history fs (Directory (options df)) (sequence df - 1) @ logical b' fs'"
proof -
  let ?dir = "Directory (options df)"
  have wr: "wr b = seg_path ?dir (sequence df)" "1 \<le> sequence df" "is_file fs (wr b)"
    using assms(1,2) by (simp_all add: df_ok_def segmentPath_seg)
  have "stored fs' (seg_path ?dir k) = []" if "k > sequence df" for k
    using assms(1,3) that wr(1) by (simp add: same_elsewhere_stored df_ok_def)
  moreover have "is_file fs' (wr b)" using assms(3) wr(3) by (simp add: same_elsewhere_def)
  ultimately show "df_ok (df\<lparr>buffer := Some b', dsize := sz, bytesWritten := n\<rparr>) fs'"
    using assms by (simp add: df_ok_def segmentPath_def)
  have "history fs' ?dir (sequence df) = history fs ?dir (sequence df - 1) @ stored fs' (wr b)"
    using history_last [of ?dir "sequence df" fs fs'] assms(3) wr by simp
  then show "dlog (df\<lparr>buffer := Some b', dsize := sz, bytesWritten := n\<rparr>) fs'
      = history fs ?dir (sequence df - 1) @ logical b' fs'"
    using assms(4) by (simp add: dlog_def logical_def)
qed

lemma WriteRecord_closed: "closed df \<Longrightarrow> WriteRecord ts v df fs = Some ([ErrDataFileClosed], df, fs)"
  by (simp add: WriteRecord_def)

lemma WriteRecord_spec:
  assumes "WriteRecord ts v df fs = Some (e, df', fs')" "df_ok df fs"
  shows "df_ok df' fs' \<and> options df' = options df \<and> closed df' = closed df
    \<and> (e = [] \<longrightarrow> \<not> closed df \<and> dlog df' fs' = dlog df fs @ encodeRecord ts v
        \<and> dsize df' \<le> RotationSize (options df) \<and> bytesWritten df' = bytesWritten df + 12
        \<and> buffer df' \<noteq> None)
    \<and> (e \<noteq> [] \<longrightarrow> prefix (dlog df' fs') (dlog df fs @ encodeRecord ts v)
        \<and> bytesWritten df' = bytesWritten df)"
proof (cases "closed df")
  case True
  then show ?thesis using assms by (auto simp: WriteRecord_closed)
next
  case False
  from assms(1) this assms(2) show ?thesis
  proof (cases rule: WriteRecord_cases)
    case rotation_failed
    then show ?thesis using rotate_spec [OF rotation_failed(1) assms(2)] prefix_prefix by auto
  next
    case (written df1 fs1 b b')
    have reg: "is_file fs1 (wr b)" using written(1,7) by (simp add: df_ok_def)
    note w = bufio_Write_spec [OF written(10) reg]
    have good: "werr b = [] \<Longrightarrow> dsize df1 = int (length (logical b fs1))"
      using written(1,7) by (simp add: df_ok_def)
    have log1: "dlog df fs = history fs1 (Directory (options df1)) (sequence df1 - 1) @ logical b fs1"
      using dlog_open [OF written(1,7)] written(3) by simp
    show ?thesis
    proof (cases "e = []")
      case True
      have "werr b = []" using w(9) True by blast
      then have "dsize df1 + 12 = int (length (logical b' fs'))"
        using good w(5) True by simp
      then have "df_ok df' fs'" "dlog df' fs' = dlog df fs @ encodeRecord ts v"
        using buffer_update [OF written(1,7) w(1,2), of "dsize df1 + 12" "bytesWritten df1 + 12"]
          written(11) True w(5) log1 by simp_all
      then show ?thesis using written True False by simp
    next
      case err: False
      have "df' = df1\<lparr>buffer := Some b', dsize := dsize df1, bytesWritten := bytesWritten df1\<rparr>"
        using written(11) err by simp
      moreover have "werr b' \<noteq> []" using w(4) err by simp
      ultimately have "df_ok df' fs'"
        "dlog df' fs' = history fs1 (Directory (options df1)) (sequence df1 - 1) @ logical b' fs'"
        using buffer_update [OF written(1,7) w(1,2), of "dsize df1" "bytesWritten df1"] by simp_all
      then show ?thesis using w(7) written(2,5,6) err False log1 written(11) by auto
    qed
  qed
qed

lemma Flush_spec:
  assumes "Flush df fs = Some (e, df', fs')" "df_ok df fs"
  shows "df_ok df' fs' \<and> dlog df' fs' = dlog df fs \<and> options df' = options df \<and> closed df' = closed df
    \<and> bytesWritten df' = bytesWritten df
    \<and> (e = [] \<longrightarrow> history fs' (Directory (options df)) (sequence df) = dlog df fs \<and> sequence df' = sequence df)"
proof (cases "closed df")
  case True
  then show ?thesis using assms by (auto simp: Flush_def)
next
  case False
  then obtain b where b: "buffer df = Some b" using assms(1) by (cases "buffer df") (simp_all add: Flush_def)
  obtain e1 b' fs1 where f: "bufio_Flush b fs = (e1, b', fs1)" by (cases "bufio_Flush b fs")
  have r: "e = e1" "fs' = fs1" "df' = df\<lparr>buffer := Some b', dsize := dsize df, bytesWritten := bytesWritten df\<rparr>"
    using assms(1) False b f by (auto simp: Flush_def)
  have reg: "is_file fs (wr b)" using assms(2) b by (simp add: df_ok_def)
  note fl = bufio_Flush_spec [OF f reg]
  have "werr b' = [] \<Longrightarrow> dsize df = int (length (logical b' fs1))"
    using fl(5,6,8) assms(2) b by (cases "werr b = []") (auto simp: df_ok_def)
  note u = buffer_update [OF assms(2) b fl(1,2) this, of "bytesWritten df"]
  have d: "dlog df' fs' = dlog df fs"
    using u(2) fl(5) dlog_open [OF assms(2) b] r by simp
  have "e = [] \<Longrightarrow> history fs' (Directory (options df)) (sequence df) = dlog df' fs'"
    using fl(7) r by (simp add: dlog_def)
  then show ?thesis using u(1) d r by simp
qed

lemma Close_spec:
  assumes "Close df fs = (e, df', fs')" "df_ok df fs" "\<not> closed df"
  shows "closed df'" "prefix (dlog df' fs') (dlog df fs)" "sequence df' = sequence df"
    "e = [] \<Longrightarrow> history fs' (Directory (options df)) (sequence df) = dlog df fs"
    "dlog df' fs' = history fs' (Directory (options df)) (sequence df)"
    "bytesWritten df' = bytesWritten df" "options df' = options df"
proof -
  have ok: "df_ok (df\<lparr>closed := True\<rparr>) fs" "dlog (df\<lparr>closed := True\<rparr>) fs = dlog df fs"
    using assms(2) by (cases "buffer df"; simp add: df_ok_def dlog_def segmentPath_def)+
  have c: "closeCurrentSegment (df\<lparr>closed := True\<rparr>) fs = (e, df', fs')"
    using assms(1,3) by (simp add: Close_def)
  note cl = closeCurrentSegment_log [OF c ok(1)]
  show "closed df'" "prefix (dlog df' fs') (dlog df fs)" "sequence df' = sequence df"
    "dlog df' fs' = history fs' (Directory (options df)) (sequence df)" "bytesWritten df' = bytesWritten df"
    "options df' = options df"
    using cl(3) ok(2) by (simp_all add: cl(1) dlog_def)
  then show "e = [] \<Longrightarrow> history fs' (Directory (options df)) (sequence df) = dlog df fs"
    using cl(4) ok(2) by simp
qed

section \<open>On a disk that works\<close>

definition disk_ok :: "path \<Rightarrow> FS \<Rightarrow> bool" where
  "disk_ok dir fs \<longleftrightarrow> no_faults fs \<and> is_dir fs dir \<and> (\<forall>k. \<not> is_dir fs (seg_path dir k))"

definition healthy :: "DataFile \<Rightarrow> FS \<Rightarrow> bool" where
  "healthy df fs \<longleftrightarrow> df_ok df fs \<and> \<not> closed df \<and> disk_ok (Directory (options df)) fs
     \<and> (\<exists>b. buffer df = Some b \<and> werr b = [])"

lemma disk_ok_same: "same_elsewhere p fs fs' \<Longrightarrow> is_file fs p \<Longrightarrow> disk_ok dir fs' = disk_ok dir fs"
  using same_elsewhere_is_dir [of p fs fs'] by (simp add: disk_ok_def same_elsewhere_def no_faults_def)

lemma seg_path_not_Nil [simp]: "seg_path dir k \<noteq> []" "butlast (seg_path dir k) = dir" "last (seg_path dir k) = segmentName k"
  by (simp_all add: seg_path_def)

lemma openCurrentSegment_disk_ok:
  assumes "openCurrentSegment df fs = (e, df', fs')" "disk_ok (Directory (options df)) fs"
  shows "e = []" "disk_ok (Directory (options df)) fs'"
proof -
  let ?p = "segmentPath df" and ?dir = "Directory (options df)"
  have "lookup fs ?p \<noteq> Some DirNode" "is_dir fs (butlast ?p)" "no_faults fs" "?p \<noteq> []"
    using assms(2) by (auto simp: disk_ok_def is_dir_def segmentPath_seg)
  then have "fst (fs_OpenFile ?p createAppendReadWriteFlags fs) = Inr ?p"
    by (intro OpenFile_no_faults) simp_all
  then show e: "e = []"
    using assms(1) by (auto simp: openCurrentSegment_def split: prod.splits sum.splits)
  note os = openCurrentSegment_spec [OF assms(1)]
  have reg: "is_file fs' ?p" using os(5) e by simp
  have other: "lookup fs' q = lookup fs q" if "q \<noteq> ?p" for q using os(3) that by blast
  have "\<not> is_dir fs' (seg_path ?dir k)" for k
  proof (cases "k = sequence df")
    case True
    then show ?thesis using reg by (simp add: segmentPath_seg is_file_lookup is_dir_def)
  next
    case False
    then show ?thesis using other [of "seg_path ?dir k"] assms(2) by (simp add: segmentPath_seg is_dir_def disk_ok_def)
  qed
  moreover have "is_dir fs' ?dir"
    using assms(2) other [of ?dir] by (auto simp: disk_ok_def is_dir_def segmentPath_def)
  ultimately show "disk_ok ?dir fs'"
    using assms(2) os(2) by (simp add: disk_ok_def no_faults_def)
qed

lemma rotate_healthy:
  assumes "rotate df fs = (e, df', fs')" "healthy df fs"
  shows "e = [] \<and> healthy df' fs'"
proof -
  from assms(2) obtain b where b: "buffer df = Some b" "werr b = []" and ok: "df_ok df fs"
    and disk: "disk_ok (Directory (options df)) fs" and op: "\<not> closed df"
    by (auto simp: healthy_def)
  obtain e0 df0 fs0 where c: "closeCurrentSegment df fs = (e0, df0, fs0)"
    by (cases "closeCurrentSegment df fs")
  note cl = closeCurrentSegment_spec [OF c ok b(1)]
  have e0: "e0 = []" using cl(5) b(2) disk by (simp add: disk_ok_def)
  let ?d = "df0\<lparr>sequence := sequence df0 + 1, rotations := rotations df0 + 1, dsize := 0\<rparr>"
  have o: "openCurrentSegment ?d fs0 = (e, df', fs')"
    using assms(1) c e0 by (simp add: rotate_def)
  have "is_file fs (segmentPath df)" using ok b(1) by (simp add: df_ok_def)
  then have disk0: "disk_ok (Directory (options ?d)) fs0"
    using disk_ok_same [OF cl(2)] disk by (simp add: cl(1))
  note od = openCurrentSegment_disk_ok [OF o disk0] and rs = rotate_spec [OF assms(1) ok]
  have "\<exists>b. buffer df' = Some b \<and> werr b = []"
    using openCurrentSegment_spec(5) [OF o] od(1) by (simp add: NewWriterSize_def)
  then show ?thesis using od rs op by (simp add: healthy_def cl(1))
qed

lemma WriteRecord_healthy:
  assumes "healthy df fs"
  obtains df' fs' where "WriteRecord ts v df fs = Some ([], df', fs')" "healthy df' fs'"
proof -
  have op: "\<not> closed df" using assms by (simp add: healthy_def)
  obtain e1 df1 fs1 where r: "(if dsize df + SensorDataRecordSize > RotationSize (options df)
      then rotate df fs else ([], df, fs)) = (e1, df1, fs1)"
    by (metis prod_cases3)
  have h1: "e1 = []" "healthy df1 fs1"
    using r assms rotate_healthy [of df fs] by (auto split: if_splits)
  then obtain b where b: "buffer df1 = Some b" "werr b = []" and ok1: "df_ok df1 fs1"
    and disk: "disk_ok (Directory (options df1)) fs1" and op1: "\<not> closed df1"
    by (auto simp: healthy_def)
  obtain e2 b2 fs2 where w: "bufio_Write (encodeRecord ts v) b fs1 = (e2, b2, fs2)"
    by (cases "bufio_Write (encodeRecord ts v) b fs1")
  have reg: "is_file fs1 (wr b)" using ok1 b(1) by (simp add: df_ok_def)
  note ws = bufio_Write_spec [OF w reg]
  have e2: "e2 = []" using ws(8) disk b(2) by (simp add: disk_ok_def)
  let ?df = "df1\<lparr>buffer := Some b2, dsize := dsize df1 + SensorDataRecordSize, bytesWritten := bytesWritten df1 + 12\<rparr>"
  have res: "WriteRecord ts v df fs = Some ([], ?df, fs2)"
    unfolding WriteRecord_def r using op h1(1) b w e2 by (simp add: Let_def)
  have "df_ok ?df fs2"
    using buffer_update(1) [OF ok1 b(1) ws(1,2), of "dsize df1 + 12" "bytesWritten df1 + 12"] ws(5) e2 ok1 b
    by (simp add: df_ok_def)
  moreover have "disk_ok (Directory (options df1)) fs2"
    using disk_ok_same [OF ws(1) reg] disk by simp
  ultimately have "healthy ?df fs2" using op1 ws(4) e2 by (simp add: healthy_def)
  then show ?thesis using res that by blast
qed

lemma Flush_healthy:
  assumes "healthy df fs"
  obtains df' fs' where "Flush df fs = Some ([], df', fs')" "healthy df' fs'"
proof -
  from assms obtain b where b: "buffer df = Some b" "werr b = []" and ok: "df_ok df fs"
    and disk: "disk_ok (Directory (options df)) fs" and op: "\<not> closed df"
    by (auto simp: healthy_def)
  obtain e b' fs' where f: "bufio_Flush b fs = (e, b', fs')" by (cases "bufio_Flush b fs")
  have reg: "is_file fs (wr b)" using ok b(1) by (simp add: df_ok_def)
  note fl = bufio_Flush_spec [OF f reg]
  have e: "e = []" using fl(9) b(2) disk by (simp add: disk_ok_def)
  have res: "Flush df fs = Some ([], df\<lparr>buffer := Some b'\<rparr>, fs')"
    using op b(1) f e by (simp add: Flush_def)
  have "healthy (df\<lparr>buffer := Some b'\<rparr>) fs'"
    using Flush_spec [OF res ok] disk_ok_same [OF fl(1) reg] disk op fl(6) e by (simp add: healthy_def)
  then show ?thesis using res that by blast
qed

lemma Close_healthy:
  assumes "healthy df fs" "Close df fs = (e, df', fs')"
  shows "e = []"
proof -
  obtain b where b: "buffer (df\<lparr>closed := True\<rparr>) = Some b" "werr b = []"
    and ok: "df_ok df fs" "\<not> closed df" and nf: "no_faults fs"
    using assms(1) by (auto simp: healthy_def disk_ok_def)
  have "df_ok (df\<lparr>closed := True\<rparr>) fs"
    using ok(1) by (cases "buffer df") (simp_all add: df_ok_def segmentPath_def)
  moreover have "closeCurrentSegment (df\<lparr>closed := True\<rparr>) fs = (e, df', fs')"
    using assms(2) ok(2) by (simp add: Close_def)
  ultimately show ?thesis using closeCurrentSegment_spec(5) b nf by blast
qed

text \<open>Writing a batch of records, stopping at the first failure.\<close>

fun writeAll :: "(i64 \<times> i32) list \<Rightarrow> DataFile \<Rightarrow> FS \<Rightarrow> (go_error list \<times> DataFile \<times> FS) option" where
  "writeAll [] df fs = Some ([], df, fs)"
| "writeAll ((ts, v) # rs) df fs =
     (case WriteRecord ts v df fs of
        None \<Rightarrow> None
      | Some (e, df, fs) \<Rightarrow> if e \<noteq> [] then Some (e, df, fs) else writeAll rs df fs)"

lemma writeAll_healthy:
  assumes "healthy df fs"
  shows "\<exists>df' fs'. writeAll rs df fs = Some ([], df', fs') \<and> healthy df' fs'
    \<and> dlog df' fs' = dlog df fs @ concat (map (\<lambda>(ts, v). encodeRecord ts v) rs)
    \<and> options df' = options df \<and> bytesWritten df' = bytesWritten df + 12 * length rs"
  using assms
proof (induction rs arbitrary: df fs)
  case Nil
  then show ?case by simp
next
  case (Cons r rs)
  obtain ts v where r: "r = (ts, v)" by (cases r)
  obtain df1 fs1 where w: "WriteRecord ts v df fs = Some ([], df1, fs1)" "healthy df1 fs1"
    by (rule WriteRecord_healthy [OF Cons.prems])
  have "df_ok df fs" using Cons.prems by (simp add: healthy_def)
  note ws = WriteRecord_spec [OF w(1) this]
  show ?case using Cons.IH [OF w(2)] w(1) r ws by auto
qed

section \<open>Recovery when a data file is opened\<close>

definition whole_records :: "u8 list \<Rightarrow> u8 list" where
  "whole_records bs = take (length bs - length bs mod 12) bs"

lemma length_whole_records: "length (whole_records bs) = length bs - length bs mod 12"
  by (simp add: whole_records_def)

lemma whole_records_id: "length bs mod 12 = 0 \<Longrightarrow> whole_records bs = bs"
  by (simp add: whole_records_def)

lemma whole_records_idem [simp]: "whole_records (whole_records bs) = whole_records bs"
  by (rule whole_records_id) (simp add: length_whole_records minus_mod_eq_mult_div)

lemma fs_Stat_file:
  assumes "is_file fs p" "fs_Stat p fs = (r, fs')"
  shows "fs' = tick fs" "r = Inr (int (length (stored fs p))) \<or> (\<exists>e. r = Inl e)"
    "no_faults fs \<Longrightarrow> r = Inr (int (length (stored fs p)))"
  using assms unfolding is_file_lookup by (auto simp: fs_Stat_def split: option.splits)

lemma file_Truncate_eq:
  assumes "file_Truncate h n fs = (e, fs')" "is_file fs h" "n \<le> length (stored fs h)"
  shows "(e = [] \<and> fs' = set_node h (RegFile (take n (stored fs h))) (tick fs)) \<or> (e \<noteq> [] \<and> fs' = tick fs \<and> \<not> no_faults fs)"
  using assms unfolding is_file_lookup [of fs]
  by (auto simp: file_Truncate_def split: option.splits dest: no_faults_now)

lemma file_Truncate_spec:
  assumes "file_Truncate h n fs = (e, fs')" "is_file fs h" "n \<le> length (stored fs h)"
  shows "same_elsewhere h fs fs'" "e = [] \<Longrightarrow> stored fs' h = take n (stored fs h)"
    "no_faults fs \<Longrightarrow> e = []" "e \<noteq> [] \<Longrightarrow> stored fs' h = stored fs h"
  using file_Truncate_eq [OF assms] assms(2) by (auto simp: same_elsewhere_def fs_simps fun_eq_iff split: if_splits)

lemma repairSegment_spec:
  assumes "repairSegment p fs = (r, fs')" "is_file fs p"
  shows "same_elsewhere p fs fs'"
    "r = Inr sz \<Longrightarrow> stored fs' p = whole_records (stored fs p) \<and> sz = int (length (whole_records (stored fs p)))"
    "no_faults fs \<Longrightarrow> \<exists>sz. r = Inr sz"
    "stored fs' p = stored fs p \<or> stored fs' p = whole_records (stored fs p)"
proof -
  let ?bs = "stored fs p"
  define n where "n = length ?bs - length ?bs mod 12"
  obtain r1 fs1 where st: "fs_Stat p fs = (r1, fs1)" by (cases "fs_Stat p fs")
  note s1 = fs_Stat_file [OF assms(2) st]
  have reg1: "is_file fs1 p" and same1: "same_elsewhere p fs fs1" and st1: "stored fs1 = stored fs"
    using s1(1) assms(2) by (simp_all add: same_elsewhere_def fs_simps)
  have goal: "same_elsewhere p fs fs' \<and>
    (r = Inr sz \<longrightarrow> stored fs' p = whole_records (stored fs p) \<and> sz = int (length (whole_records (stored fs p))))
    \<and> (no_faults fs \<longrightarrow> (\<exists>sz. r = Inr sz))
    \<and> (stored fs' p = stored fs p \<or> stored fs' p = whole_records (stored fs p))"
  proof (cases r1)
    case (Inl e)
    then show ?thesis using assms(1) st s1(3) same1 st1 by (auto simp: repairSegment_def)
  next
    case (Inr m)
    then have m: "m = int (length ?bs)" using s1(2) by simp
    then have mm: "m mod 12 = int (length ?bs mod 12)" by (simp add: zmod_int)
    show ?thesis
    proof (cases "length ?bs mod 12 = 0")
      case True
      then have "m mod 12 = 0" using mm by simp
      then have "r = Inr m" "fs' = fs1" using assms(1) st Inr by (auto simp: repairSegment_def)
      then show ?thesis using same1 st1 m True by (auto simp: whole_records_id)
    next
      case False
      have neq: "m mod 12 \<noteq> 0" using mm False by simp
      have sz: "m - m mod 12 = int n" using mm m by (simp add: n_def)
      have n: "n \<le> length ?bs" by (simp add: n_def)
      obtain r2 fs2 where op: "fs_OpenFile p readWriteFlags fs1 = (r2, fs2)"
        by (cases "fs_OpenFile p readWriteFlags fs1")
      have op2: "r2 = Inr p \<or> (\<exists>e. r2 = Inl e)" "lookup fs2 = lookup fs1" "faults fs2 = faults fs1"
        "no_faults fs1 \<Longrightarrow> r2 = Inr p"
        using op reg1 unfolding is_file_lookup
        by (auto simp: fs_OpenFile_def fs_simps fun_eq_iff split: option.splits)
      have same2: "same_elsewhere p fs fs2" "is_file fs2 p" "stored fs2 p = ?bs"
        using op2(2,3) same1 reg1 st1
        by (auto simp: same_elsewhere_def is_file_def stored_def fun_eq_iff)
      have nf: "no_faults fs \<Longrightarrow> no_faults fs1 \<and> no_faults fs2"
        using same1 same2(1) by (simp add: same_elsewhere_def no_faults_def)
      show ?thesis
      proof (cases r2)
        case (Inl e)
        then have "r = Inl e" "fs' = fs2"
          using assms(1) st Inr neq op by (simp_all add: repairSegment_def)
        then show ?thesis using same2(1,3) op2(4) nf Inl by auto
      next
        case opened: (Inr h)
        then have h: "h = p" using op2(1) by simp
        obtain e3 fs3 where tr: "file_Truncate p n fs2 = (e3, fs3)" by (cases "file_Truncate p n fs2")
        have "n \<le> length (stored fs2 p)" using n same2(3) by simp
        note t = file_Truncate_spec [OF tr same2(2) this]
        let ?s = "file_Sync p fs3"
        let ?c = "file_Close p (snd ?s)"
        have body: "(r, fs') = (if e3 \<noteq> [] then (Inl e3, snd (file_Close p fs3))
            else if fst ?s @ fst ?c \<noteq> [] then (Inl (fst ?s @ fst ?c), snd ?c)
            else (Inr (int n), snd ?c))"
          using assms(1) st Inr neq op opened tr h sz
          by (auto simp: repairSegment_def Let_def split_beta errors_Join_def split: if_splits)
        have same3: "same_elsewhere p fs fs3"
          using t(1) same2(1) by (rule same_elsewhere_trans [rotated])
        have nf3: "no_faults fs \<Longrightarrow> e3 = [] \<and> no_faults fs3"
          using nf t(3) same3 by (simp add: same_elsewhere_def no_faults_def)
        have "no_faults fs \<Longrightarrow> fst ?s @ fst ?c = []"
          using nf3 by (simp add: no_faults_results)
        moreover have "same_elsewhere p fs fs'"
          using same3 body by (auto simp: same_elsewhere_def split: if_splits)
        moreover have "r = Inr sz \<Longrightarrow> stored fs' p = take n ?bs \<and> sz = int n"
          using body t(2) same2(3) by (auto split: if_splits)
        moreover have "stored fs' p = ?bs \<or> stored fs' p = take n ?bs"
          using body t(2,4) same2(3) by (cases "e3 = []") (auto split: if_splits)
        ultimately show ?thesis using body nf3 by (auto simp: whole_records_def n_def split: if_splits)
      qed
    qed
  qed
  then show "same_elsewhere p fs fs'"
    "r = Inr sz \<Longrightarrow> stored fs' p = whole_records (stored fs p) \<and> sz = int (length (whole_records (stored fs p)))"
    "no_faults fs \<Longrightarrow> \<exists>sz. r = Inr sz"
    "stored fs' p = stored fs p \<or> stored fs' p = whole_records (stored fs p)"
    by blast+
qed

text \<open>The segments a directory listing names.\<close>

definition segs :: "(string \<times> bool) list \<Rightarrow> nat set" where
  "segs entries = {n. 1 \<le> n \<and> n < 10 ^ 8 \<and> (segmentName n, False) \<in> set entries}"

lemma segs_Nil [simp]: "segs [] = {}"
  by (simp add: segs_def)

lemma segs_Cons_skip: "parseSegmentName name = None \<or> d \<Longrightarrow> segs ((name, d) # es) = segs es"
  by (auto simp: segs_def parseSegmentName_segmentName)

lemma segs_Cons_take:
  "parseSegmentName name = Some n \<Longrightarrow> segs ((name, False) # es) = insert n (segs es)"
  using segmentName_parseSegmentName [of name n] by (auto simp: segs_def dest: segmentName_inj)

text \<open>What repair may do to a segment: nothing, or cut it to whole records.\<close>

definition repaired :: "u8 list \<Rightarrow> u8 list \<Rightarrow> bool" where
  "repaired bs bs' \<longleftrightarrow> bs' = bs \<or> bs' = whole_records bs"

lemma repaired_refl [simp]: "repaired bs bs"
  by (simp add: repaired_def)

lemma repaired_trans: "repaired a b \<Longrightarrow> repaired b c \<Longrightarrow> repaired a c"
  by (auto simp: repaired_def)

lemma repaired_whole: "repaired a b \<Longrightarrow> whole_records b = whole_records a"
  by (auto simp: repaired_def)

lemma repairLoop_files:
  assumes "repairLoop dir es found fs = (r, fs')"
    and "\<And>name. (name, False) \<in> set es \<Longrightarrow> is_file fs (dir @ [name])"
  shows "is_file fs' = is_file fs \<and> is_dir fs' = is_dir fs \<and> faults fs' = faults fs
    \<and> (\<forall>p. (\<forall>n \<in> segs es. p \<noteq> seg_path dir n) \<longrightarrow> lookup fs' p = lookup fs p)
    \<and> ((\<exists>x. r = Inr x) \<longrightarrow> (\<forall>n \<in> segs es. stored fs' (seg_path dir n) = whole_records (stored fs (seg_path dir n))))
    \<and> (no_faults fs \<longrightarrow> (\<exists>x. r = Inr x))
    \<and> (\<forall>n. repaired (stored fs (seg_path dir n)) (stored fs' (seg_path dir n)))"
  using assms
proof (induction dir es found fs arbitrary: r fs' rule: repairLoop.induct)
  case (1 dir found fs)
  then show ?case by auto
next
  case (2 dir name d es found fs)
  show ?case
  proof (cases "parseSegmentName name = None \<or> d")
    case True
    then have "repairLoop dir es found fs = (r, fs')" using 2(4) by (auto split: option.splits)
    moreover note True
    ultimately show ?thesis
      using 2(1,2) 2(5) segs_Cons_skip [OF True] by (cases "parseSegmentName name") auto
  next
    case False
    then obtain n where n: "parseSegmentName name = Some n" "\<not> d" by auto
    have name: "dir @ [name] = seg_path dir n"
      using segmentName_parseSegmentName [OF n(1)] by (simp add: seg_path_def)
    obtain r1 fs1 where rep: "repairSegment (dir @ [name]) fs = (r1, fs1)"
      by (cases "repairSegment (dir @ [name]) fs")
    have reg: "is_file fs (dir @ [name])" using 2(5) n(2) by simp
    note rs = repairSegment_spec [OF rep reg]
    have same: "is_file fs1 = is_file fs" "faults fs1 = faults fs" "is_dir fs1 = is_dir fs"
      "\<And>q. q \<noteq> seg_path dir n \<Longrightarrow> lookup fs1 q = lookup fs q"
      using rs(1) same_elsewhere_is_dir [OF rs(1) reg] by (auto simp: same_elsewhere_def name)
    have segs: "segs ((name, d) # es) = insert n (segs es)"
      using segs_Cons_take [OF n(1)] n(2) by simp
    have rep1: "repaired (stored fs (seg_path dir k)) (stored fs1 (seg_path dir k))" for k
      using rs(4) same(4) [of "seg_path dir k"] by (cases "k = n") (auto simp: repaired_def name stored_def)
    show ?thesis
    proof (cases r1)
      case (Inl e)
      then have "r = Inl e" "fs' = fs1" using 2(4) n rep by simp_all
      then show ?thesis using same rs(3) Inl segs rep1 by auto
    next
      case (Inr sz)
      have rec: "repairLoop dir es (newer (n, sz) found) fs1 = (r, fs')"
        using 2(4) n rep Inr by simp
      have IH: "is_file fs' = is_file fs1 \<and> is_dir fs' = is_dir fs1 \<and> faults fs' = faults fs1
        \<and> (\<forall>p. (\<forall>n \<in> segs es. p \<noteq> seg_path dir n) \<longrightarrow> lookup fs' p = lookup fs1 p)
        \<and> ((\<exists>x. r = Inr x) \<longrightarrow> (\<forall>n \<in> segs es. stored fs' (seg_path dir n) = whole_records (stored fs1 (seg_path dir n))))
        \<and> (no_faults fs1 \<longrightarrow> (\<exists>x. r = Inr x))
        \<and> (\<forall>n. repaired (stored fs1 (seg_path dir n)) (stored fs' (seg_path dir n)))"
      proof (rule 2(3) [OF n rep [symmetric] Inr])
        show "repairLoop dir es (newer (n, sz) found) fs1 = (r, fs')" by (rule rec)
        show "is_file fs1 (dir @ [nm])" if "(nm, False) \<in> set es" for nm
          using 2(5) that same(1) by simp
      qed
      have st1: "stored fs1 (seg_path dir k) = (if k = n then whole_records (stored fs (seg_path dir n)) else stored fs (seg_path dir k))" for k
        using rs(2) Inr same(4) [of "seg_path dir k"] by (auto simp: name stored_def)
      have "stored fs' (seg_path dir n) = whole_records (stored fs (seg_path dir n))" if "\<exists>x. r = Inr x"
      proof (cases "n \<in> segs es")
        case False
        then have "\<forall>k \<in> segs es. seg_path dir n \<noteq> seg_path dir k" by auto
        then have "lookup fs' (seg_path dir n) = lookup fs1 (seg_path dir n)" using IH by blast
        then show ?thesis using st1 [of n] by (simp add: stored_def)
      qed (use IH that st1 [of n] in simp)
      moreover have "repaired (stored fs (seg_path dir k)) (stored fs' (seg_path dir k))" for k
        using IH rep1 repaired_trans by blast
      ultimately show ?thesis using IH st1 same segs by (auto simp: no_faults_def)
    qed
  qed
qed

lemma newer_simps:
  "newer (n, sz) found = Some (m, s) \<Longrightarrow> (m, s) = (n, sz) \<or> found = Some (m, s)"
  "\<exists>m s. newer (n, sz) found = Some (m, s) \<and> n \<le> m"
  "found = Some (m0, s0) \<Longrightarrow> \<exists>m s. newer (n, sz) found = Some (m, s) \<and> m0 \<le> m"
  by (auto simp: newer_def split: option.splits if_splits)

lemma repairLoop_result:
  assumes "repairLoop dir es found fs = (Inr res, fs')"
    and "\<And>name. (name, False) \<in> set es \<Longrightarrow> is_file fs (dir @ [name])"
  shows "(\<forall>m0 s0. found = Some (m0, s0) \<longrightarrow> (\<exists>m s. res = Some (m, s) \<and> m0 \<le> m))
    \<and> (\<forall>n \<in> segs es. \<exists>m s. res = Some (m, s) \<and> n \<le> m)
    \<and> (\<forall>m s. res = Some (m, s) \<longrightarrow> found = Some (m, s)
         \<or> m \<in> segs es \<and> s = int (length (whole_records (stored fs (seg_path dir m)))))"
  using assms
proof (induction dir es found fs arbitrary: fs' rule: repairLoop.induct)
  case (1 dir found fs)
  then show ?case by auto
next
  case (2 dir name d es found fs)
  show ?case
  proof (cases "parseSegmentName name = None \<or> d")
    case True
    then have "repairLoop dir es found fs = (Inr res, fs')" using 2(4) by (auto split: option.splits)
    with True show ?thesis
      using 2(1,2) 2(5) segs_Cons_skip [OF True] by (cases "parseSegmentName name") auto
  next
    case False
    then obtain n where n: "parseSegmentName name = Some n" "\<not> d" by auto
    have name: "dir @ [name] = seg_path dir n"
      using segmentName_parseSegmentName [OF n(1)] by (simp add: seg_path_def)
    obtain r1 fs1 where rep: "repairSegment (dir @ [name]) fs = (r1, fs1)"
      by (cases "repairSegment (dir @ [name]) fs")
    have reg: "is_file fs (dir @ [name])" using 2(5) n(2) by simp
    note rs = repairSegment_spec [OF rep reg]
    obtain sz where sz: "r1 = Inr sz" using 2(4) n rep by (cases r1) simp_all
    have rec: "repairLoop dir es (newer (n, sz) found) fs1 = (Inr res, fs')"
      using 2(4) n rep sz by simp
    have "is_file fs1 (dir @ [nm])" if "(nm, False) \<in> set es" for nm
      using 2(5) that rs(1) by (simp add: same_elsewhere_def)
    note IH = 2(3) [OF n rep [symmetric] sz rec this]
    have st1: "whole_records (stored fs1 (seg_path dir k)) = whole_records (stored fs (seg_path dir k))" for k
      using rs(1,2) sz same_elsewhere_stored [OF rs(1)] by (cases "k = n") (simp_all add: name)
    have segs: "segs ((name, d) # es) = insert n (segs es)"
      using segs_Cons_take [OF n(1)] n(2) by simp
    have new: "sz = int (length (whole_records (stored fs (seg_path dir n))))"
      using rs(2) sz by (simp add: name)
    have "\<forall>m s. res = Some (m, s) \<longrightarrow> found = Some (m, s)
         \<or> m \<in> insert n (segs es) \<and> s = int (length (whole_records (stored fs (seg_path dir m))))"
      using IH newer_simps(1) [of n sz found] new st1 by (metis insert_iff prod.inject)
    moreover have "\<exists>m s. res = Some (m, s) \<and> n \<le> m"
      using IH newer_simps(2) [of n sz found] by (meson order_trans)
    moreover have "\<exists>m s. res = Some (m, s) \<and> m0 \<le> m" if old: "found = Some (m0, s0)" for m0 s0
    proof -
      obtain m1 s1 where "newer (n, sz) found = Some (m1, s1)" "m0 \<le> m1"
        using newer_simps(3) [OF old] by blast
      then show ?thesis using IH by (meson order_trans)
    qed
    ultimately show ?thesis using IH segs by simp
  qed
qed

text \<open>What \<open>ReadDir\<close> lists.\<close>

lemma set_entries_of: "name \<in> set (entries_of fs p) \<longleftrightarrow> (\<exists>v. lookup fs (p @ [name]) = Some v)"
proof -
  have "name \<in> set (entries_of fs p) \<longleftrightarrow> p @ [name] \<in> fst ` set (nodes fs)"
  proof
    assume "name \<in> set (entries_of fs p)"
    then obtain q where "q \<in> fst ` set (nodes fs)" "q \<noteq> []" "butlast q = p" "last q = name"
      by (auto simp: entries_of_def)
    then show "p @ [name] \<in> fst ` set (nodes fs)" by (metis append_butlast_last_id)
  qed (force simp: entries_of_def)
  also have "\<dots> \<longleftrightarrow> lookup fs (p @ [name]) \<noteq> None"
    unfolding lookup_def by (rule iffI) (simp_all add: map_of_eq_None_iff)
  finally show ?thesis by simp
qed

lemma ReadDir_spec:
  assumes "fs_ReadDir p fs = (Inr es, fs')"
  shows "fs' = tick fs" "(name, False) \<in> set es \<longleftrightarrow> is_file fs (p @ [name])"
  using assms
  by (auto simp: fs_ReadDir_def set_entries_of is_file_def is_dir_def image_iff
      split: option.splits if_splits node.splits)

lemma discoverAndRepairSegments_spec:
  assumes "discoverAndRepairSegments opts fs = (Inr (n, sz), fs')"
  shows "\<And>k. 1 \<le> k \<Longrightarrow> k < 10 ^ 8 \<Longrightarrow>
      stored fs' (seg_path (Directory opts) k) = whole_records (stored fs (seg_path (Directory opts) k))"
    "\<And>p. (\<And>k. 1 \<le> k \<Longrightarrow> k < 10 ^ 8 \<Longrightarrow> p \<noteq> seg_path (Directory opts) k) \<Longrightarrow> lookup fs' p = lookup fs p"
    "is_file fs' = is_file fs" "is_dir fs' = is_dir fs" "faults fs' = faults fs"
    "1 \<le> n" "n < 10 ^ 8" "\<And>k. n < k \<Longrightarrow> k < 10 ^ 8 \<Longrightarrow> \<not> is_file fs (seg_path (Directory opts) k)"
    "sz = int (length (stored fs' (seg_path (Directory opts) n)))"
proof -
  let ?dir = "Directory opts"
  obtain es fs1 where rd: "fs_ReadDir ?dir fs = (Inr es, fs1)"
    using assms by (auto simp: discoverAndRepairSegments_def split: prod.splits sum.splits)
  note r = ReadDir_spec [OF rd]
  obtain res where loop: "repairLoop ?dir es None fs1 = (Inr res, fs')"
    and res: "res = None \<and> n = 1 \<and> sz = 0 \<or> res = Some (n, sz)"
    using assms rd by (auto simp: discoverAndRepairSegments_def split: prod.splits sum.splits option.splits)
  have files: "is_file fs1 (?dir @ [name])" if "(name, False) \<in> set es" for name
    using r(2) that by (simp add: r(1) fs_simps)
  note lf = repairLoop_files [OF loop files] and lr = repairLoop_result [OF loop files]
  have segs: "k \<in> segs es \<longleftrightarrow> 1 \<le> k \<and> k < 10 ^ 8 \<and> is_file fs (seg_path ?dir k)" for k
    using r(2) [of "segmentName k"] by (simp add: segs_def seg_path_def)
  show st: "stored fs' (seg_path ?dir k) = whole_records (stored fs (seg_path ?dir k))"
    if "1 \<le> k" "k < 10 ^ 8" for k
  proof (cases "is_file fs (seg_path ?dir k)")
    case True
    then show ?thesis using lf segs [of k] that by (simp add: r(1) fs_simps)
  next
    case False
    then have "\<not> is_file fs' (seg_path ?dir k)" using lf by (simp add: r(1) fs_simps)
    with False show ?thesis
      by (auto simp: is_file_def stored_def whole_records_def split: option.splits node.splits)
  qed
  show "lookup fs' p = lookup fs p" if "\<And>k. 1 \<le> k \<Longrightarrow> k < 10 ^ 8 \<Longrightarrow> p \<noteq> seg_path ?dir k" for p
    using lf segs that by (simp add: r(1) fs_simps)
  show "is_file fs' = is_file fs" "is_dir fs' = is_dir fs" "faults fs' = faults fs"
    using lf by (simp_all add: r(1) fs_simps)
  show n: "1 \<le> n" "n < 10 ^ 8"
    using res lr segs by auto
  show later: "\<not> is_file fs (seg_path ?dir k)" if "n < k" "k < 10 ^ 8" for k
    using res lr segs [of k] that n(1) by fastforce
  show "sz = int (length (stored fs' (seg_path ?dir n)))"
  proof (cases res)
    case None
    then have "\<not> is_file fs (seg_path ?dir n)" using res lr segs [of n] n by auto
    then have "stored fs (seg_path ?dir n) = []"
      by (auto simp: is_file_def stored_def split: option.splits node.splits)
    then show ?thesis using None res st [OF n] by (simp add: whole_records_def)
  next
    case (Some x)
    then show ?thesis using res lr st [OF n] by (simp add: r(1) fs_simps)
  qed
qed

text \<open>The records a directory holds before it is opened: every segment cut to whole records.\<close>

definition recovered :: "FS \<Rightarrow> path \<Rightarrow> nat \<Rightarrow> u8 list" where
  "recovered fs dir n = concat (map (\<lambda>k. whole_records (stored fs (seg_path dir k))) [1..<Suc n])"

lemma OpenDataFile_spec:
  assumes op: "OpenDataFile opts fs = (Inr df, fs')"
    and small: "\<And>k. k \<ge> 10 ^ 8 \<Longrightarrow> stored fs (seg_path (Directory opts) k) = []"
  shows "df_ok df fs'" "\<not> closed df" "Directory (options df) = Directory opts"
    "RotationSize (options df) = RotationSize opts"
    "dlog df fs' = recovered fs (Directory opts) (sequence df)"
    "\<exists>b. buffer df = Some b \<and> werr b = [] \<and> wbuf b = []" "bytesWritten df = 0"
    "\<And>k. k > sequence df \<Longrightarrow> stored fs (seg_path (Directory opts) k) = []"
    "faults fs' = faults fs"
proof -
  let ?dir = "Directory opts"
  define o' where "o' = opts\<lparr>DirectoryMode := (if DirectoryMode opts = 0 then 493 else DirectoryMode opts),
                         FileMode := (if FileMode opts = 0 then 420 else FileMode opts)\<rparr>"
  obtain fs1 n sz fs2 where mk: "fs_MkdirAll ?dir fs = ([], fs1)"
    and disc: "discoverAndRepairSegments o' fs1 = (Inr (n, sz), fs2)"
    and seg: "openCurrentSegment \<lparr>options = o', dfile = None, buffer = None, sequence = n, dsize = sz,
                          closed = False, bytesWritten = 0, rotations = 0\<rparr> fs2 = ([], df, fs')"
    and rot: "12 \<le> RotationSize opts"
    using op by (auto simp: OpenDataFile_def o'_def Let_def split: prod.splits sum.splits if_splits)
  have o': "Directory o' = ?dir" "RotationSize o' = RotationSize opts"
    by (simp_all add: o'_def)
  note m = MkdirAll_spec [OF mk] and d = discoverAndRepairSegments_spec [OF disc, unfolded o']
    and s = openCurrentSegment_spec [OF seg]
  have df: "df = \<lparr>options = o', dfile = Some (seg_path ?dir n),
      buffer = Some (NewWriterSize (seg_path ?dir n) (nat (BufferSize o'))), sequence = n, dsize = sz,
      closed = False, bytesWritten = 0, rotations = 0\<rparr>"
    and reg: "is_file fs' (seg_path ?dir n)"
    using s(5) o' by (simp_all add: segmentPath_seg)
  show "\<not> closed df" "Directory (options df) = ?dir" "RotationSize (options df) = RotationSize opts"
    "bytesWritten df = 0" "\<exists>b. buffer df = Some b \<and> werr b = [] \<and> wbuf b = []" "faults fs' = faults fs"
    using o' m(3) s(2) d(5) by (simp_all add: df NewWriterSize_def)
  have st: "stored fs' (seg_path ?dir k) = whole_records (stored fs (seg_path ?dir k))" if "1 \<le> k" for k
  proof (cases "k < 10 ^ 8")
    case True
    then show ?thesis using d(1) [OF that True] m(1) s(1) by simp
  next
    case False
    then have "seg_path ?dir k \<noteq> seg_path ?dir j" if "j < 10 ^ 8" for j using that by auto
    then have "lookup fs2 (seg_path ?dir k) = lookup fs1 (seg_path ?dir k)" by (intro d(2)) blast
    then have "stored fs' (seg_path ?dir k) = stored fs (seg_path ?dir k)"
      using s(1) m(1) by (metis stored_def)
    then show ?thesis using small [of k] False by (simp add: whole_records_def)
  qed
  show later: "stored fs (seg_path ?dir k) = []" if "k > sequence df" for k
  proof (cases "k < 10 ^ 8")
    case True
    then have "\<not> is_file fs (seg_path ?dir k)" using d(8) [of k] that m(2) by (simp add: df)
    then show ?thesis by (auto simp: is_file_def stored_def split: option.splits node.splits)
  qed (use small in simp)
  have "history fs' ?dir n = recovered fs ?dir n"
    unfolding history_def recovered_def by (rule arg_cong [where f = concat], rule map_cong) (use st in auto)
  then show "dlog df fs' = recovered fs ?dir (sequence df)"
    using o' by (simp add: dlog_def df NewWriterSize_def)
  have "stored fs' (seg_path ?dir k) = []" if "k > n" for k
    using st [of k] later [of k] that by (simp add: df whole_records_def)
  then show "df_ok df fs'"
    using rot reg o' d(6,9) s(1) by (simp add: df_ok_def df NewWriterSize_def logical_def segmentPath_seg)
qed

lemma OpenDataFile_succeeds:
  assumes opts: "TrimSpace (path_string (Directory opts)) \<noteq> []" "1 \<le> BufferSize opts" "12 \<le> RotationSize opts"
    and fs: "no_faults fs" "\<And>q. prefix q (Directory opts) \<Longrightarrow> \<not> is_file fs q"
      "\<And>k. \<not> is_dir fs (seg_path (Directory opts) k)"
  obtains df fs' where "OpenDataFile opts fs = (Inr df, fs')" "disk_ok (Directory opts) fs'"
proof -
  let ?dir = "Directory opts"
  define o' where "o' = opts\<lparr>DirectoryMode := (if DirectoryMode opts = 0 then 493 else DirectoryMode opts),
                         FileMode := (if FileMode opts = 0 then 420 else FileMode opts)\<rparr>"
  have o': "Directory o' = ?dir" "RotationSize o' = RotationSize opts" by (simp_all add: o'_def)
  obtain e1 fs1 where mk: "fs_MkdirAll ?dir fs = (e1, fs1)" by (cases "fs_MkdirAll ?dir fs")
  note m = MkdirAll_spec [OF mk]
  have e1: "e1 = []" using m(6) fs(1,2) by blast
  have nf1: "no_faults fs1" using m(3) fs(1) by (simp add: no_faults_def)
  have nd1: "\<not> is_dir fs1 (seg_path ?dir k)" for k
    using m(4) [of "seg_path ?dir k"] fs(3) [of k] by (simp add: is_dir_def seg_path_def)
  obtain es where rd: "fs_ReadDir ?dir fs1 = (Inr es, tick fs1)"
    using m(5) e1 nf1 by (simp add: fs_ReadDir_def)
  have files: "is_file (tick fs1) (?dir @ [name])" if "(name, False) \<in> set es" for name
    using ReadDir_spec(2) [OF rd] that by (simp add: fs_simps)
  obtain r fs2 where loop: "repairLoop ?dir es None (tick fs1) = (r, fs2)"
    by (cases "repairLoop ?dir es None (tick fs1)")
  note lf = repairLoop_files [OF loop files]
  obtain res where res: "r = Inr res" using lf nf1 by (auto simp: fs_simps)
  obtain n sz where disc: "discoverAndRepairSegments o' fs1 = (Inr (n, sz), fs2)"
    using rd loop res o' by (cases res) (auto simp: discoverAndRepairSegments_def)
  let ?df = "\<lparr>options = o', dfile = None, buffer = None, sequence = n, dsize = sz,
              closed = False, bytesWritten = 0, rotations = 0\<rparr>"
  have "disk_ok ?dir fs2"
    using lf m(5) e1 nf1 nd1 by (simp add: disk_ok_def fs_simps no_faults_def)
  moreover obtain e3 df fs3 where seg: "openCurrentSegment ?df fs2 = (e3, df, fs3)"
    by (cases "openCurrentSegment ?df fs2")
  ultimately have e3: "e3 = []" "disk_ok ?dir fs3"
    using openCurrentSegment_disk_ok [OF seg] o' by simp_all
  have "OpenDataFile opts fs = (Inr df, fs3)"
    using opts mk e1 disc seg e3(1) unfolding OpenDataFile_def o'_def by (simp add: Let_def)
  then show ?thesis using that e3(2) by blast
qed

section \<open>Data files do not interfere\<close>

text \<open>An operation of a data file touches the segments of its own directory only.\<close>

definition frame :: "path \<Rightarrow> FS \<Rightarrow> FS \<Rightarrow> bool" where
  "frame dir fs fs' \<longleftrightarrow> (\<forall>q. (\<forall>k. q \<noteq> seg_path dir k) \<longrightarrow> lookup fs' q = lookup fs q)"

lemma frame_refl [simp]: "frame dir fs fs"
  by (simp add: frame_def)

lemma frame_trans: "frame dir fs fs' \<Longrightarrow> frame dir fs' fs'' \<Longrightarrow> frame dir fs fs''"
  by (simp add: frame_def)

lemma frame_same: "same_elsewhere (seg_path dir k) fs fs' \<Longrightarrow> frame dir fs fs'"
  by (auto simp: frame_def same_elsewhere_def)

lemma closeCurrentSegment_frame:
  assumes "closeCurrentSegment df fs = (e, df', fs')" "df_ok df fs"
  shows "frame (Directory (options df)) fs fs'"
proof (cases "buffer df")
  case None
  then show ?thesis using assms by (simp add: df_ok_def closeCurrentSegment_none)
next
  case (Some b)
  then show ?thesis
    using closeCurrentSegment_spec(2) [OF assms Some] frame_same by (simp add: segmentPath_seg)
qed

lemma openCurrentSegment_frame:
  "openCurrentSegment df fs = (e, df', fs') \<Longrightarrow> frame (Directory (options df)) fs fs'"
  using openCurrentSegment_spec(3) [of df fs e df' fs'] by (simp add: frame_def segmentPath_seg)

lemma rotate_frame:
  assumes "rotate df fs = (e, df', fs')" "df_ok df fs"
  shows "frame (Directory (options df)) fs fs'"
proof -
  obtain e0 df0 fs0 where c: "closeCurrentSegment df fs = (e0, df0, fs0)"
    by (cases "closeCurrentSegment df fs")
  have df0: "options df0 = options df" using closeCurrentSegment_log(1) [OF c assms(2)] by simp
  show ?thesis
    using assms(1) c closeCurrentSegment_frame [OF c assms(2)] df0 openCurrentSegment_frame frame_trans
    by (fastforce simp: rotate_def split: if_splits)
qed

lemma bufio_frame:
  assumes "df_ok df fs" "buffer df = Some b"
  shows "bufio_Write p b fs = (e, b', fs') \<Longrightarrow> frame (Directory (options df)) fs fs'"
    and "bufio_Flush b fs = (e, b', fs') \<Longrightarrow> frame (Directory (options df)) fs fs'"
  using assms bufio_Write_spec(1) [of p b fs e b' fs'] bufio_Flush_spec(1) [of b fs e b' fs'] frame_same
  by (auto simp: df_ok_def segmentPath_seg)

lemma WriteRecord_frame:
  assumes "WriteRecord ts v df fs = Some (e, df', fs')" "df_ok df fs"
  shows "frame (Directory (options df)) fs fs'"
proof -
  let ?rot = "dsize df + SensorDataRecordSize > RotationSize (options df)"
  obtain e1 df1 fs1 where r: "(if ?rot then rotate df fs else ([], df, fs)) = (e1, df1, fs1)"
    by (metis prod_cases3)
  have f1: "frame (Directory (options df)) fs fs1 \<and> df_ok df1 fs1 \<and> options df1 = options df"
  proof (cases ?rot)
    case True
    then have "rotate df fs = (e1, df1, fs1)" using r by simp
    from rotate_frame [OF this assms(2)] rotate_spec [OF this assms(2)] show ?thesis by simp
  qed (use r assms(2) in auto)
  note body = assms(1) [unfolded WriteRecord_def r]
  show ?thesis
  proof (cases "closed df \<or> e1 \<noteq> []")
    case True
    then show ?thesis using body f1 by (cases "closed df") auto
  next
    case False
    then obtain b where b: "buffer df1 = Some b" using body by (cases "buffer df1") simp_all
    obtain e2 b2 fs2 where w: "bufio_Write (encodeRecord ts v) b fs1 = (e2, b2, fs2)"
      by (cases "bufio_Write (encodeRecord ts v) b fs1")
    have "fs' = fs2" using body False b w by (auto simp: Let_def split: if_splits)
    then show ?thesis
      using f1 bufio_frame(1) [OF _ b w] frame_trans [of "Directory (options df)" fs fs1 fs2] by simp
  qed
qed

lemma Flush_frame:
  assumes "Flush df fs = Some (e, df', fs')" "df_ok df fs"
  shows "frame (Directory (options df)) fs fs'"
proof (cases "buffer df")
  case None
  then show ?thesis using assms(1) by (simp add: Flush_def split: if_splits)
next
  case (Some b)
  then show ?thesis
    using assms bufio_frame(2) [OF assms(2) Some]
    by (cases "bufio_Flush b fs") (auto simp: Flush_def split: if_splits)
qed

lemma Close_frame:
  assumes "Close df fs = (e, df', fs')" "df_ok df fs"
  shows "frame (Directory (options df)) fs fs'"
proof -
  have "df_ok (df\<lparr>closed := True\<rparr>) fs"
    using assms(2) by (cases "buffer df") (simp_all add: df_ok_def segmentPath_def)
  then show ?thesis
    using assms(1) closeCurrentSegment_frame [of "df\<lparr>closed := True\<rparr>" fs e df' fs']
    by (auto simp: Close_def split: if_splits)
qed

lemma discoverAndRepairSegments_frame:
  assumes "discoverAndRepairSegments opts fs = (r, fs')"
  shows "frame (Directory opts) fs fs'"
proof -
  let ?dir = "Directory opts"
  obtain rd fs1 where rd: "fs_ReadDir ?dir fs = (rd, fs1)" by (cases "fs_ReadDir ?dir fs")
  have t: "fs1 = tick fs" using rd by (auto simp: fs_ReadDir_def split: option.splits if_splits)
  show ?thesis
  proof (cases rd)
    case (Inl e)
    then have "fs' = fs1" using assms rd by (simp add: discoverAndRepairSegments_def)
    then show ?thesis by (simp add: frame_def t fs_simps)
  next
    case (Inr es)
    obtain l fs2 where loop: "repairLoop ?dir es None fs1 = (l, fs2)" by (cases "repairLoop ?dir es None fs1")
    have "fs' = fs2"
      using assms rd Inr loop by (auto simp: discoverAndRepairSegments_def split: sum.splits option.splits)
    moreover have "is_file fs1 (?dir @ [name])" if "(name, False) \<in> set es" for name
      using ReadDir_spec(2) [of ?dir fs es fs1 name] rd Inr that t by (simp add: fs_simps)
    ultimately show ?thesis
      using repairLoop_files [OF loop] by (simp add: frame_def t fs_simps)
  qed
qed

lemma discoverAndRepairSegments_repaired:
  assumes "discoverAndRepairSegments opts fs = (r, fs')"
  shows "repaired (stored fs (seg_path (Directory opts) k)) (stored fs' (seg_path (Directory opts) k))"
proof -
  let ?dir = "Directory opts"
  obtain rd fs1 where rd: "fs_ReadDir ?dir fs = (rd, fs1)" by (cases "fs_ReadDir ?dir fs")
  have t: "fs1 = tick fs" using rd by (auto simp: fs_ReadDir_def split: option.splits if_splits)
  show ?thesis
  proof (cases rd)
    case (Inl e)
    then have "fs' = fs1" using assms rd by (simp add: discoverAndRepairSegments_def)
    then show ?thesis by (simp add: t fs_simps)
  next
    case (Inr es)
    obtain l fs2 where loop: "repairLoop ?dir es None fs1 = (l, fs2)" by (cases "repairLoop ?dir es None fs1")
    have "fs' = fs2"
      using assms rd Inr loop by (auto simp: discoverAndRepairSegments_def split: sum.splits option.splits)
    moreover have "is_file fs1 (?dir @ [name])" if "(name, False) \<in> set es" for name
      using ReadDir_spec(2) [of ?dir fs es fs1 name] rd Inr that t by (simp add: fs_simps)
    ultimately show ?thesis
      using repairLoop_files [OF loop] by (simp add: t fs_simps)
  qed
qed

text \<open>Opening a data file may create directories, but changes no file outside its own
  directory, even when it fails.\<close>

lemma OpenDataFile_frame:
  assumes "OpenDataFile opts fs = (r, fs')" "\<And>k. q \<noteq> seg_path (Directory opts) k"
  shows "stored fs' q = stored fs q \<and> is_file fs' q = is_file fs q"
proof -
  let ?dir = "Directory opts"
  define o' where "o' = opts\<lparr>DirectoryMode := (if DirectoryMode opts = 0 then 493 else DirectoryMode opts),
                         FileMode := (if FileMode opts = 0 then 420 else FileMode opts)\<rparr>"
  have dir: "Directory o' = ?dir" by (simp add: o'_def)
  obtain e1 fs1 where mk: "fs_MkdirAll ?dir fs = (e1, fs1)" by (cases "fs_MkdirAll ?dir fs")
  obtain d fs2 where disc: "discoverAndRepairSegments o' fs1 = (d, fs2)"
    by (cases "discoverAndRepairSegments o' fs1")
  have keep: "stored fs1 q = stored fs q \<and> is_file fs1 q = is_file fs q"
    using MkdirAll_spec(1,2) [OF mk] by simp
  have "lookup fs2 q = lookup fs1 q"
    using disc discoverAndRepairSegments_frame [OF disc] assms(2) dir by (simp add: frame_def)
  then have keep2: "stored fs2 q = stored fs q \<and> is_file fs2 q = is_file fs q"
    using keep by (simp add: stored_def is_file_def)
  show ?thesis
  proof (cases "fs' = fs \<or> fs' = fs1 \<or> fs' = fs2")
    case False
    then obtain n sz e3 df where "d = Inr (n, sz)"
      "openCurrentSegment \<lparr>options = o', dfile = None, buffer = None, sequence = n, dsize = sz,
                          closed = False, bytesWritten = 0, rotations = 0\<rparr> fs2 = (e3, df, fs')"
      using assms(1) mk disc unfolding OpenDataFile_def o'_def
      by (auto simp: Let_def split: if_splits sum.splits prod.splits)
    from openCurrentSegment_frame [OF this(2)] have "lookup fs' q = lookup fs2 q"
      using assms(2) dir by (simp add: frame_def)
    then show ?thesis using keep2 by (simp add: stored_def is_file_def)
  qed (use keep keep2 in auto)
qed

lemma OpenDataFile_repaired:
  assumes "OpenDataFile opts fs = (r, fs')"
  shows "repaired (stored fs (seg_path (Directory opts) k)) (stored fs' (seg_path (Directory opts) k))"
proof -
  let ?dir = "Directory opts"
  define o' where "o' = opts\<lparr>DirectoryMode := (if DirectoryMode opts = 0 then 493 else DirectoryMode opts),
                         FileMode := (if FileMode opts = 0 then 420 else FileMode opts)\<rparr>"
  have dir: "Directory o' = ?dir" by (simp add: o'_def)
  obtain e1 fs1 where mk: "fs_MkdirAll ?dir fs = (e1, fs1)" by (cases "fs_MkdirAll ?dir fs")
  obtain d fs2 where disc: "discoverAndRepairSegments o' fs1 = (d, fs2)"
    by (cases "discoverAndRepairSegments o' fs1")
  have keep: "stored fs1 = stored fs" using MkdirAll_spec(1) [OF mk] by simp
  have rep: "repaired (stored fs (seg_path ?dir k)) (stored fs2 (seg_path ?dir k))"
    using discoverAndRepairSegments_repaired [OF disc] keep dir by simp
  show ?thesis
  proof (cases "fs' = fs \<or> fs' = fs1 \<or> fs' = fs2")
    case False
    then obtain n sz e3 df where
      "openCurrentSegment \<lparr>options = o', dfile = None, buffer = None, sequence = n, dsize = sz,
                          closed = False, bytesWritten = 0, rotations = 0\<rparr> fs2 = (e3, df, fs')"
      using assms(1) mk disc unfolding OpenDataFile_def o'_def
      by (auto simp: Let_def split: if_splits sum.splits prod.splits)
    from openCurrentSegment_spec(1) [OF this] show ?thesis using rep by simp
  qed (use keep rep in auto)
qed

lemma df_ok_frame:
  assumes "\<And>k. stored fs' (seg_path (Directory (options df)) k) = stored fs (seg_path (Directory (options df)) k)"
    and "\<And>k. is_file fs' (seg_path (Directory (options df)) k) = is_file fs (seg_path (Directory (options df)) k)"
  shows "df_ok df fs' = df_ok df fs" "dlog df fs' = dlog df fs"
    "history fs' (Directory (options df)) n = history fs (Directory (options df)) n"
proof -
  show h: "history fs' (Directory (options df)) n = history fs (Directory (options df)) n" for n
    by (simp add: history_def assms(1))
  show "dlog df fs' = dlog df fs" by (simp add: dlog_def h)
  show "df_ok df fs' = df_ok df fs"
    by (cases "buffer df") (auto simp: df_ok_def assms segmentPath_seg logical_def)
qed

lemma frame_elsewhere:
  assumes "frame dir fs fs'" "dir \<noteq> dir'"
  shows "stored fs' (seg_path dir' k) = stored fs (seg_path dir' k)"
    "is_file fs' (seg_path dir' k) = is_file fs (seg_path dir' k)"
proof -
  have "seg_path dir' k \<noteq> seg_path dir j" for j using assms(2) by (simp add: seg_path_def)
  then have "lookup fs' (seg_path dir' k) = lookup fs (seg_path dir' k)"
    using assms(1) by (simp add: frame_def)
  then show "stored fs' (seg_path dir' k) = stored fs (seg_path dir' k)"
    "is_file fs' (seg_path dir' k) = is_file fs (seg_path dir' k)"
    by (simp_all add: stored_def is_file_def)
qed

section \<open>Properties of data files\<close>

text \<open>Concrete inputs for the witnesses: an empty disk, a disk whose seventh call fails, small
  options, and a data file with one record of twelve bytes in its buffer.\<close>

abbreviation demo_opts :: DataFileOptions where
  "demo_opts \<equiv> \<lparr>Directory = [''d''], BufferSize = 5, RotationSize = 24, DirectoryMode = 0, FileMode = 0\<rparr>"

abbreviation demo_fs :: FS where
  "demo_fs \<equiv> \<lparr>nodes = [], ops = 0, faults = \<lambda>_. None\<rparr>"

abbreviation demo_path :: path where
  "demo_path \<equiv> [''d'', ''00000001.dat'']"

abbreviation demo_disk :: "(nat \<Rightarrow> fault option) \<Rightarrow> FS" where
  "demo_disk f \<equiv> \<lparr>nodes = [([''d''], DirNode), (demo_path, RegFile [])], ops = 0, faults = f\<rparr>"

abbreviation demo_df :: "u8 list \<Rightarrow> int \<Rightarrow> DataFile" where
  "demo_df bs rot \<equiv> \<lparr>options = \<lparr>Directory = [''d''], BufferSize = 16, RotationSize = rot, DirectoryMode = 1, FileMode = 1\<rparr>,
     dfile = Some demo_path, buffer = Some \<lparr>wr = demo_path, wbuf = bs, wcap = 16, werr = []\<rparr>,
     sequence = 1, dsize = int (length bs), closed = False, bytesWritten = 0, rotations = 0\<rparr>"

lemma segmentName_1: "segmentName 1 = ''00000001.dat''"
  by code_simp

lemma demo_df_ok:
  assumes "12 \<le> rot"
  shows "df_ok (demo_df bs rot) (demo_disk f)"
proof -
  have "segmentName k \<noteq> ''00000001.dat''" if "k > 1" for k
    using that segmentName_inj [of k 1] segmentName_1 by (metis less_irrefl)
  then show ?thesis
    using assms segmentName_1
    by (auto simp: df_ok_def segmentPath_def seg_path_def stored_def is_file_def lookup_def logical_def)
qed


lemma demo_healthy: "12 \<le> rot \<Longrightarrow> healthy (demo_df bs rot) (demo_disk (\<lambda>_. None))"
  using demo_df_ok [of rot bs "\<lambda>_. None"]
  by (auto simp: healthy_def disk_ok_def no_faults_def is_dir_def lookup_def seg_path_def)

lemma bufio_Write_sticky: "werr b \<noteq> [] \<Longrightarrow> bufio_Write p b fs = (werr b, b, fs)"
  unfolding bufio_Write_def by (subst bufio_fill.simps) simp

abbreviation encodeAll :: "(i64 \<times> i32) list \<Rightarrow> u8 list" where
  "encodeAll rs \<equiv> concat (map (\<lambda>(ts, v). encodeRecord ts v) rs)"

text \<open>
  C5. A data file is an append-only log that survives restarts. On a disk that works, opening a
  directory succeeds and recovers the whole records of every segment found there; writing any
  batch of records succeeds, rotating as often as the size limit demands; and after closing, the
  segments on disk, read in the order of their numbers, hold the recovered records followed by
  the new ones, in order and without a gap.
\<close>

theorem DataFile_log:
  assumes "TrimSpace (path_string (Directory opts)) \<noteq> []" "1 \<le> BufferSize opts" "12 \<le> RotationSize opts"
    and "no_faults fs" "\<And>q. prefix q (Directory opts) \<Longrightarrow> \<not> is_file fs q"
    and "\<And>k. \<not> is_dir fs (seg_path (Directory opts) k)"
    and "\<And>k. k \<ge> 10 ^ 8 \<Longrightarrow> stored fs (seg_path (Directory opts) k) = []"
  shows "\<exists>df fs1 df2 fs2 df3 fs3.
    OpenDataFile opts fs = (Inr df, fs1) \<and> writeAll rs df fs1 = Some ([], df2, fs2)
    \<and> Close df2 fs2 = ([], df3, fs3)
    \<and> history fs3 (Directory opts) (sequence df3)
        = recovered fs (Directory opts) (sequence df) @ encodeAll rs
    \<and> (\<forall>k > sequence df. stored fs (seg_path (Directory opts) k) = [])
    \<and> BytesWritten (Counters df3) = 12 * length rs"
proof -
  obtain df fs1 where op: "OpenDataFile opts fs = (Inr df, fs1)" and disk: "disk_ok (Directory opts) fs1"
    using OpenDataFile_succeeds [OF assms(1-6)] by blast
  note o = OpenDataFile_spec [OF op assms(7)]
  have h: "healthy df fs1" using o(1-3,6) disk by (auto simp: healthy_def)
  obtain df2 fs2 where w: "writeAll rs df fs1 = Some ([], df2, fs2)" and h2: "healthy df2 fs2"
    and log: "dlog df2 fs2 = dlog df fs1 @ encodeAll rs" and opt: "options df2 = options df"
    and cnt: "bytesWritten df2 = bytesWritten df + 12 * length rs"
    using writeAll_healthy [OF h, of rs] by auto
  obtain e df3 fs3 where c: "Close df2 fs2 = (e, df3, fs3)" by (cases "Close df2 fs2")
  have ok2: "df_ok df2 fs2" "\<not> closed df2" using h2 by (simp_all add: healthy_def)
  note cl = Close_spec [OF c ok2]
  have e: "e = []" by (rule Close_healthy [OF h2 c])
  then have "history fs3 (Directory opts) (sequence df3) = dlog df2 fs2"
    using cl(3,4) opt o(3) by simp
  then show ?thesis
    using op w c e log o(5,7,8) cl(6) cnt by (simp add: Counters_def)
qed

theorem DataFile_log_witness:
  "\<exists>df fs1 df2 fs2 df3 fs3.
    OpenDataFile demo_opts demo_fs = (Inr df, fs1) \<and> writeAll [(1, 2), (3, 4), (5, 6)] df fs1 = Some ([], df2, fs2)
    \<and> Close df2 fs2 = ([], df3, fs3)
    \<and> history fs3 [''d''] (sequence df3) = recovered demo_fs [''d''] (sequence df) @ encodeAll [(1, 2), (3, 4), (5, 6)]
    \<and> (\<forall>k > sequence df. stored demo_fs (seg_path [''d''] k) = [])
    \<and> BytesWritten (Counters df3) = 12 * length [(1 :: i64, 2 :: i32), (3, 4), (5, 6)]"
proof -
  have "TrimSpace (path_string (Directory demo_opts)) \<noteq> []" by code_simp
  from DataFile_log [OF this, of demo_fs "[(1, 2), (3, 4), (5, 6)]"] show ?thesis
    by (simp add: no_faults_def is_file_def is_dir_def stored_def lookup_def)
qed

text \<open>
  What a success of \<open>WriteRecord\<close> means, however the disk behaves: the log has grown by
  exactly the twelve bytes of the record, the segment being written is within the rotation size,
  and the byte counter has grown by twelve. After a failure the log is a prefix of that: a failed
  call can cut the log at its end, but never reorders, duplicates or overwrites records.
\<close>

theorem WriteRecord_appends:
  assumes "df_ok df fs" "WriteRecord ts v df fs = Some (e, df', fs')"
  shows "df_ok df' fs' \<and> prefix (dlog df' fs') (dlog df fs @ encodeRecord ts v)
    \<and> (e = [] \<longrightarrow> dlog df' fs' = dlog df fs @ encodeRecord ts v \<and> dsize df' \<le> RotationSize (options df')
        \<and> bytesWritten df' = bytesWritten df + 12)
    \<and> (e \<noteq> [] \<longrightarrow> bytesWritten df' = bytesWritten df)"
  using WriteRecord_spec [OF assms(2,1)] by auto

theorem WriteRecord_appends_witness:
  "\<exists>df' fs'. WriteRecord 7 9 (demo_df [] 24) (demo_disk (\<lambda>_. None)) = Some ([], df', fs')
    \<and> prefix (dlog df' fs') (dlog (demo_df [] 24) (demo_disk (\<lambda>_. None)) @ encodeRecord 7 9)"
proof -
  obtain df' fs' where w: "WriteRecord 7 9 (demo_df [] 24) (demo_disk (\<lambda>_. None)) = Some ([], df', fs')"
    by (simp add: WriteRecord_def bufio_Write_def bufio_fill.simps)
  show ?thesis using WriteRecord_appends [OF demo_df_ok w] w by simp
qed

text \<open>
  Flushing is what makes records durable: after a \<open>Flush\<close> or a \<open>Close\<close> that reports
  success, the segments on disk hold the whole log, whatever faults happened before.
\<close>

theorem Flush_Close_durable:
  assumes "df_ok df fs" "\<not> closed df"
  shows "(\<forall>df' fs'. Flush df fs = Some ([], df', fs') \<longrightarrow>
       history fs' (Directory (options df)) (sequence df) = dlog df fs \<and> dlog df' fs' = dlog df fs)
    \<and> (\<forall>df' fs'. Close df fs = ([], df', fs') \<longrightarrow>
       history fs' (Directory (options df)) (sequence df) = dlog df fs)"
  using Flush_spec [OF _ assms(1)] Close_spec(4) [OF _ assms] by blast

theorem Flush_Close_durable_witness:
  "\<exists>df' fs'. Flush (demo_df [1, 2] 24) (demo_disk (\<lambda>_. None)) = Some ([], df', fs')
    \<and> history fs' [''d''] 1 = dlog (demo_df [1, 2] 24) (demo_disk (\<lambda>_. None))"
proof -
  obtain df' fs' where w: "Flush (demo_df [1, 2] 24) (demo_disk (\<lambda>_. None)) = Some ([], df', fs')"
    by (simp add: Flush_def bufio_Flush_def file_Write_def fault_now_def)
  have "df_ok (demo_df [1, 2] 24) (demo_disk (\<lambda>_. None))" by (rule demo_df_ok) simp
  then show ?thesis using Flush_Close_durable [of "demo_df [1, 2] 24" "demo_disk (\<lambda>_. None)"] w by simp
qed

text \<open>
  C32. Crash recovery. Whatever bytes the segments hold (a crash may have cut the last record
  short), and whatever faults the disk has, a data file that opens holds every segment cut to
  whole records and nothing else, continues with the segment of the highest number, and no
  segment is left out.
\<close>

theorem OpenDataFile_recovers:
  assumes "OpenDataFile opts fs = (Inr df, fs')"
    and "\<And>k. k \<ge> 10 ^ 8 \<Longrightarrow> stored fs (seg_path (Directory opts) k) = []"
  shows "df_ok df fs' \<and> dlog df fs' = recovered fs (Directory opts) (sequence df)
    \<and> length (dlog df fs') mod 12 = 0
    \<and> (\<forall>k > sequence df. stored fs (seg_path (Directory opts) k) = [])"
proof -
  note o = OpenDataFile_spec [OF assms]
  have "length (recovered fs (Directory opts) n) mod 12 = 0" for n
  proof (induction n)
    case (Suc n)
    have "length (whole_records bs) mod 12 = 0" for bs
      by (simp add: length_whole_records minus_mod_eq_mult_div)
    then show ?case using Suc by (simp add: recovered_def mod_add_eq [symmetric])
  qed (simp add: recovered_def)
  then show ?thesis using o by simp
qed

theorem OpenDataFile_recovers_witness:
  "\<exists>df fs'. OpenDataFile demo_opts demo_fs = (Inr df, fs')
    \<and> dlog df fs' = recovered demo_fs [''d''] (sequence df)"
proof -
  have trim: "TrimSpace (path_string (Directory demo_opts)) \<noteq> []" by code_simp
  have "\<exists>df fs'. OpenDataFile demo_opts demo_fs = (Inr df, fs')"
    by (rule OpenDataFile_succeeds [OF trim, of demo_fs])
      (auto simp: no_faults_def is_file_def is_dir_def lookup_def)
  then obtain df fs' where op: "OpenDataFile demo_opts demo_fs = (Inr df, fs')" by blast
  show ?thesis using OpenDataFile_recovers [OF op] op by (simp add: stored_def lookup_def)
qed

text \<open>
  An I/O error is final for the open segment: once a \<open>WriteRecord\<close> has failed and the file is
  still open, every later \<open>WriteRecord\<close> fails with the same error and changes nothing, since
  \<open>bufio.Writer\<close> keeps its first error. Retrying a failed write can therefore never succeed.
\<close>

theorem WriteRecord_error_sticky:
  assumes "df_ok df fs" "WriteRecord ts v df fs = Some (e, df', fs')" "e \<noteq> []" "buffer df' \<noteq> None"
  shows "WriteRecord ts' v' df' fs' = Some (e, df', fs')"
proof (cases "closed df")
  case True
  then show ?thesis using assms(2) by (auto simp: WriteRecord_closed)
next
  case False
  from assms(2) this assms(1) show ?thesis
  proof (cases rule: WriteRecord_cases)
    case rotation_failed
    then show ?thesis using rotate_spec [OF rotation_failed(1) assms(1)] assms(4) by simp
  next
    case (written df1 fs1 b b')
    have "is_file fs1 (wr b)" using written(1,7) by (simp add: df_ok_def)
    then have "werr b' = e" using bufio_Write_spec(4) [OF written(10)] by simp
    then show ?thesis
      using written(4,5,11) assms(3) bufio_Write_sticky [of b' "encodeRecord ts' v'" fs']
      by (simp add: WriteRecord_def)
  qed
qed

theorem WriteRecord_error_sticky_witness:
  "\<exists>df' fs'. WriteRecord 7 9 (demo_df [1, 2, 3, 4, 5] 24) (demo_disk (\<lambda>_. Some \<lparr>errno = 28, moved = 3\<rparr>))
      = Some ([ErrOS 28], df', fs') \<and> WriteRecord 8 10 df' fs' = Some ([ErrOS 28], df', fs')"
proof -
  let ?f = "\<lambda>_. Some \<lparr>errno = 28, moved = 3\<rparr>"
  obtain df' fs' where w: "WriteRecord 7 9 (demo_df [1, 2, 3, 4, 5] 24) (demo_disk ?f) = Some ([ErrOS 28], df', fs')"
    and b: "buffer df' \<noteq> None"
    by (simp add: WriteRecord_def bufio_Write_def bufio_fill.simps bufio_Flush_def file_Write_def fault_now_def
        encodeRecord_def le_bytes_eval)
  have "df_ok (demo_df [1, 2, 3, 4, 5] 24) (demo_disk ?f)" by (rule demo_df_ok) simp
  then show ?thesis using WriteRecord_error_sticky [OF _ w _ b] w by blast
qed

text \<open>
  C34. When a rotation has closed the old segment but cannot open the next one, \<open>WriteRecord\<close>
  reports the error and leaves a data file without buffer; the next \<open>WriteRecord\<close> or \<open>Flush\<close>
  then dereferences the nil buffer and panics.
\<close>

theorem WriteRecord_panics_after_failed_rotation:
  assumes "df_ok df fs" "\<not> closed df" "WriteRecord ts v df fs = Some (e, df', fs')"
    and "sequence df' > sequence df" "buffer df' = None"
  shows "e \<noteq> [] \<and> WriteRecord ts' v' df' fs' = None \<and> Flush df' fs' = None"
proof -
  from assms(3,2,1) show ?thesis
  proof (cases rule: WriteRecord_cases)
    case rotation_failed
    obtain e0 df0 fs0 where c: "closeCurrentSegment df fs = (e0, df0, fs0)"
      by (cases "closeCurrentSegment df fs")
    note cl = closeCurrentSegment_log [OF c assms(1)]
    have e0: "e0 = []"
      using rotation_failed(1) c assms(4) by (cases "e0 = []") (auto simp: rotate_def cl(1))
    have o: "openCurrentSegment (df0\<lparr>sequence := sequence df0 + 1, rotations := rotations df0 + 1, dsize := 0\<rparr>) fs0
        = (e, df', fs')"
      using rotation_failed(1) c e0 by (simp add: rotate_def)
    have "buffer df0 = None" by (simp add: cl(1))
    note os = openNextSegment_log [OF o cl(2) this]
    have "\<not> closed df'" "12 \<le> RotationSize (options df')" "dsize df' = 0"
      using os(1,6,8) assms(2) by (simp_all add: cl(1) df_ok_def)
    then show ?thesis using rotation_failed(2) assms(5) by (simp add: WriteRecord_def Flush_def)
  next
    case (written df1 fs1 b b')
    then show ?thesis using assms(5) by (simp split: if_splits)
  qed
qed

theorem WriteRecord_panics_witness:
  "\<exists>df' fs'. WriteRecord 7 9 (demo_df [1, 2, 3] 12) (demo_disk (\<lambda>n. if n = 3 then Some \<lparr>errno = 24, moved = 0\<rparr> else None))
      = Some ([ErrOS 24], df', fs') \<and> WriteRecord 8 10 df' fs' = None \<and> Flush df' fs' = None"
proof -
  let ?f = "\<lambda>n :: nat. if n = 3 then Some \<lparr>errno = 24, moved = 0\<rparr> else None"
  obtain df' fs' where w: "WriteRecord 7 9 (demo_df [1, 2, 3] 12) (demo_disk ?f) = Some ([ErrOS 24], df', fs')"
    and s: "sequence df' > 1" "buffer df' = None"
    by (simp add: WriteRecord_def rotate_def closeCurrentSegment_def openCurrentSegment_def bufio_Flush_def
        file_Write_def file_Sync_def file_Close_def fs_OpenFile_def fault_now_def tick_def set_node_def lookup_def
        errors_Join_def)
  have "df_ok (demo_df [1, 2, 3] 12) (demo_disk ?f)" by (rule demo_df_ok) simp
  then show ?thesis using WriteRecord_panics_after_failed_rotation [OF _ _ w, of 8 10] w s by simp
qed

end
