(* ===== verification/DataStream.thy ===== *)
theory DataStream
  imports DataFile
begin

text \<open>
  \<open>sensor-server/data-stream.go\<close>: a data stream is a bounded queue with one goroutine that
  writes the queued records to a \<open>RecordWriter\<close>. The calls of the producers and the iterations
  of the goroutine's loop are handlers on one state, and their interleavings are the executions of
  the step relation \<open>ds_step\<close>. A producer holds \<open>submitMu\<close> for reading from its check of
  \<open>closed\<close> to the end of its \<open>select\<close>, and \<open>Close\<close> takes it for writing, so a \<open>Write\<close> is one
  step at the moment its \<open>select\<close> chooses.

  The writer is the Go interface \<open>RecordWriter\<close>: a record of operations on a state of any type,
  whose contract is the locale \<open>record_writer\<close>. Durations are \<open>int\<close> nanoseconds, counters
  \<open>nat\<close>; a panic in the goroutine is the outcome \<open>Panic\<close>.
\<close>

section \<open>Types\<close>

record SensorData =
  Timestamp :: i64
  DValue :: i32

record 'w RecordWriter =
  rwWriteRecord :: "i64 \<Rightarrow> i32 \<Rightarrow> 'w \<Rightarrow> (go_error list \<times> 'w) option"
  rwFlush :: "'w \<Rightarrow> (go_error list \<times> 'w) option"
  rwClose :: "'w \<Rightarrow> go_error list \<times> 'w"
  rwCounters :: "('w \<Rightarrow> DataFileCounters) option"

record DataStreamOptions =
  QueueCapacity :: int
  EnqueueWait :: int
  FlushInterval :: int
  RetryCount :: int
  InitialBackoff :: int
  MaximumBackoff :: int
  Retryable :: "(go_error list \<Rightarrow> bool) option"

record DataStreamCounters =
  Accepted :: nat
  Written :: nat
  Dropped :: nat
  Retries :: nat
  Errors :: nat
  QueueDepth :: nat
  StreamBytesWritten :: nat
  StreamRotations :: nat

text \<open>The fields of the Go struct, with the local variable \<open>dirty\<close> of \<open>run\<close> and the list
  of errors handed to \<open>OnError\<close>.\<close>

record 'w DataStream =
  writer :: 'w
  soptions :: DataStreamOptions
  queue :: "SensorData list"
  sclosed :: bool
  sdone :: bool
  closeErr :: "go_error list"
  dirty :: bool
  accepted :: nat
  written :: nat
  dropped :: nat
  retries :: nat
  serrors :: nat
  reported :: "go_error list list"

datatype 'a outcome = Blocked | Panic | Next 'a

section \<open>Producers\<close>

definition NewDataStream :: "'w \<Rightarrow> DataStreamOptions \<Rightarrow> go_error list + 'w DataStream" where
  "NewDataStream w opts =
     (if QueueCapacity opts < 1 \<or> EnqueueWait opts < 0 \<or> FlushInterval opts \<le> 0
        then Inl [ErrText ''new data stream: invalid queue or flush settings'']
      else if RetryCount opts < 0 \<or> InitialBackoff opts \<le> 0 \<or> MaximumBackoff opts < InitialBackoff opts
        then Inl [ErrText ''new data stream: invalid retry settings'']
      else Inr \<lparr>writer = w,
                soptions = opts\<lparr>Retryable := (case Retryable opts of None \<Rightarrow> Some (\<lambda>_. False) | Some f \<Rightarrow> Some f)\<rparr>,
                queue = [], sclosed = False, sdone = False, closeErr = [], dirty = False,
                accepted = 0, written = 0, dropped = 0, retries = 0, serrors = 0, reported = []\<rparr>)"

text \<open>What the \<open>select\<close> of \<open>Write\<close> takes: the send, which needs room in the queue, the
  context's end, or the timer.\<close>

datatype select_case = Send | CtxDone "go_error list" | TimerFired

definition stream_Write :: "select_case \<Rightarrow> SensorData \<Rightarrow> 'w DataStream \<Rightarrow> (go_error list \<times> 'w DataStream) outcome" where
  "stream_Write c data s =
     (if sclosed s then Next ([ErrDataStreamClosed], s\<lparr>dropped := dropped s + 1\<rparr>)
      else case c of
          Send \<Rightarrow>
            if int (length (queue s)) < QueueCapacity (soptions s)
            then Next ([], s\<lparr>queue := queue s @ [data], accepted := accepted s + 1\<rparr>)
            else Blocked
        | CtxDone e \<Rightarrow> if e = [] then Blocked else Next (e, s\<lparr>dropped := dropped s + 1\<rparr>)
        | TimerFired \<Rightarrow> Next ([ErrDataStreamFull], s\<lparr>dropped := dropped s + 1\<rparr>))"

text \<open>\<open>Close\<close>: the part under \<open>closeOnce\<close>, and the wait for \<open>done\<close>.\<close>

definition stream_Close_request :: "'w DataStream \<Rightarrow> 'w DataStream" where
  "stream_Close_request s = s\<lparr>sclosed := True\<rparr>"

definition stream_Close_result :: "'w DataStream \<Rightarrow> go_error list outcome" where
  "stream_Close_result s = (if sdone s then Next (closeErr s) else Blocked)"

definition stream_Counters :: "'w RecordWriter \<Rightarrow> 'w DataStream \<Rightarrow> DataStreamCounters" where
  "stream_Counters rw s =
     (let c = (case rwCounters rw of
                 None \<Rightarrow> \<lparr>BytesWritten = 0, Rotations = 0\<rparr>
               | Some f \<Rightarrow> f (writer s))
      in \<lparr>Accepted = accepted s, Written = written s, Dropped = dropped s, Retries = retries s,
          Errors = serrors s, QueueDepth = length (queue s),
          StreamBytesWritten = BytesWritten c, StreamRotations = Rotations c\<rparr>)"

section \<open>The goroutine\<close>

text \<open>\<open>writeWithRetry\<close>: the error, the waits between the attempts, the writer. A nil
  \<open>Retryable\<close> would panic; \<open>NewDataStream\<close> never leaves it nil.\<close>

function writeWithRetry :: "'w RecordWriter \<Rightarrow> DataStreamOptions \<Rightarrow> SensorData \<Rightarrow> int \<Rightarrow> int \<Rightarrow> 'w
    \<Rightarrow> (go_error list \<times> int list \<times> 'w) option" where
  "writeWithRetry rw opts data attempt backoff w =
     (case rwWriteRecord rw (Timestamp data) (DValue data) w of
        None \<Rightarrow> None
      | Some (err, w) \<Rightarrow>
          if err = [] then Some ([], [], w)
          else if attempt \<ge> RetryCount opts then Some (err, [], w)
          else (case Retryable opts of
              None \<Rightarrow> None
            | Some retryable \<Rightarrow>
                if \<not> retryable err then Some (err, [], w)
                else (case writeWithRetry rw opts data (attempt + 1)
                             (if 2 * backoff > MaximumBackoff opts then MaximumBackoff opts else 2 * backoff) w of
                        None \<Rightarrow> None
                      | Some (err, waits, w) \<Rightarrow> Some (err, backoff # waits, w))))"
  by pat_completeness auto
termination
  by (relation "measure (\<lambda>(rw, opts, data, attempt, backoff, w). nat (RetryCount opts - attempt))") auto

declare writeWithRetry.simps [simp del]

text \<open>The branch of the loop that received a record.\<close>

definition run_data :: "'w RecordWriter \<Rightarrow> 'w DataStream \<Rightarrow> (SensorData \<times> go_error list \<times> 'w DataStream) outcome" where
  "run_data rw s =
     (if sdone s then Blocked
      else case queue s of
        [] \<Rightarrow> Blocked
      | data # rest \<Rightarrow>
          (case writeWithRetry rw (soptions s) data 0 (InitialBackoff (soptions s)) (writer s) of
             None \<Rightarrow> Panic
           | Some (err, waits, w) \<Rightarrow>
               (let s = s\<lparr>queue := rest, writer := w, retries := retries s + length waits\<rparr> in
                if err \<noteq> []
                then Next (data, err, s\<lparr>serrors := serrors s + 1, dropped := dropped s + 1,
                                        reported := reported s @ [err]\<rparr>)
                else Next (data, [], s\<lparr>written := written s + 1, dirty := True\<rparr>))))"

text \<open>The branch of the ticker.\<close>

definition run_tick :: "'w RecordWriter \<Rightarrow> 'w DataStream \<Rightarrow> (go_error list \<times> 'w DataStream) outcome" where
  "run_tick rw s =
     (if sdone s then Blocked
      else if \<not> dirty s then Next ([], s)
      else case rwFlush rw (writer s) of
          None \<Rightarrow> Panic
        | Some (err, w) \<Rightarrow>
            if err \<noteq> [] then Next (err, s\<lparr>writer := w, serrors := serrors s + 1, reported := reported s @ [err]\<rparr>)
            else Next ([], s\<lparr>writer := w, dirty := False\<rparr>))"

definition flushIfDirty :: "'w RecordWriter \<Rightarrow> 'w DataStream \<Rightarrow> (go_error list \<times> 'w DataStream) option" where
  "flushIfDirty rw s =
     (if \<not> dirty s then Some ([], s)
      else case rwFlush rw (writer s) of
          None \<Rightarrow> None
        | Some (err, w) \<Rightarrow>
            if err \<noteq> [] then Some (err, s\<lparr>writer := w, serrors := serrors s + 1\<rparr>)
            else Some ([], s\<lparr>writer := w\<rparr>))"

text \<open>The branch of a closed and empty queue: final flush, \<open>Close\<close> of the writer, \<open>done\<close>.\<close>

definition run_finish :: "'w RecordWriter \<Rightarrow> 'w DataStream \<Rightarrow> 'w DataStream outcome" where
  "run_finish rw s =
     (if sdone s \<or> \<not> sclosed s \<or> queue s \<noteq> [] then Blocked
      else case flushIfDirty rw s of
          None \<Rightarrow> Panic
        | Some (e1, s) \<Rightarrow>
            (let (e2, w) = rwClose rw (writer s)
             in Next (s\<lparr>writer := w, closeErr := errors_Join e1 e2, sdone := True\<rparr>)))"

section \<open>Executions\<close>

datatype event =
    Accept SensorData
  | Reject SensorData "go_error list"
  | Process SensorData "go_error list"
  | Tick "go_error list"
  | CloseRequest
  | Finish

inductive ds_step :: "'w RecordWriter \<Rightarrow> 'w DataStream \<Rightarrow> event \<Rightarrow> 'w DataStream \<Rightarrow> bool" for rw where
  accept: "stream_Write c data s = Next ([], s') \<Longrightarrow> ds_step rw s (Accept data) s'"
| reject: "stream_Write c data s = Next (e, s') \<Longrightarrow> e \<noteq> [] \<Longrightarrow> ds_step rw s (Reject data e) s'"
| close: "ds_step rw s CloseRequest (stream_Close_request s)"
| process: "run_data rw s = Next (data, e, s') \<Longrightarrow> ds_step rw s (Process data e) s'"
| tick: "run_tick rw s = Next (e, s') \<Longrightarrow> ds_step rw s (Tick e) s'"
| finish: "run_finish rw s = Next s' \<Longrightarrow> ds_step rw s Finish s'"

inductive_cases ds_stepE: "ds_step rw s ev s'"

inductive ds_exec :: "'w RecordWriter \<Rightarrow> 'w DataStream \<Rightarrow> event list \<Rightarrow> 'w DataStream \<Rightarrow> bool" for rw where
  start: "ds_exec rw s [] s"
| step: "ds_exec rw s evs s' \<Longrightarrow> ds_step rw s' ev s'' \<Longrightarrow> ds_exec rw s (evs @ [ev]) s''"

text \<open>The observations made of a trace.\<close>

definition accepted_of :: "event list \<Rightarrow> SensorData list" where
  "accepted_of evs = concat (map (\<lambda>ev. case ev of Accept d \<Rightarrow> [d] | _ \<Rightarrow> []) evs)"

definition processed_of :: "event list \<Rightarrow> SensorData list" where
  "processed_of evs = concat (map (\<lambda>ev. case ev of Process d e \<Rightarrow> [d] | _ \<Rightarrow> []) evs)"

definition written_of :: "event list \<Rightarrow> SensorData list" where
  "written_of evs = concat (map (\<lambda>ev. case ev of Process d e \<Rightarrow> if e = [] then [d] else [] | _ \<Rightarrow> []) evs)"

definition lost_of :: "event list \<Rightarrow> SensorData list" where
  "lost_of evs = concat (map (\<lambda>ev. case ev of Process d e \<Rightarrow> if e = [] then [] else [d] | _ \<Rightarrow> []) evs)"

definition rejected_of :: "event list \<Rightarrow> SensorData list" where
  "rejected_of evs = concat (map (\<lambda>ev. case ev of Reject d e \<Rightarrow> [d] | _ \<Rightarrow> []) evs)"

lemmas trace_defs = accepted_of_def processed_of_def written_of_def lost_of_def rejected_of_def

section \<open>Retrying\<close>

lemma writeWithRetry_bounds:
  assumes "writeWithRetry rw opts data attempt backoff w = Some (e, waits, w')"
    and "0 < backoff" "backoff \<le> MaximumBackoff opts"
  shows "int (length waits) \<le> max 0 (RetryCount opts - attempt)
    \<and> (\<forall>i < length waits. waits ! i = min (backoff * 2 ^ i) (MaximumBackoff opts))"
  using assms
proof (induction rw opts data attempt backoff w arbitrary: e waits w' rule: writeWithRetry.induct)
  case (1 rw opts data attempt backoff w)
  obtain e1 w1 where wr: "rwWriteRecord rw (Timestamp data) (DValue data) w = Some (e1, w1)"
    using 1(2) by (subst (asm) writeWithRetry.simps) (auto split: option.splits)
  show ?case
  proof (cases "e1 = [] \<or> attempt \<ge> RetryCount opts \<or> Retryable opts = None \<or> \<not> the (Retryable opts) e1")
    case True
    then have "waits = []"
      using 1(2) wr by (subst (asm) writeWithRetry.simps) (auto split: if_splits option.splits)
    then show ?thesis by simp
  next
    case False
    then obtain f where f: "Retryable opts = Some f" "f e1" by auto
    let ?b = "if 2 * backoff > MaximumBackoff opts then MaximumBackoff opts else 2 * backoff"
    obtain ws where rec: "writeWithRetry rw opts data (attempt + 1) ?b w1 = Some (e, ws, w')"
      and ws: "waits = backoff # ws"
      using 1(2) wr f False by (subst (asm) writeWithRetry.simps) (auto split: option.splits)
    have b: "0 < ?b" "?b \<le> MaximumBackoff opts" using 1(3,4) by auto
    have IH: "int (length ws) \<le> max 0 (RetryCount opts - (attempt + 1))"
      "\<forall>i < length ws. ws ! i = min (?b * 2 ^ i) (MaximumBackoff opts)"
      using 1(1) [OF wr refl _ _ f(1) _ rec b] False f by auto
    have step: "min (?b * 2 ^ i) (MaximumBackoff opts) = min (backoff * 2 ^ Suc i) (MaximumBackoff opts)" for i
    proof (cases "2 * backoff > MaximumBackoff opts")
      case True
      have "MaximumBackoff opts * 1 \<le> MaximumBackoff opts * 2 ^ i"
        using 1(3,4) by (intro mult_left_mono) simp_all
      moreover have "2 * backoff * 1 \<le> 2 * backoff * 2 ^ i"
        using 1(3) by (intro mult_left_mono) simp_all
      ultimately show ?thesis using True by (simp add: mult.assoc mult.left_commute)
    qed (simp add: mult.left_commute)
    have "waits ! i = min (backoff * 2 ^ i) (MaximumBackoff opts)" if "i < length waits" for i
      using that IH(2) step 1(4) ws by (cases i) auto
    then show ?thesis using IH(1) ws False by auto
  qed
qed

text \<open>The outcome of \<open>writeWithRetry\<close> is that of its last attempt, which started from a state
  that failed attempts led to.\<close>

lemma writeWithRetry_last:
  assumes "writeWithRetry rw opts data attempt backoff w = Some (e, waits, w')" "P w"
    and "\<And>w e w'. P w \<Longrightarrow> rwWriteRecord rw (Timestamp data) (DValue data) w = Some (e, w') \<Longrightarrow> e \<noteq> [] \<Longrightarrow> P w'"
  shows "\<exists>w0. P w0 \<and> rwWriteRecord rw (Timestamp data) (DValue data) w0 = Some (e, w') \<and> (waits = [] \<longrightarrow> w0 = w)"
  using assms
proof (induction rw opts data attempt backoff w arbitrary: waits rule: writeWithRetry.induct)
  case (1 rw opts data attempt backoff w)
  obtain e1 w1 where wr: "rwWriteRecord rw (Timestamp data) (DValue data) w = Some (e1, w1)"
    using 1(2) by (subst (asm) writeWithRetry.simps) (auto split: option.splits)
  show ?case
  proof (cases "e1 = [] \<or> attempt \<ge> RetryCount opts \<or> Retryable opts = None \<or> \<not> the (Retryable opts) e1")
    case True
    then have "e = e1 \<and> w' = w1"
      using 1(2) wr by (subst (asm) writeWithRetry.simps) (auto split: if_splits option.splits)
    then show ?thesis using wr 1(3) by auto
  next
    case False
    then obtain f where f: "Retryable opts = Some f" "f e1" by auto
    obtain ws where rec: "writeWithRetry rw opts data (attempt + 1)
        (if 2 * backoff > MaximumBackoff opts then MaximumBackoff opts else 2 * backoff) w1 = Some (e, ws, w')"
      and ws: "waits = backoff # ws"
      using 1(2) wr f False by (subst (asm) writeWithRetry.simps) (auto split: option.splits)
    have "P w1" using 1(4) [OF 1(3) wr] False by simp
    have c: "\<not> RetryCount opts \<le> attempt" "\<not> \<not> f e1" "e1 \<noteq> []" using False f by auto
    have "\<exists>w0. P w0 \<and> rwWriteRecord rw (Timestamp data) (DValue data) w0 = Some (e, w') \<and> (ws = [] \<longrightarrow> w0 = w1)"
      by (rule 1(1) [OF wr refl c(3,1) f(1) c(2) rec \<open>P w1\<close>]) (erule (2) 1(4))
    then show ?thesis using ws by blast
  qed
qed

section \<open>Nothing is lost silently\<close>

lemma trace_Nil [simp]:
  "accepted_of [] = []" "processed_of [] = []" "written_of [] = []" "lost_of [] = []" "rejected_of [] = []"
  by (simp_all add: trace_defs)

lemma trace_snoc [simp]:
  "accepted_of (evs @ [ev]) = accepted_of evs @ accepted_of [ev]"
  "processed_of (evs @ [ev]) = processed_of evs @ processed_of [ev]"
  "written_of (evs @ [ev]) = written_of evs @ written_of [ev]"
  "lost_of (evs @ [ev]) = lost_of evs @ lost_of [ev]"
  "rejected_of (evs @ [ev]) = rejected_of evs @ rejected_of [ev]"
  by (simp_all add: trace_defs)

text \<open>The bookkeeping invariant of a stream, relative to the trace that led to it.\<close>

definition ds_inv :: "event list \<Rightarrow> 'w DataStream \<Rightarrow> bool" where
  "ds_inv evs s \<longleftrightarrow>
     accepted_of evs = processed_of evs @ queue s
     \<and> length (processed_of evs) = length (written_of evs) + length (lost_of evs)
     \<and> accepted s = length (accepted_of evs) \<and> written s = length (written_of evs)
     \<and> dropped s = length (rejected_of evs) + length (lost_of evs)
     \<and> int (length (queue s)) \<le> QueueCapacity (soptions s)
     \<and> (sdone s \<longrightarrow> sclosed s \<and> queue s = [])"

lemma stream_Write_cases:
  assumes "stream_Write c data s = Next (e, s')"
  obtains (sent) "e = []" "\<not> sclosed s" "int (length (queue s)) < QueueCapacity (soptions s)"
      "s' = s\<lparr>queue := queue s @ [data], accepted := accepted s + 1\<rparr>"
    | (refused) "e \<noteq> []" "s' = s\<lparr>dropped := dropped s + 1\<rparr>"
  using assms by (auto simp: stream_Write_def split: if_splits select_case.splits)

lemma run_data_cases:
  assumes "run_data rw s = Next (data, e, s')"
  obtains rest waits w where "\<not> sdone s" "queue s = data # rest"
    "writeWithRetry rw (soptions s) data 0 (InitialBackoff (soptions s)) (writer s) = Some (e, waits, w)"
    "s' = (if e \<noteq> [] then s\<lparr>queue := rest, writer := w, retries := retries s + length waits,
                             serrors := serrors s + 1, dropped := dropped s + 1, reported := reported s @ [e]\<rparr>
           else s\<lparr>queue := rest, writer := w, retries := retries s + length waits,
                  written := written s + 1, dirty := True\<rparr>)"
  using assms by (auto simp: run_data_def Let_def split: if_splits list.splits option.splits)

lemma run_tick_cases:
  assumes "run_tick rw s = Next (e, s')"
  obtains (clean) "\<not> sdone s" "e = []" "s' = s" "\<not> dirty s"
    | (flushed) w where "\<not> sdone s" "dirty s" "rwFlush rw (writer s) = Some (e, w)"
      "s' = (if e \<noteq> [] then s\<lparr>writer := w, serrors := serrors s + 1, reported := reported s @ [e]\<rparr>
             else s\<lparr>writer := w, dirty := False\<rparr>)"
  using assms by (auto simp: run_tick_def split: if_splits option.splits)

lemma run_finish_cases:
  assumes "run_finish rw s = Next s'"
  obtains e1 w1 e2 w k where "\<not> sdone s" "sclosed s" "queue s = []" "rwClose rw w1 = (e2, w)"
    "s' = s\<lparr>writer := w, serrors := k, closeErr := e1 @ e2, sdone := True\<rparr>"
    "(e1 = [] \<and> \<not> dirty s \<and> w1 = writer s) \<or> (dirty s \<and> rwFlush rw (writer s) = Some (e1, w1))"
proof -
  have g: "\<not> sdone s" "sclosed s" "queue s = []" using assms by (auto simp: run_finish_def split: if_splits)
  obtain e1 s1 where f: "flushIfDirty rw s = Some (e1, s1)"
    using assms g by (auto simp: run_finish_def split: option.splits)
  obtain e2 w where c: "rwClose rw (writer s1) = (e2, w)" by (cases "rwClose rw (writer s1)")
  have s1: "s1 = s\<lparr>writer := writer s1, serrors := serrors s1\<rparr>"
    "(e1 = [] \<and> \<not> dirty s \<and> writer s1 = writer s) \<or> (dirty s \<and> rwFlush rw (writer s) = Some (e1, writer s1))"
    using f by (auto simp: flushIfDirty_def split: if_splits option.splits)
  have "s' = s1\<lparr>writer := w, closeErr := e1 @ e2, sdone := True\<rparr>"
    using assms g f c by (simp add: run_finish_def errors_Join_def)
  also have "\<dots> = s\<lparr>writer := w, serrors := serrors s1, closeErr := e1 @ e2, sdone := True\<rparr>"
    by (subst s1(1)) simp
  finally show ?thesis using that g c s1(2) by blast
qed

lemma ds_step_inv [inv_intros]:
  assumes "ds_step rw s ev s'" "ds_inv evs s"
  shows "ds_inv (evs @ [ev]) s'"
  using assms(1)
proof cases
  case (accept c data)
  then show ?thesis
    by (elim stream_Write_cases) (use assms(2) in \<open>auto simp: ds_inv_def trace_defs\<close>)
next
  case (reject c data e)
  from reject(2) show ?thesis
    by (cases rule: stream_Write_cases) (use assms(2) reject in \<open>auto simp: ds_inv_def trace_defs\<close>)
next
  case close
  then show ?thesis using assms(2) by (auto simp: ds_inv_def trace_defs stream_Close_request_def)
next
  case (process data e)
  from process(2) show ?thesis
    by (cases rule: run_data_cases) (use assms(2) process in \<open>auto simp: ds_inv_def trace_defs\<close>)
next
  case (tick e)
  from tick(2) show ?thesis
    by (cases rule: run_tick_cases) (use assms(2) tick in \<open>auto simp: ds_inv_def trace_defs\<close>)
next
  case finish
  from finish(2) show ?thesis
    by (cases rule: run_finish_cases) (use assms(2) finish(1) in \<open>auto simp: ds_inv_def trace_defs\<close>)
qed

lemma NewDataStream_inv:
  "NewDataStream w opts = Inr s \<Longrightarrow> ds_inv [] s \<and> writer s = w \<and> QueueCapacity (soptions s) = QueueCapacity opts"
  by (auto simp: NewDataStream_def ds_inv_def split: if_splits)

lemma ds_exec_inv:
  assumes "ds_exec rw s0 evs s" "NewDataStream w opts = Inr s0"
  shows "ds_inv evs s"
  using assms by (induction rule: ds_exec.induct) (simp_all add: NewDataStream_inv inv_intros)

lemma ds_exec_trans: "ds_exec rw s' evs' s'' \<Longrightarrow> ds_exec rw s evs s' \<Longrightarrow> ds_exec rw s (evs @ evs') s''"
proof (induction rule: ds_exec.induct)
  case (step s' evs' s1 ev s2)
  then show ?case using ds_exec.step [of rw s "evs @ evs'" s1 ev s2] by simp
qed simp

lemma ds_exec_one: "ds_step rw s ev s' \<Longrightarrow> ds_exec rw s [ev] s'"
  using ds_exec.step [OF ds_exec.start, of rw s ev s'] by simp

section \<open>The contract of a record writer\<close>

abbreviation encode_data :: "SensorData list \<Rightarrow> u8 list" where
  "encode_data ds \<equiv> concat (map (\<lambda>d. encodeRecord (Timestamp d) (DValue d)) ds)"

text \<open>
  What a data stream relies on: \<open>wlog\<close> is everything written so far, \<open>durable\<close> the part that is
  on disk, \<open>wbytes\<close> the byte counter. A write that succeeds appends one record to the log, a flush
  or close that succeeds makes the log durable.
\<close>

locale record_writer =
  fixes rw :: "'w RecordWriter"
    and inv :: "'w \<Rightarrow> bool"
    and wlog durable :: "'w \<Rightarrow> u8 list"
    and wbytes :: "'w \<Rightarrow> nat"
  assumes write_law: "inv w \<Longrightarrow> rwWriteRecord rw ts v w = Some (e, w') \<Longrightarrow>
      inv w' \<and> wbytes w' = wbytes w + (if e = [] then 12 else 0)
      \<and> (e = [] \<longrightarrow> wlog w' = wlog w @ encodeRecord ts v)"
    and flush_law: "inv w \<Longrightarrow> rwFlush rw w = Some (e, w') \<Longrightarrow>
      inv w' \<and> wbytes w' = wbytes w \<and> wlog w' = wlog w"
    and close_law: "inv w \<Longrightarrow> rwClose rw w = (e, w') \<Longrightarrow>
      wbytes w' = wbytes w \<and> (e = [] \<longrightarrow> durable w' = wlog w)"
begin

lemma retry_law:
  assumes "writeWithRetry rw opts data attempt backoff w = Some (e, waits, w')" "inv w"
  shows "inv w' \<and> wbytes w' = wbytes w + (if e = [] then 12 else 0)
    \<and> (e = [] \<and> waits = [] \<longrightarrow> wlog w' = wlog w @ encode_data [data])"
proof -
  let ?P = "\<lambda>u. inv u \<and> wbytes u = wbytes w"
  have "?P w" using assms(2) by simp
  moreover have "\<And>u e u'. ?P u \<Longrightarrow> rwWriteRecord rw (Timestamp data) (DValue data) u = Some (e, u') \<Longrightarrow> e \<noteq> [] \<Longrightarrow> ?P u'"
    using write_law by fastforce
  ultimately obtain w0 where "?P w0" "rwWriteRecord rw (Timestamp data) (DValue data) w0 = Some (e, w')"
    "waits = [] \<longrightarrow> w0 = w"
    using writeWithRetry_last [OF assms(1), of ?P] by blast
  then show ?thesis using write_law [of w0] by auto
qed

text \<open>What the trace of a stream says about the writer's log.\<close>

definition log_inv :: "'w \<Rightarrow> event list \<Rightarrow> 'w DataStream \<Rightarrow> bool" where
  "log_inv w0 evs s \<longleftrightarrow>
     wbytes (writer s) = wbytes w0 + 12 * written s
     \<and> (\<not> sdone s \<longrightarrow> inv (writer s))
     \<and> (lost_of evs = [] \<and> retries s = 0 \<longrightarrow>
          (\<not> sdone s \<longrightarrow> wlog (writer s) = wlog w0 @ encode_data (processed_of evs))
        \<and> (sdone s \<and> closeErr s = [] \<longrightarrow> durable (writer s) = wlog w0 @ encode_data (processed_of evs)))"

lemma step_log_inv:
  assumes "ds_step rw s ev s'" "log_inv w0 evs s"
  shows "log_inv w0 (evs @ [ev]) s'"
  using assms(1)
proof cases
  case (accept c data)
  from accept(2) show ?thesis
    by (cases rule: stream_Write_cases) (use assms(2) accept(1) in \<open>auto simp: log_inv_def trace_defs\<close>)
next
  case (reject c data e)
  from reject(2) show ?thesis
    by (cases rule: stream_Write_cases) (use assms(2) reject(1) in \<open>auto simp: log_inv_def trace_defs\<close>)
next
  case close
  then show ?thesis using assms(2) by (auto simp: log_inv_def trace_defs stream_Close_request_def)
next
  case (process data e)
  from process(2) show ?thesis
  proof (cases rule: run_data_cases)
    case (1 rest waits w)
    have "inv (writer s)" using assms(2) 1(1) by (simp add: log_inv_def)
    from retry_law [OF 1(3) this] show ?thesis
      using assms(2) 1(1,4) process(1) by (auto simp: log_inv_def trace_defs)
  qed
next
  case (tick e)
  from tick(2) show ?thesis
  proof (cases rule: run_tick_cases)
    case clean
    then show ?thesis using assms(2) tick(1) by (simp add: log_inv_def) (simp add: trace_defs)
  next
    case (flushed w)
    have "inv (writer s)" using assms(2) flushed(1) by (simp add: log_inv_def)
    from flush_law [OF this flushed(3)] show ?thesis
      using assms(2) flushed(1,4) tick(1) by (auto simp: log_inv_def trace_defs)
  qed
next
  case finish
  from finish(2) show ?thesis
  proof (cases rule: run_finish_cases)
    case (1 e1 w1 e2 w k)
    have i: "inv (writer s)" using assms(2) 1(1) by (simp add: log_inv_def)
    have w1: "inv w1 \<and> wbytes w1 = wbytes (writer s) \<and> wlog w1 = wlog (writer s)"
      using 1(6) i flush_law [OF i] by blast
    then have "wbytes w = wbytes w1 \<and> (e2 = [] \<longrightarrow> durable w = wlog w1)"
      using close_law 1(4) by blast
    with w1 show ?thesis
      using assms(2) 1(1,5) finish(1) by (auto simp: log_inv_def trace_defs)
  qed
qed

lemma exec_log_inv:
  assumes "ds_exec rw s0 evs s" "log_inv w0 [] s0"
  shows "log_inv w0 evs s"
  using assms by (induction rule: ds_exec.induct) (simp_all add: step_log_inv)

lemma new_log_inv:
  assumes "NewDataStream w opts = Inr s0" "inv w"
  shows "log_inv w [] s0"
  using assms by (auto simp: NewDataStream_def log_inv_def split: if_splits)

lemma exec_counts:
  assumes "NewDataStream w opts = Inr s0" "inv w" "ds_exec rw s0 evs s"
  shows "wbytes (writer s) = wbytes w + 12 * written s"
  using exec_log_inv [OF assms(3) new_log_inv [OF assms(1,2)]] by (simp add: log_inv_def)

lemma exec_durable:
  assumes "NewDataStream w opts = Inr s0" "inv w" "ds_exec rw s0 evs s"
    and "stream_Close_result s = Next []" "lost_of evs = []" "retries s = 0"
  shows "durable (writer s) = wlog w @ encode_data (accepted_of evs)"
proof -
  have "sdone s" "closeErr s = []" using assms(4) by (auto simp: stream_Close_result_def split: if_splits)
  moreover have "accepted_of evs = processed_of evs @ queue s" "sdone s \<Longrightarrow> queue s = []"
    using ds_exec_inv [OF assms(3,1)] by (auto simp: ds_inv_def)
  ultimately show ?thesis
    using exec_log_inv [OF assms(3) new_log_inv [OF assms(1,2)]] assms(5,6) by (simp add: log_inv_def)
qed

end

text \<open>A writer that works: from a good state every operation succeeds.\<close>

locale reliable_writer = record_writer +
  fixes good :: "'a \<Rightarrow> bool"
  assumes good_write: "good w \<Longrightarrow> \<exists>w'. rwWriteRecord rw ts v w = Some ([], w') \<and> good w'"
    and good_flush: "good w \<Longrightarrow> \<exists>w'. rwFlush rw w = Some ([], w') \<and> good w'"
    and good_close: "good w \<Longrightarrow> \<exists>w'. rwClose rw w = ([], w')"
begin

text \<open>After \<open>Close\<close> has been requested, the goroutine empties the queue and ends.\<close>

lemma drains:
  assumes "good (writer s)" "\<not> sdone s" "sclosed s"
  shows "\<exists>evs s'. ds_exec rw s evs s' \<and> stream_Close_result s' = Next [] \<and> lost_of evs = []
    \<and> processed_of evs = queue s \<and> retries s' = retries s"
  using assms
proof (induction "queue s" arbitrary: s)
  case Nil
  have "\<exists>w1. good w1 \<and> ((\<not> dirty s \<and> w1 = writer s) \<or> (dirty s \<and> rwFlush rw (writer s) = Some ([], w1)))"
    using Nil(2) good_flush [of "writer s"] by auto
  then obtain w1 where w1: "good w1" "(\<not> dirty s \<and> w1 = writer s) \<or> (dirty s \<and> rwFlush rw (writer s) = Some ([], w1))"
    by blast
  obtain w where w: "rwClose rw w1 = ([], w)" using good_close [OF w1(1)] by blast
  have "run_finish rw s = Next (s\<lparr>writer := w, closeErr := [], sdone := True\<rparr>)"
    using Nil w1(2) w by (auto simp: run_finish_def flushIfDirty_def errors_Join_def)
  then have "ds_exec rw s [Finish] (s\<lparr>writer := w, closeErr := [], sdone := True\<rparr>)"
    by (intro ds_exec_one ds_step.finish)
  then show ?case using Nil(1)
    by (intro exI [of _ "[Finish]"] exI [of _ "s\<lparr>writer := w, closeErr := [], sdone := True\<rparr>"])
      (simp add: stream_Close_result_def trace_defs)
next
  case (Cons d q)
  obtain w where w: "rwWriteRecord rw (Timestamp d) (DValue d) (writer s) = Some ([], w)" "good w"
    using good_write [OF Cons(3)] by blast
  let ?s = "s\<lparr>queue := q, writer := w, retries := retries s, written := written s + 1, dirty := True\<rparr>"
  have "run_data rw s = Next (d, [], ?s)"
    using Cons(2,4) w(1) by (simp add: run_data_def Cons(2) [symmetric] writeWithRetry.simps)
  then have one: "ds_exec rw s [Process d []] ?s" by (intro ds_exec_one ds_step.process)
  obtain evs s' where "ds_exec rw ?s evs s'" "stream_Close_result s' = Next []" "lost_of evs = []"
    "processed_of evs = q" "retries s' = retries s"
    using Cons(1) [of ?s] w(2) Cons(4,5) by auto
  moreover from this(1) one have "ds_exec rw s (Process d [] # evs) s'"
    using ds_exec_trans [of rw ?s evs s' s "[Process d []]"] by simp
  ultimately show ?case using Cons(2)
    by (intro exI [of _ "Process d [] # evs"] exI [of _ s']) (auto simp: trace_defs)
qed

end

section \<open>Data files are record writers\<close>

definition file_writer :: "(DataFile \<times> FS) RecordWriter" where
  "file_writer =
     \<lparr>rwWriteRecord = \<lambda>ts v (df, fs). WriteRecord ts v df fs,
      rwFlush = \<lambda>(df, fs). Flush df fs,
      rwClose = \<lambda>(df, fs). Close df fs,
      rwCounters = Some (\<lambda>(df, fs). Counters df)\<rparr>"

interpretation fw: reliable_writer file_writer
    "\<lambda>(df, fs). df_ok df fs \<and> \<not> closed df" "\<lambda>(df, fs). dlog df fs"
    "\<lambda>(df, fs). history fs (Directory (options df)) (sequence df)" "\<lambda>(df, fs). bytesWritten df"
    "\<lambda>(df, fs). healthy df fs"
proof
  fix w w' :: "DataFile \<times> FS" and ts v e
  assume "case w of (df, fs) \<Rightarrow> df_ok df fs \<and> \<not> closed df" "rwWriteRecord file_writer ts v w = Some (e, w')"
  then show "(case w' of (df, fs) \<Rightarrow> df_ok df fs \<and> \<not> closed df)
      \<and> (case w' of (df, fs) \<Rightarrow> bytesWritten df) = (case w of (df, fs) \<Rightarrow> bytesWritten df) + (if e = [] then 12 else 0)
      \<and> (e = [] \<longrightarrow> (case w' of (df, fs) \<Rightarrow> dlog df fs) = (case w of (df, fs) \<Rightarrow> dlog df fs) @ encodeRecord ts v)"
    using WriteRecord_spec [of ts v "fst w" "snd w" e "fst w'" "snd w'"]
    by (auto simp: file_writer_def split: prod.splits)
next
  fix w w' :: "DataFile \<times> FS" and e
  assume "case w of (df, fs) \<Rightarrow> df_ok df fs \<and> \<not> closed df" "rwFlush file_writer w = Some (e, w')"
  then show "(case w' of (df, fs) \<Rightarrow> df_ok df fs \<and> \<not> closed df)
      \<and> (case w' of (df, fs) \<Rightarrow> bytesWritten df) = (case w of (df, fs) \<Rightarrow> bytesWritten df)
      \<and> (case w' of (df, fs) \<Rightarrow> dlog df fs) = (case w of (df, fs) \<Rightarrow> dlog df fs)"
    using Flush_spec [of "fst w" "snd w" e "fst w'" "snd w'"]
    by (auto simp: file_writer_def split: prod.splits)
next
  fix w w' :: "DataFile \<times> FS" and e
  assume "case w of (df, fs) \<Rightarrow> df_ok df fs \<and> \<not> closed df" "rwClose file_writer w = (e, w')"
  then show "(case w' of (df, fs) \<Rightarrow> bytesWritten df) = (case w of (df, fs) \<Rightarrow> bytesWritten df)
      \<and> (e = [] \<longrightarrow> (case w' of (df, fs) \<Rightarrow> history fs (Directory (options df)) (sequence df))
           = (case w of (df, fs) \<Rightarrow> dlog df fs))"
    using Close_spec [of "fst w" "snd w" e "fst w'" "snd w'"]
    by (auto simp: file_writer_def split: prod.splits)
next
  fix w :: "DataFile \<times> FS" and ts v
  assume "case w of (df, fs) \<Rightarrow> healthy df fs"
  then show "\<exists>w'. rwWriteRecord file_writer ts v w = Some ([], w') \<and> (case w' of (df, fs) \<Rightarrow> healthy df fs)"
    using WriteRecord_healthy [of "fst w" "snd w" ts v] by (cases w) (fastforce simp: file_writer_def)
next
  fix w :: "DataFile \<times> FS"
  assume "case w of (df, fs) \<Rightarrow> healthy df fs"
  then show "\<exists>w'. rwFlush file_writer w = Some ([], w') \<and> (case w' of (df, fs) \<Rightarrow> healthy df fs)"
    using Flush_healthy [of "fst w" "snd w"] by (cases w) (fastforce simp: file_writer_def)
next
  fix w :: "DataFile \<times> FS"
  assume "case w of (df, fs) \<Rightarrow> healthy df fs"
  then show "\<exists>w'. rwClose file_writer w = ([], w')"
    using Close_healthy [of "fst w" "snd w"]
    by (cases w, cases "Close (fst w) (snd w)") (auto simp: file_writer_def)
qed

section \<open>Properties of data streams\<close>

text \<open>
  C31. No record is lost silently. In every execution of a data stream, whatever the interleaving
  of producers, ticker, writer failures and \<open>Close\<close>: the records the goroutine has processed
  followed by those still queued are exactly the records accepted from the producers, in the order
  of their acceptance; each processed record was either written or counted as dropped; the counters
  \<open>Accepted\<close>, \<open>Written\<close> and \<open>Dropped\<close> count exactly these records; the queue never exceeds
  its capacity; and once the goroutine has ended the queue is empty.
\<close>

theorem DataStream_accounting:
  assumes "NewDataStream w opts = Inr s0" "ds_exec rw s0 evs s"
  shows "accepted_of evs = processed_of evs @ queue s
    \<and> length (processed_of evs) = length (written_of evs) + length (lost_of evs)
    \<and> Accepted (stream_Counters rw s) = length (accepted_of evs)
    \<and> Written (stream_Counters rw s) = length (written_of evs)
    \<and> Dropped (stream_Counters rw s) = length (rejected_of evs) + length (lost_of evs)
    \<and> int (QueueDepth (stream_Counters rw s)) \<le> QueueCapacity (soptions s)
    \<and> (sdone s \<longrightarrow> queue s = [])"
  using ds_exec_inv [OF assms(2,1)] by (simp add: ds_inv_def stream_Counters_def Let_def)

text \<open>Options, a record, and a stream on a small data file, for the witnesses.\<close>

abbreviation demo_sopts :: DataStreamOptions where
  "demo_sopts \<equiv> \<lparr>QueueCapacity = 2, EnqueueWait = 0, FlushInterval = 1, RetryCount = 3, InitialBackoff = 50,
     MaximumBackoff = 120, Retryable = None\<rparr>"

abbreviation demo_data :: SensorData where
  "demo_data \<equiv> \<lparr>Timestamp = 7, DValue = 9\<rparr>"

abbreviation demo_stream :: "(DataFile \<times> FS) DataStream" where
  "demo_stream \<equiv> \<lparr>writer = (demo_df [] 24, demo_disk (\<lambda>_. None)),
     soptions = demo_sopts\<lparr>Retryable := Some (\<lambda>_. False)\<rparr>, queue = [], sclosed = False, sdone = False,
     closeErr = [], dirty = False, accepted = 0, written = 0, dropped = 0, retries = 0, serrors = 0, reported = []\<rparr>"

lemma demo_stream_new: "NewDataStream (demo_df [] 24, demo_disk (\<lambda>_. None)) demo_sopts = Inr demo_stream"
  by (simp add: NewDataStream_def)

lemma demo_stream_exec:
  "ds_exec file_writer demo_stream [Accept demo_data, CloseRequest]
     (demo_stream\<lparr>queue := [demo_data], accepted := 1, sclosed := True\<rparr>)"
proof -
  have "ds_step file_writer demo_stream (Accept demo_data) (demo_stream\<lparr>queue := [demo_data], accepted := 1\<rparr>)"
    by (rule ds_step.accept [of Send]) (simp add: stream_Write_def)
  moreover have "ds_step file_writer (demo_stream\<lparr>queue := [demo_data], accepted := 1\<rparr>) CloseRequest
      (demo_stream\<lparr>queue := [demo_data], accepted := 1, sclosed := True\<rparr>)"
    using ds_step.close [of file_writer "demo_stream\<lparr>queue := [demo_data], accepted := 1\<rparr>"]
    by (simp add: stream_Close_request_def)
  ultimately show ?thesis
    using ds_exec_trans [OF ds_exec_one ds_exec_one] by fastforce
qed

theorem DataStream_accounting_witness:
  "NewDataStream (demo_df [] 24, demo_disk (\<lambda>_. None)) demo_sopts = Inr demo_stream
    \<and> accepted_of [Accept demo_data, CloseRequest] = processed_of [Accept demo_data, CloseRequest] @ [demo_data]"
  using DataStream_accounting [OF demo_stream_new demo_stream_exec] demo_stream_new by simp

text \<open>
  C12. Accepted means stored. When a data stream over a data file has been closed, \<open>Close\<close>
  returned no error and no write was reported as failed, the segments on disk hold what the file
  held before, followed by all the records the stream accepted, in the order in which it accepted
  them; and the byte counter of the data file is twelve times the number of records written.
\<close>

theorem DataStream_durable:
  assumes "NewDataStream (df, fs) opts = Inr s0" "df_ok df fs" "\<not> closed df"
    and "ds_exec file_writer s0 evs s" "writer s = (df', fs')"
  shows "bytesWritten df' = bytesWritten df + 12 * written s
    \<and> (stream_Close_result s = Next [] \<and> lost_of evs = [] \<and> retries s = 0 \<longrightarrow>
        history fs' (Directory (options df')) (sequence df') = dlog df fs @ encode_data (accepted_of evs))"
  using fw.exec_counts [OF assms(1) _ assms(4)] fw.exec_durable [OF assms(1) _ assms(4)] assms(2,3,5) by simp

theorem DataStream_durable_witness:
  "\<exists>evs s df' fs'. ds_exec file_writer demo_stream evs s \<and> writer s = (df', fs') \<and> stream_Close_result s = Next []
    \<and> accepted_of evs = [demo_data]
    \<and> history fs' (Directory (options df')) (sequence df')
        = dlog (demo_df [] 24) (demo_disk (\<lambda>_. None)) @ encode_data (accepted_of evs)"
proof -
  let ?s = "demo_stream\<lparr>queue := [demo_data], accepted := 1, sclosed := True\<rparr>"
  have h: "healthy (demo_df [] 24) (demo_disk (\<lambda>_. None))" by (rule demo_healthy) simp
  then have "\<exists>evs s. ds_exec file_writer ?s evs s \<and> stream_Close_result s = Next [] \<and> lost_of evs = []
      \<and> processed_of evs = queue ?s \<and> retries s = retries ?s"
    by (intro fw.drains) simp_all
  then obtain evs s where d: "ds_exec file_writer ?s evs s" "stream_Close_result s = Next []" "lost_of evs = []"
    "processed_of evs = [demo_data]" "retries s = 0" by auto
  let ?evs = "[Accept demo_data, CloseRequest] @ evs"
  have e: "ds_exec file_writer demo_stream ?evs s"
    by (rule ds_exec_trans [OF d(1) demo_stream_exec])
  obtain df' fs' where w: "writer s = (df', fs')" by (cases "writer s")
  have ok: "df_ok (demo_df [] 24) (demo_disk (\<lambda>_. None))" using h by (simp add: healthy_def)
  have lost: "lost_of ?evs = []" using d(3) by (simp add: trace_defs)
  have "accepted_of ?evs = processed_of ?evs @ queue s \<and> (sdone s \<longrightarrow> queue s = [])"
    using ds_exec_inv [OF e demo_stream_new] by (simp add: ds_inv_def)
  moreover have "processed_of ?evs = [demo_data]" "sdone s"
    using d(2,4) by (auto simp: trace_defs stream_Close_result_def split: if_splits)
  ultimately have acc: "accepted_of ?evs = [demo_data]" by simp
  have "history fs' (Directory (options df')) (sequence df')
      = dlog (demo_df [] 24) (demo_disk (\<lambda>_. None)) @ encode_data (accepted_of ?evs)"
    using DataStream_durable [OF demo_stream_new ok _ e w] d(2,5) lost by simp
  then show ?thesis using e w d(2) acc by blast
qed

text \<open>
  C33. Graceful shutdown terminates. On a disk that works, once \<open>Close\<close> has been requested the
  goroutine can always go on to its end: it processes every queued record in order, loses none,
  closes the file, and \<open>Close\<close> returns without error.
\<close>

theorem DataStream_drains:
  assumes "writer s = (df, fs)" "healthy df fs" "sclosed s" "\<not> sdone s"
  shows "\<exists>evs s'. ds_exec file_writer s evs s' \<and> processed_of evs = queue s \<and> lost_of evs = []
    \<and> stream_Close_result s' = Next []"
  using fw.drains [of s] assms by auto

theorem DataStream_drains_witness:
  "\<exists>evs s'. ds_exec file_writer (demo_stream\<lparr>queue := [demo_data], sclosed := True\<rparr>) evs s'
    \<and> processed_of evs = [demo_data] \<and> lost_of evs = [] \<and> stream_Close_result s' = Next []"
proof -
  have "healthy (demo_df [] 24) (demo_disk (\<lambda>_. None))" by (rule demo_healthy) simp
  then show ?thesis using DataStream_drains [of "demo_stream\<lparr>queue := [demo_data], sclosed := True\<rparr>"] by simp
qed

text \<open>
  The retry policy: a record is tried at most \<open>RetryCount\<close> more times, and the \<open>i\<close>-th wait
  is the initial backoff doubled \<open>i\<close> times, capped at the maximal backoff.
\<close>

theorem writeWithRetry_backoff:
  assumes "writeWithRetry rw opts data 0 (InitialBackoff opts) w = Some (e, waits, w')"
    and "0 \<le> RetryCount opts" "0 < InitialBackoff opts" "InitialBackoff opts \<le> MaximumBackoff opts"
  shows "int (length waits) \<le> RetryCount opts
    \<and> (\<forall>i < length waits. waits ! i = min (InitialBackoff opts * 2 ^ i) (MaximumBackoff opts))"
  using writeWithRetry_bounds [OF assms(1,3,4)] assms(2) by simp

theorem writeWithRetry_backoff_witness:
  "\<exists>waits. writeWithRetry \<lparr>rwWriteRecord = \<lambda>ts v w. Some (if w = 0 then [] else [ErrOS 5], w - 1), rwFlush = \<lambda>w. Some ([], w),
      rwClose = \<lambda>w. ([], w), rwCounters = None\<rparr> (demo_sopts\<lparr>Retryable := Some (\<lambda>_. True)\<rparr>) demo_data 0 50 (2 :: nat)
      = Some ([], waits, 0) \<and> int (length waits) \<le> 3 \<and> waits ! 1 = 100"
proof -
  let ?rw = "\<lparr>rwWriteRecord = \<lambda>ts v w. Some (if w = 0 then [] else [ErrOS 5], w - 1), rwFlush = \<lambda>w. Some ([], w),
      rwClose = \<lambda>w. ([], w), rwCounters = None\<rparr> :: nat RecordWriter"
  let ?o = "demo_sopts\<lparr>Retryable := Some (\<lambda>_. True)\<rparr>"
  have w: "writeWithRetry ?rw ?o demo_data 0 (InitialBackoff ?o) 2 = Some ([], [50, 100], 0)"
    by (simp add: writeWithRetry.simps)
  show ?thesis using writeWithRetry_backoff [OF w] w by simp
qed

end
