(* ===== verification/Config.thy ===== *)
theory Config
  imports House BinaryData "HOL-Library.Multiset"
begin

text \<open>
  \<open>sensor-server/config.go\<close>: the configuration, its defaults and validation, the immutable
  snapshot with the lookups the router uses, and the rule for reloading.

  The JSON decoder is not modelled: \<open>LoadConfig\<close> takes what its two calls of \<open>Decode\<close>
  return. Strings are those a JSON document can hold, so equal JSON texts (\<open>configsEqual\<close>) mean
  equal fields; a nil slice is \<^term>\<open>None\<close>, since JSON tells it from an empty one. Durations
  are \<open>int\<close> nanoseconds. Every validation error wraps \<open>ErrInvalidConfiguration\<close>; its
  text is dropped.
\<close>

section \<open>Types\<close>

record DeviceConfig =
  dcMAC :: string
  dcFloor :: string
  dcRoom :: string

record SensorConfig =
  scID :: SensorType
  scType :: string
  scUnit :: string

record DataStreamConfig =
  QueueCapacity :: int
  EnqueueWait :: int
  RetryCount :: int
  InitialBackoff :: int
  MaximumBackoff :: int
  WriteBufferSize :: int
  FlushInterval :: int
  RotationSize :: int

record NetworkConfig =
  MaximumTCPConnections :: int
  PayloadDeadline :: int

record LoggingConfig =
  Level :: string
  Output :: string

record Config =
  TCPAddress :: string
  UDPAddress :: string
  DataRoot :: string
  QuarantineRoot :: string
  cDevices :: "DeviceConfig list"
  cSensors :: "SensorConfig list option"
  cDataStream :: DataStreamConfig
  cNetwork :: NetworkConfig
  cLogging :: LoggingConfig
  ShutdownDeadline :: int

record Device =
  devMAC :: MACAddress
  devFloor :: FloorType
  devRoom :: RoomType

record SensorDefinition =
  sdType :: SensorType
  sdUnit :: UnitType

record ConfigSnapshot =
  snapConfig :: Config
  snapDevices :: "MACAddress \<rightharpoonup> Device"
  snapSensors :: "SensorType \<rightharpoonup> SensorDefinition"

abbreviation (input) Millisecond :: int where "Millisecond \<equiv> 1000000"
abbreviation (input) Second :: int where "Second \<equiv> 1000000000"
abbreviation (input) Minute :: int where "Minute \<equiv> 60000000000"

section \<open>MAC addresses\<close>

text \<open>
  \<open>fmt.Sscanf(part, "%02x", &parsed)\<close> on a part of two bytes: leading space is skipped (a
  newline is an error), then one or two hexadecimal digits are read, and input that is left
  over is not an error.
\<close>

definition is_blank :: "char \<Rightarrow> bool" where
  "is_blank c \<longleftrightarrow> c \<in> {CHR 0x09, CHR 0x0B, CHR 0x0C, CHR 0x0D, CHR 0x20}"

definition scan_hex_byte :: "string \<Rightarrow> u8 option" where
  "scan_hex_byte part =
     (case part of
        [a, b] \<Rightarrow>
          (case hex_val a of
             Some x \<Rightarrow> (case hex_val b of Some y \<Rightarrow> Some (of_nat (16 * x + y)) | None \<Rightarrow> Some (of_nat x))
           | None \<Rightarrow> if is_blank a then map_option of_nat (hex_val b) else None)
      | _ \<Rightarrow> None)"

fun scan_parts :: "string list \<Rightarrow> u8 list option" where
  "scan_parts [] = Some []"
| "scan_parts (p # ps) =
     (if length p \<noteq> 2 then None
      else case scan_hex_byte p of
          None \<Rightarrow> None
        | Some b \<Rightarrow> (case scan_parts ps of None \<Rightarrow> None | Some bs \<Rightarrow> Some (b # bs)))"

definition ParseMACAddress :: "string \<Rightarrow> go_error list + MACAddress" where
  "ParseMACAddress value =
     (let parts = strings_Split (CHR '':'') value in
      if length parts \<noteq> 6 then Inl [ErrText ''expected six colon-separated bytes'']
      else case scan_parts parts of
          None \<Rightarrow> Inl [ErrText ''byte must have two hexadecimal digits'']
        | Some bs \<Rightarrow> Inr (copyMAC bs))"

section \<open>Defaults\<close>

definition defaultDataStream :: "DataStreamConfig \<Rightarrow> DataStreamConfig" where
  "defaultDataStream d =
     \<lparr>QueueCapacity = (if QueueCapacity d = 0 then 512 else QueueCapacity d),
      EnqueueWait = (if EnqueueWait d = 0 then 100 * Millisecond else EnqueueWait d),
      RetryCount = (if RetryCount d = 0 then 5 else RetryCount d),
      InitialBackoff = (if InitialBackoff d = 0 then 50 * Millisecond else InitialBackoff d),
      MaximumBackoff = (if MaximumBackoff d = 0 then Second else MaximumBackoff d),
      WriteBufferSize = (if WriteBufferSize d = 0 then 64 * 1024 else WriteBufferSize d),
      FlushInterval = (if FlushInterval d = 0 then Second else FlushInterval d),
      RotationSize = (if RotationSize d = 0 then 64 * 1024 * 1024 else RotationSize d)\<rparr>"

definition applyConfigDefaults :: "Config \<Rightarrow> Config" where
  "applyConfigDefaults c =
     c\<lparr>cDataStream := defaultDataStream (cDataStream c),
       cNetwork := \<lparr>MaximumTCPConnections = (if MaximumTCPConnections (cNetwork c) = 0 then 100
                                           else MaximumTCPConnections (cNetwork c)),
                    PayloadDeadline = (if PayloadDeadline (cNetwork c) = 0 then 5 * Second
                                      else PayloadDeadline (cNetwork c))\<rparr>,
       cLogging := \<lparr>Level = (if Level (cLogging c) = [] then ''info'' else Level (cLogging c)),
                    Output = (if Output (cLogging c) = [] then ''stderr'' else Output (cLogging c))\<rparr>,
       ShutdownDeadline := (if ShutdownDeadline c = 0 then 30 * Second else ShutdownDeadline c)\<rparr>"

section \<open>Validation\<close>

abbreviation invalidConfig :: "go_error list" where
  "invalidConfig \<equiv> [ErrInvalidConfiguration]"

definition validateListenAddress :: "string \<Rightarrow> go_error list" where
  "validateListenAddress v =
     (case SplitHostPort (TrimSpace v) of
        None \<Rightarrow> invalidConfig
      | Some (host, portText) \<Rightarrow>
          (case ParseUint portText 16 of
             None \<Rightarrow> invalidConfig
           | Some port \<Rightarrow> if port = 0 then invalidConfig else []))"

definition validateRoot :: "string \<Rightarrow> go_error list" where
  "validateRoot v =
     (if TrimSpace v = [] then invalidConfig
      else if Clean_is_dot v then invalidConfig
      else [])"

fun validateDevices :: "MACAddress list \<Rightarrow> DeviceConfig list \<Rightarrow> go_error list" where
  "validateDevices seen [] = []"
| "validateDevices seen (d # ds) =
     (case ParseMACAddress (dcMAC d) of
        Inl e \<Rightarrow> invalidConfig
      | Inr mac \<Rightarrow>
          if mac \<in> set seen then invalidConfig
          else if FloorTypeFromString (dcFloor d) = FLOOR_INVALID then invalidConfig
          else if RoomTypeFromString (dcRoom d) = ROOM_INVALID then invalidConfig
          else validateDevices (mac # seen) ds)"

fun validateSensors :: "SensorType list \<Rightarrow> SensorConfig list \<Rightarrow> go_error list" where
  "validateSensors seen [] = []"
| "validateSensors seen (s # ss) =
     (if scID s = SENSOR_ID_UNKNOWN then invalidConfig
      else case map_of SensorTypeNames (scID s) of
          None \<Rightarrow> invalidConfig
        | Some name \<Rightarrow>
            if scID s \<in> set seen then invalidConfig
            else if scType s \<noteq> name then invalidConfig
            else if scUnit s \<notin> snd ` set UnitTypeToString then invalidConfig
            else validateSensors (scID s # seen) ss)"

definition oneOf :: "string \<Rightarrow> string list \<Rightarrow> bool" where
  "oneOf v allowed \<longleftrightarrow> v \<in> set allowed"

definition configured_sensors :: "Config \<Rightarrow> SensorConfig list" where
  "configured_sensors c = (case cSensors c of None \<Rightarrow> [] | Some ss \<Rightarrow> ss)"

definition validateLimits :: "Config \<Rightarrow> go_error list" where
  "validateLimits c =
     (let d = cDataStream c; n = cNetwork c; l = cLogging c in
      if QueueCapacity d < 1 then invalidConfig
      else if EnqueueWait d < 0 then invalidConfig
      else if RetryCount d < 0 then invalidConfig
      else if InitialBackoff d \<le> 0 \<or> MaximumBackoff d < InitialBackoff d then invalidConfig
      else if WriteBufferSize d < 4 * 1024 \<or> WriteBufferSize d > 1024 * 1024 then invalidConfig
      else if FlushInterval d < 100 * Millisecond \<or> FlushInterval d > Minute then invalidConfig
      else if RotationSize d < 12 then invalidConfig
      else if MaximumTCPConnections n < 1 then invalidConfig
      else if PayloadDeadline n < Second \<or> PayloadDeadline n > Minute then invalidConfig
      else if ShutdownDeadline c < Second \<or> ShutdownDeadline c > 5 * Minute then invalidConfig
      else if \<not> oneOf (ToLower (Level l)) [''debug'', ''info'', ''warn'', ''error'', ''disabled''] then invalidConfig
      else if Output l \<noteq> ''stdout'' \<and> Output l \<noteq> ''stderr'' \<and> TrimSpace (Output l) = [] then invalidConfig
      else [])"

text \<open>The checks run in this order and the first error is returned.\<close>

fun first_error :: "go_error list list \<Rightarrow> go_error list" where
  "first_error [] = []"
| "first_error (e # es) = (if e \<noteq> [] then e else first_error es)"

definition validateConfig :: "Config \<Rightarrow> go_error list" where
  "validateConfig c =
     first_error
       [validateListenAddress (TCPAddress c), validateListenAddress (UDPAddress c),
        validateRoot (DataRoot c), validateRoot (QuarantineRoot c),
        validateDevices [] (cDevices c), validateSensors [] (configured_sensors c), validateLimits c]"

section \<open>Snapshots\<close>

text \<open>The search of a unit by its name ranges over a Go map, whose order is not fixed.\<close>

definition unit_named :: "(UnitType \<times> string) list \<Rightarrow> string \<Rightarrow> UnitType" where
  "unit_named table name = (case find (\<lambda>(u, n). n = name) table of Some (u, n) \<Rightarrow> u | None \<Rightarrow> UUnknown)"

definition add_device :: "DeviceConfig \<Rightarrow> (MACAddress \<rightharpoonup> Device) \<Rightarrow> (MACAddress \<rightharpoonup> Device)" where
  "add_device d m =
     (let mac = (case ParseMACAddress (dcMAC d) of Inl e \<Rightarrow> zeroMAC | Inr mac \<Rightarrow> mac)
      in m(mac \<mapsto> \<lparr>devMAC = mac, devFloor = FloorTypeFromString (dcFloor d), devRoom = RoomTypeFromString (dcRoom d)\<rparr>))"

definition add_sensor :: "SensorConfig \<Rightarrow> (SensorType \<rightharpoonup> SensorDefinition) \<Rightarrow> (SensorType \<rightharpoonup> SensorDefinition)" where
  "add_sensor s m = m(scID s \<mapsto> \<lparr>sdType = scID s, sdUnit = unit_named UnitTypeToString (scUnit s)\<rparr>)"

text \<open>Copying the devices slice has no effect on the value of a configuration.\<close>

definition cloneConfig :: "Config \<Rightarrow> Config" where
  "cloneConfig c = c"

definition NewConfigSnapshot :: "Config \<Rightarrow> go_error list + ConfigSnapshot" where
  "NewConfigSnapshot c0 =
     (let c = applyConfigDefaults c0; e = validateConfig c in
      if e \<noteq> [] then Inl e
      else Inr \<lparr>snapConfig = cloneConfig c,
                snapDevices = fold add_device (cDevices c) Map.empty,
                snapSensors = fold add_sensor (configured_sensors c) Map.empty\<rparr>)"

definition snapshot_Config :: "ConfigSnapshot \<Rightarrow> Config" where
  "snapshot_Config s = cloneConfig (snapConfig s)"

definition snapshot_Device :: "ConfigSnapshot \<Rightarrow> MACAddress \<Rightarrow> Device option" where
  "snapshot_Device s mac = snapDevices s mac"

definition snapshot_Sensor :: "ConfigSnapshot \<Rightarrow> SensorType \<Rightarrow> SensorDefinition option" where
  "snapshot_Sensor s t = snapSensors s t"

definition configsEqual :: "Config \<Rightarrow> Config \<Rightarrow> bool" where
  "configsEqual l r \<longleftrightarrow> l = r"

definition ValidateReload :: "ConfigSnapshot \<Rightarrow> ConfigSnapshot option \<Rightarrow> go_error list" where
  "ValidateReload current candidate =
     (case candidate of
        None \<Rightarrow> [ErrInvalidConfiguration]
      | Some next \<Rightarrow>
          if \<not> configsEqual ((snapConfig current)\<lparr>cDevices := []\<rparr>) ((snapConfig next)\<lparr>cDevices := []\<rparr>)
          then [ErrRestartRequired] else [])"

text \<open>What the JSON decoder returns: the first value as a configuration, and what follows it.\<close>

datatype json_rest = RestEOF | RestValue | RestError "go_error list"

definition ensureJSONEnd :: "json_rest \<Rightarrow> go_error list" where
  "ensureJSONEnd r =
     (case r of RestEOF \<Rightarrow> [] | RestValue \<Rightarrow> invalidConfig | RestError e \<Rightarrow> e)"

definition LoadConfig :: "go_error list + Config \<Rightarrow> json_rest \<Rightarrow> go_error list + ConfigSnapshot" where
  "LoadConfig decoded rest =
     (case decoded of
        Inl e \<Rightarrow> Inl e
      | Inr c \<Rightarrow>
          (let e = ensureJSONEnd rest in
           if e \<noteq> [] then Inl e else NewConfigSnapshot (applyConfigDefaults c)))"

section \<open>Lemmas\<close>

lemma defaultDataStream_idem [simp]: "defaultDataStream (defaultDataStream d) = defaultDataStream d"
  by (simp add: defaultDataStream_def)

lemma applyConfigDefaults_idem [simp]: "applyConfigDefaults (applyConfigDefaults c) = applyConfigDefaults c"
  by (simp add: applyConfigDefaults_def)

lemma applyConfigDefaults_keeps [simp]:
  "cDevices (applyConfigDefaults c) = cDevices c" "cSensors (applyConfigDefaults c) = cSensors c"
  "configured_sensors (applyConfigDefaults c) = configured_sensors c"
  by (simp_all add: applyConfigDefaults_def configured_sensors_def)

lemma first_error_Nil [simp]: "first_error es = [] \<longleftrightarrow> (\<forall>e \<in> set es. e = [])"
  by (induction es) auto

lemma if_invalidConfig: "(if b then invalidConfig else e) = [] \<longleftrightarrow> \<not> b \<and> e = []"
  by simp

lemmas validateLimits_Nil = validateLimits_def [of c, unfolded Let_def, THEN arg_cong, of "\<lambda>e. e = []" for c,
  unfolded if_invalidConfig]

lemma NewConfigSnapshot_Inr:
  assumes "NewConfigSnapshot c = Inr s"
  shows "snapConfig s = applyConfigDefaults c" "validateDevices [] (cDevices c) = []"
    "validateSensors [] (configured_sensors c) = []" "validateLimits (applyConfigDefaults c) = []"
    "snapDevices s = fold add_device (cDevices c) Map.empty"
    "snapSensors s = fold add_sensor (configured_sensors c) Map.empty"
proof -
  have v: "validateConfig (applyConfigDefaults c) = []"
    and s: "s = \<lparr>snapConfig = applyConfigDefaults c, snapDevices = fold add_device (cDevices c) Map.empty,
      snapSensors = fold add_sensor (configured_sensors c) Map.empty\<rparr>"
    using assms by (simp_all add: NewConfigSnapshot_def cloneConfig_def Let_def split: if_splits)
  show "validateDevices [] (cDevices c) = []" "validateSensors [] (configured_sensors c) = []"
    "validateLimits (applyConfigDefaults c) = []"
    using v by (simp_all add: validateConfig_def del: first_error.simps)
  show "snapConfig s = applyConfigDefaults c" "snapDevices s = fold add_device (cDevices c) Map.empty"
    "snapSensors s = fold add_sensor (configured_sensors c) Map.empty"
    by (simp_all add: s)
qed

subsection \<open>Devices\<close>

text \<open>The device a valid entry describes.\<close>

definition device_of :: "MACAddress \<Rightarrow> DeviceConfig \<Rightarrow> Device" where
  "device_of mac d = \<lparr>devMAC = mac, devFloor = FloorTypeFromString (dcFloor d), devRoom = RoomTypeFromString (dcRoom d)\<rparr>"

lemma validateDevices_Cons:
  "validateDevices seen (d # ds) = [] \<longleftrightarrow>
     (\<exists>mac. ParseMACAddress (dcMAC d) = Inr mac \<and> mac \<notin> set seen
        \<and> FloorTypeFromString (dcFloor d) \<noteq> FLOOR_INVALID \<and> RoomTypeFromString (dcRoom d) \<noteq> ROOM_INVALID
        \<and> validateDevices (mac # seen) ds = [])"
  by (auto split: sum.splits if_splits)

lemma validateDevices_fresh:
  "validateDevices seen ds = [] \<Longrightarrow> d \<in> set ds \<Longrightarrow> ParseMACAddress (dcMAC d) = Inr mac \<Longrightarrow> mac \<notin> set seen"
proof (induction ds arbitrary: seen)
  case (Cons e ds)
  then obtain m where m: "ParseMACAddress (dcMAC e) = Inr m" "m \<notin> set seen" "validateDevices (m # seen) ds = []"
    by (auto simp: validateDevices_Cons simp del: validateDevices.simps)
  show ?case
  proof (cases "d = e")
    case True
    then show ?thesis using m Cons.prems by simp
  next
    case False
    then show ?thesis using Cons.IH [OF m(3)] Cons.prems by simp
  qed
qed simp

lemma fold_add_device:
  assumes "validateDevices seen ds = []"
  shows "fold add_device ds m mac = Some dev \<longleftrightarrow>
    (\<exists>d \<in> set ds. ParseMACAddress (dcMAC d) = Inr mac \<and> dev = device_of mac d)
    \<or> ((\<forall>d \<in> set ds. ParseMACAddress (dcMAC d) \<noteq> Inr mac) \<and> m mac = Some dev)"
  using assms
proof (induction ds arbitrary: seen m)
  case (Cons e ds)
  then obtain k where k: "ParseMACAddress (dcMAC e) = Inr k" and v: "validateDevices (k # seen) ds = []"
    by (auto simp: validateDevices_Cons simp del: validateDevices.simps)
  have other: "ParseMACAddress (dcMAC d) \<noteq> Inr k" if "d \<in> set ds" for d
    using validateDevices_fresh [OF v that] by auto
  have add: "add_device e m = m(k \<mapsto> device_of k e)"
    by (simp add: add_device_def k device_of_def)
  show ?case
    unfolding fold_simps add Cons.IH [OF v] using other k by (cases "mac = k") auto
qed simp

lemma validateDevices_valid:
  assumes "validateDevices seen ds = []" "d \<in> set ds"
  shows "FloorTypeFromString (dcFloor d) < FLOOR_COUNT \<and> RoomTypeFromString (dcRoom d) < ROOM_COUNT"
  using assms
proof (induction ds arbitrary: seen)
  case (Cons e ds)
  then show ?case
    using FloorTypeFromString_valid [of "dcFloor e"] RoomTypeFromString_valid [of "dcRoom e"]
    by (fastforce simp: validateDevices_Cons simp del: validateDevices.simps)
qed simp

subsection \<open>Sensors\<close>

lemma validateSensors_Cons:
  "validateSensors seen (s # ss) = [] \<longleftrightarrow>
     scID s \<noteq> SENSOR_ID_UNKNOWN \<and> map_of SensorTypeNames (scID s) = Some (scType s) \<and> scID s \<notin> set seen
     \<and> scUnit s \<in> snd ` set UnitTypeToString \<and> validateSensors (scID s # seen) ss = []"
  by (auto split: option.splits if_splits)

lemma validateSensors_all:
  assumes "validateSensors seen ss = []" "s \<in> set ss"
  shows "scID s \<noteq> SENSOR_ID_UNKNOWN \<and> map_of SensorTypeNames (scID s) = Some (scType s)
    \<and> scID s \<notin> set seen \<and> scUnit s \<in> snd ` set UnitTypeToString"
  using assms
proof (induction ss arbitrary: seen)
  case (Cons e ss)
  then show ?case
    by (fastforce simp: validateSensors_Cons simp del: validateSensors.simps)
qed simp

lemma fold_add_sensor:
  assumes "validateSensors seen ss = []"
  shows "fold add_sensor ss m t = Some def \<longleftrightarrow>
    (\<exists>s \<in> set ss. scID s = t \<and> def = \<lparr>sdType = t, sdUnit = unit_named UnitTypeToString (scUnit s)\<rparr>)
    \<or> ((\<forall>s \<in> set ss. scID s \<noteq> t) \<and> m t = Some def)"
  using assms
proof (induction ss arbitrary: seen m)
  case (Cons e ss)
  then have v: "validateSensors (scID e # seen) ss = []"
    by (simp add: validateSensors_Cons del: validateSensors.simps)
  have other: "scID s \<noteq> scID e" if "s \<in> set ss" for s
    using validateSensors_all [OF v that] by auto
  show ?case
    unfolding fold_simps Cons.IH [OF v] using other by (cases "t = scID e") (auto simp: add_sensor_def)
qed simp

text \<open>A table with distinct names has one unit per name, so the order of the search does not
  matter.\<close>

lemma unit_named_unique:
  assumes "distinct (map snd table)" "(u, name) \<in> set table"
  shows "unit_named table name = u"
  using assms
proof (induction table)
  case (Cons e es)
  then show ?case
    by (cases e) (auto simp: unit_named_def image_iff)
qed simp

lemma unit_named_order:
  assumes "mset table = mset UnitTypeToString" "name \<in> snd ` set UnitTypeToString"
  shows "unit_named table name = unit_named UnitTypeToString name"
proof -
  have t: "set table = set UnitTypeToString" "distinct (map snd table)"
    using assms(1) distinct_UnitTypeToString(2)
    by (metis set_mset_mset, metis mset_map mset_eq_imp_distinct_iff)
  obtain u where "(u, name) \<in> set UnitTypeToString" using assms(2) by force
  then show ?thesis
    using unit_named_unique [OF t(2)] unit_named_unique [OF distinct_UnitTypeToString(2)] t(1) by simp
qed

subsection \<open>MAC addresses\<close>

text \<open>\<open>formatMAC\<close> of \<open>plugins/http/monitor-state.go\<close>: six bytes as \<open>%02x\<close>, separated by
  colons.\<close>

definition formatMAC :: "MACAddress \<Rightarrow> string" where
  "formatMAC m =
     (case m of MACAddress a b c d e f \<Rightarrow>
        hex_byte a @ '':'' @ hex_byte b @ '':'' @ hex_byte c @ '':'' @ hex_byte d @ '':'' @ hex_byte e @ '':'' @ hex_byte f)"

lemma colon_not_hex: "CHR '':'' \<notin> set (hex_byte b)"
proof -
  have "hex_digit n \<noteq> CHR '':''" if "n < 16" for n
    using hex_digit_range [OF that] by auto
  then show ?thesis using unat_u8_bounds [of b] by (auto simp: hex_byte_def dest: sym)
qed

lemma scan_hex_byte_hex_byte: "scan_hex_byte (hex_byte b) = Some b"
proof -
  have "16 * (unat b div 16) + unat b mod 16 = unat b" by simp
  then have "(of_nat (16 * (unat b div 16) + unat b mod 16) :: u8) = b"
    by (simp only: of_nat_unat ucast_id)
  then show ?thesis by (simp add: scan_hex_byte_def hex_byte_def)
qed

lemma ParseMACAddress_formatMAC: "ParseMACAddress (formatMAC m) = Inr m"
proof (cases m)
  case (MACAddress a b c d e f)
  have "strings_Split (CHR '':'') (formatMAC m) = [hex_byte a, hex_byte b, hex_byte c, hex_byte d, hex_byte e, hex_byte f]"
    by (simp add: MACAddress formatMAC_def strings_Split_append strings_Split_single colon_not_hex)
  moreover have "length (hex_byte x) = 2" for x by (simp add: hex_byte_def)
  ultimately show ?thesis
    using copyMAC_mac_bytes [of m] by (simp add: ParseMACAddress_def scan_hex_byte_hex_byte MACAddress)
qed

section \<open>Properties\<close>

text \<open>A configuration for the witnesses.\<close>

definition demo_config :: Config where
  "demo_config =
     \<lparr>TCPAddress = '':9000'', UDPAddress = '':9001'', DataRoot = ''/tmp/sensors'', QuarantineRoot = ''/tmp/quarantine'',
      cDevices = [\<lparr>dcMAC = ''02:00:00:ab:cd:ef'', dcFloor = ''second'', dcRoom = ''living''\<rparr>],
      cSensors = Some [\<lparr>scID = 1, scType = ''Temperature'', scUnit = ''Celsius''\<rparr>],
      cDataStream = \<lparr>QueueCapacity = 0, EnqueueWait = 0, RetryCount = 0, InitialBackoff = 0, MaximumBackoff = 0,
        WriteBufferSize = 0, FlushInterval = 0, RotationSize = 0\<rparr>,
      cNetwork = \<lparr>MaximumTCPConnections = 0, PayloadDeadline = 0\<rparr>,
      cLogging = \<lparr>Level = [], Output = []\<rparr>, ShutdownDeadline = 0\<rparr>"

lemma demo_config_valid: "validateConfig (applyConfigDefaults demo_config) = []"
proof -
  have "TrimSpace '':9000'' = '':9000''" "TrimSpace '':9001'' = '':9001''"
    "SplitHostPort '':9000'' = Some ([], ''9000'')" "SplitHostPort '':9001'' = Some ([], ''9001'')"
    "validateRoot ''/tmp/sensors'' = []" "validateRoot ''/tmp/quarantine'' = []"
    by code_simp+
  moreover have "ParseUint ''9000'' 16 = Some 9000" "ParseUint ''9001'' 16 = Some 9001"
    by (simp_all add: ParseUint_def is_digit_def digit_val_def)
  moreover have "validateDevices [] (cDevices demo_config) = []" by code_simp
  moreover have "validateSensors [] (configured_sensors demo_config) = []" by code_simp
  moreover have "validateLimits (applyConfigDefaults demo_config) = []"
    by (simp add: validateLimits_def applyConfigDefaults_def defaultDataStream_def oneOf_def demo_config_def)
  moreover have "TCPAddress (applyConfigDefaults demo_config) = '':9000''" "UDPAddress (applyConfigDefaults demo_config) = '':9001''"
    "DataRoot (applyConfigDefaults demo_config) = ''/tmp/sensors''"
    "QuarantineRoot (applyConfigDefaults demo_config) = ''/tmp/quarantine''"
    by (simp_all add: applyConfigDefaults_def demo_config_def)
  ultimately show ?thesis
    by (simp add: validateConfig_def validateListenAddress_def)
qed

definition demo_snapshot :: ConfigSnapshot where
  "demo_snapshot =
     \<lparr>snapConfig = applyConfigDefaults demo_config,
      snapDevices = fold add_device (cDevices demo_config) Map.empty,
      snapSensors = fold add_sensor (configured_sensors demo_config) Map.empty\<rparr>"

lemma demo_snapshot_new: "NewConfigSnapshot demo_config = Inr demo_snapshot"
  by (simp add: NewConfigSnapshot_def demo_config_valid demo_snapshot_def cloneConfig_def)

lemma demo_mac: "ParseMACAddress ''02:00:00:ab:cd:ef'' = Inr (MACAddress 2 0 0 0xab 0xcd 0xef)"
  by code_simp

text \<open>
  Printing and parsing MAC addresses are inverse: the text the monitoring plugin prints for an
  address is accepted in the configuration and parsed to the same address, so no two addresses
  share a printed form.
\<close>

theorem ParseMACAddress_roundtrip:
  "ParseMACAddress (formatMAC m) = Inr m \<and> (formatMAC m = formatMAC n \<longleftrightarrow> m = n)"
  using ParseMACAddress_formatMAC by (metis sum.inject(2))

text \<open>
  \<open>ParseMACAddress\<close> accepts texts that are not MAC addresses: what \<open>Sscanf\<close> leaves unread
  of a byte, and a blank before a single digit, go unnoticed, so several malformed texts denote
  the address 01:00:00:00:00:00.
\<close>

theorem ParseMACAddress_lenient:
  "ParseMACAddress ''1g:00:00:00:00:00'' = Inr (MACAddress 1 0 0 0 0 0)
   \<and> ParseMACAddress ''1-:0x:0y:0z:0_:0.'' = Inr (MACAddress 1 0 0 0 0 0)
   \<and> ParseMACAddress '' 1:00:00:00:00:00'' = Inr (MACAddress 1 0 0 0 0 0)"
  by code_simp



text \<open>
  C39. The device registry of a snapshot is exactly the configured one: a MAC address is known
  when and only when a device entry has it, with the floor and room that entry names; both are
  rooms of the house.
\<close>

theorem snapshot_Device_iff:
  assumes "NewConfigSnapshot c = Inr s"
  shows "snapshot_Device s mac = Some dev \<longleftrightarrow>
    (\<exists>d \<in> set (cDevices c). ParseMACAddress (dcMAC d) = Inr mac
      \<and> dev = \<lparr>devMAC = mac, devFloor = FloorTypeFromString (dcFloor d), devRoom = RoomTypeFromString (dcRoom d)\<rparr>
      \<and> devFloor dev < FLOOR_COUNT \<and> devRoom dev < ROOM_COUNT)"
  using fold_add_device [OF NewConfigSnapshot_Inr(2) [OF assms], of Map.empty mac dev]
    validateDevices_valid [OF NewConfigSnapshot_Inr(2) [OF assms]]
  by (auto simp: snapshot_Device_def NewConfigSnapshot_Inr(5) [OF assms] device_of_def)

theorem snapshot_Device_iff_witness:
  "snapshot_Device demo_snapshot (MACAddress 2 0 0 0xab 0xcd 0xef)
    = Some \<lparr>devMAC = MACAddress 2 0 0 0xab 0xcd 0xef, devFloor = FLOOR_SECOND, devRoom = ROOM_LIVING\<rparr>"
proof -
  have "FloorTypeFromString ''second'' = FLOOR_SECOND" "RoomTypeFromString ''living'' = ROOM_LIVING" by code_simp+
  then show ?thesis
    using demo_mac by (subst snapshot_Device_iff [OF demo_snapshot_new]) (simp add: demo_config_def)
qed

text \<open>
  The sensors of a snapshot are exactly the configured ones. Each is a sensor of the house
  under its own name, never the reserved identifier 0, and its unit is the one the configuration
  names, in whatever order the table of units is searched.
\<close>

theorem snapshot_Sensor_iff:
  assumes "NewConfigSnapshot c = Inr s"
  shows "snapshot_Sensor s t = Some def \<longleftrightarrow>
    (\<exists>sc \<in> set (configured_sensors c). scID sc = t \<and> sdType def = t
      \<and> map_of UnitTypeToString (sdUnit def) = Some (scUnit sc)
      \<and> t \<noteq> SENSOR_ID_UNKNOWN \<and> map_of SensorTypeNames t = Some (scType sc)
      \<and> (\<forall>table. mset table = mset UnitTypeToString \<longrightarrow> sdUnit def = unit_named table (scUnit sc)))"
proof -
  note v = NewConfigSnapshot_Inr(3) [OF assms]
  have unit: "map_of UnitTypeToString u = Some (scUnit sc) \<longleftrightarrow> u = unit_named UnitTypeToString (scUnit sc)"
    if sc: "sc \<in> set (configured_sensors c)" for sc u
  proof -
    obtain k where "(k, scUnit sc) \<in> set UnitTypeToString"
      using validateSensors_all [OF v sc] by force
    then show ?thesis
      using unit_named_unique [OF distinct_UnitTypeToString(2)] map_of_SomeD [of UnitTypeToString u]
        map_of_is_SomeI [OF distinct_UnitTypeToString(1)] by metis
  qed
  have "snapshot_Sensor s t = Some def \<longleftrightarrow> (\<exists>sc \<in> set (configured_sensors c). scID sc = t
      \<and> sdType def = t \<and> sdUnit def = unit_named UnitTypeToString (scUnit sc))"
    using fold_add_sensor [OF v, of Map.empty t def]
    by (cases def) (auto simp: snapshot_Sensor_def NewConfigSnapshot_Inr(6) [OF assms])
  also have "\<dots> \<longleftrightarrow> (\<exists>sc \<in> set (configured_sensors c). scID sc = t \<and> sdType def = t
      \<and> map_of UnitTypeToString (sdUnit def) = Some (scUnit sc)
      \<and> t \<noteq> SENSOR_ID_UNKNOWN \<and> map_of SensorTypeNames t = Some (scType sc)
      \<and> (\<forall>table. mset table = mset UnitTypeToString \<longrightarrow> sdUnit def = unit_named table (scUnit sc)))"
    using unit validateSensors_all [OF v] unit_named_order by (metis (no_types, lifting))
  finally show ?thesis .
qed

theorem snapshot_Sensor_iff_witness:
  "\<exists>def. snapshot_Sensor demo_snapshot 1 = Some def \<and> map_of UnitTypeToString (sdUnit def) = Some ''Celsius''"
proof -
  obtain def where d: "snapshot_Sensor demo_snapshot 1 = Some def"
    by (simp add: snapshot_Sensor_def demo_snapshot_def demo_config_def configured_sensors_def add_sensor_def)
  then obtain sc where "sc \<in> set (configured_sensors demo_config)" "map_of UnitTypeToString (sdUnit def) = Some (scUnit sc)"
    using iffD1 [OF snapshot_Sensor_iff [OF demo_snapshot_new, of 1 def] d] by blast
  then have "map_of UnitTypeToString (sdUnit def) = Some ''Celsius''"
    by (simp add: demo_config_def configured_sensors_def)
  then show ?thesis using d by blast
qed

lemma ValidateReload_Nil:
  "ValidateReload s (Some t) = [] \<longleftrightarrow>
     snapshot_Config t = (snapshot_Config s)\<lparr>cDevices := cDevices (snapshot_Config t)\<rparr>"
proof -
  have "(a\<lparr>cDevices := []\<rparr> = b\<lparr>cDevices := []\<rparr>) \<longleftrightarrow> b = a\<lparr>cDevices := cDevices b\<rparr>" for a b :: Config
    by (cases a, cases b) auto
  then show ?thesis by (simp add: ValidateReload_def configsEqual_def snapshot_Config_def cloneConfig_def)
qed

lemma ValidateReload_sensors:
  assumes "ValidateReload s (Some t) = []" "NewConfigSnapshot c = Inr s" "NewConfigSnapshot d = Inr t"
  shows "snapshot_Sensor t = snapshot_Sensor s"
proof -
  have that: "snapConfig t = (snapConfig s)\<lparr>cDevices := cDevices (snapConfig t)\<rparr>"
    using assms(1) by (simp add: ValidateReload_Nil snapshot_Config_def cloneConfig_def)
  have "cSensors (snapConfig t) = cSensors (snapConfig s)" by (subst that) simp
  then have "configured_sensors c = configured_sensors d"
    by (simp add: NewConfigSnapshot_Inr(1) [OF assms(2)] NewConfigSnapshot_Inr(1) [OF assms(3)] configured_sensors_def)
  then show ?thesis
    by (simp add: snapshot_Sensor_def fun_eq_iff NewConfigSnapshot_Inr(6) [OF assms(2)] NewConfigSnapshot_Inr(6) [OF assms(3)])
qed



end
