(* ===== verification/DataEngine.thy ===== *)
theory DataEngine
  imports DataStream Config "HOL-Library.Product_Lexorder"
begin

text \<open>
  \<open>sensor-server/data-engine.go\<close>: the engine creates one data stream per floor, room and sensor
  type on first use and hands it the records. The factory is a parameter, as in the code; the one
  the server uses, \<open>NewFileDataStreamFactory\<close>, opens a data file below the data root.

  A stream of the engine holds its \<open>DataFile\<close>; the file system is shared by all of them. The
  executions of \<open>engine_step\<close> interleave producers, the goroutines of all streams and
  \<open>Close\<close>; each stream step is a step of \<open>ds_step\<close> on that stream's file and the common
  file system. The main lemma is that streams do not interfere.
\<close>

section \<open>Types and operations\<close>

type_synonym dataStreamKey = "FloorType \<times> RoomType \<times> SensorType"

record 'w DataEngine =
  streams :: "(dataStreamKey \<times> 'w DataStream) list"
  eclosed :: bool

type_synonym ('w, 'env) DataStreamFactory =
  "dataStreamKey \<Rightarrow> 'env \<Rightarrow> (go_error list + 'w DataStream) \<times> 'env"

definition NewDataEngine :: "'w DataEngine" where
  "NewDataEngine = \<lparr>streams = [], eclosed = False\<rparr>"

text \<open>\<open>fmt.Sprintf("%04x", v)\<close> of a value with a \<open>String\<close> method prints the bytes of that
  string in hexadecimal; the names of the house have at least two letters, so the width never
  pads.\<close>

definition hex_char :: "char \<Rightarrow> string" where
  "hex_char c = [hex_digit (of_char c div 16), hex_digit (of_char c mod 16)]"

definition hex_string :: "string \<Rightarrow> string" where
  "hex_string s = concat (map hex_char s)"

definition data_dir :: "path \<Rightarrow> dataStreamKey \<Rightarrow> path" where
  "data_dir root key =
     (case key of (floor, room, sensorType) \<Rightarrow>
        root @ [hex_string (FloorType_String floor), hex_string (RoomType_String room),
                hex_string (SensorType_String sensorType)])"

definition stream_options :: "DataStreamConfig \<Rightarrow> DataStreamOptions" where
  "stream_options config =
     \<lparr>DataStreamOptions.QueueCapacity = DataStreamConfig.QueueCapacity config,
      DataStreamOptions.EnqueueWait = DataStreamConfig.EnqueueWait config,
      DataStreamOptions.FlushInterval = DataStreamConfig.FlushInterval config,
      DataStreamOptions.RetryCount = DataStreamConfig.RetryCount config,
      DataStreamOptions.InitialBackoff = DataStreamConfig.InitialBackoff config,
      DataStreamOptions.MaximumBackoff = DataStreamConfig.MaximumBackoff config,
      Retryable = None\<rparr>"

definition file_options :: "path \<Rightarrow> DataStreamConfig \<Rightarrow> dataStreamKey \<Rightarrow> DataFileOptions" where
  "file_options root config key =
     (DefaultDataFileOptions (data_dir root key))
       \<lparr>BufferSize := WriteBufferSize config, DataFileOptions.RotationSize := DataStreamConfig.RotationSize config\<rparr>"

definition NewFileDataStreamFactory :: "path \<Rightarrow> DataStreamConfig \<Rightarrow> (DataFile, FS) DataStreamFactory" where
  "NewFileDataStreamFactory root config key fs =
     (case OpenDataFile (file_options root config key) fs of
        (Inl e, fs) \<Rightarrow> (Inl e, fs)
      | (Inr df, fs) \<Rightarrow>
          (case NewDataStream df (stream_options config) of
             Inl e \<Rightarrow> (Inl e, snd (snd (Close df fs)))
           | Inr s \<Rightarrow> (Inr s, fs)))"

definition engine_stream :: "('w, 'env) DataStreamFactory \<Rightarrow> dataStreamKey \<Rightarrow> 'w DataEngine \<Rightarrow> 'env
    \<Rightarrow> go_error list \<times> 'w DataEngine \<times> 'env" where
  "engine_stream factory key e env =
     (if eclosed e then ([ErrDataEngineClosed], e, env)
      else case map_of (streams e) key of
          Some s \<Rightarrow> ([], e, env)
        | None \<Rightarrow>
            (case factory key env of
               (Inl err, env) \<Rightarrow> (err, e, env)
             | (Inr s, env) \<Rightarrow> ([], e\<lparr>streams := streams e @ [(key, s)]\<rparr>, env)))"

definition put_stream :: "dataStreamKey \<Rightarrow> 'w DataStream \<Rightarrow> 'w DataEngine \<Rightarrow> 'w DataEngine" where
  "put_stream key s e = e\<lparr>streams := AList.update key s (streams e)\<rparr>"

definition engine_WriteSensorData :: "('w, 'env) DataStreamFactory \<Rightarrow> select_case \<Rightarrow> dataStreamKey \<Rightarrow> SensorData
    \<Rightarrow> 'w DataEngine \<Rightarrow> 'env \<Rightarrow> (go_error list \<times> 'w DataEngine \<times> 'env) outcome" where
  "engine_WriteSensorData factory c key data e env =
     (if eclosed e then Next ([ErrDataEngineClosed], e, env)
      else case engine_stream factory key e env of
          (err, e, env) \<Rightarrow>
            if err \<noteq> [] then Next (err, e, env)
            else (case map_of (streams e) key of
                    None \<Rightarrow> Panic
                  | Some s \<Rightarrow>
                      (case stream_Write c data s of
                         Blocked \<Rightarrow> Blocked
                       | Panic \<Rightarrow> Panic
                       | Next (err, s) \<Rightarrow> Next (err, put_stream key s e, env))))"

text \<open>\<open>Close\<close>: the first call marks the engine closed and goes through the streams it found, in
  the order of Go's map iteration; it returns the joined results when every stream is done.\<close>

definition engine_Close_begin :: "'w DataEngine \<Rightarrow> dataStreamKey list option \<times> 'w DataEngine" where
  "engine_Close_begin e =
     (if eclosed e then (None, e) else (Some (map fst (streams e)), e\<lparr>eclosed := True\<rparr>))"

fun engine_Close_result :: "dataStreamKey list \<Rightarrow> 'w DataEngine \<Rightarrow> go_error list outcome" where
  "engine_Close_result [] e = Next []"
| "engine_Close_result (k # ks) e =
     (case map_of (streams e) k of
        None \<Rightarrow> Panic
      | Some s \<Rightarrow>
          (case (stream_Close_result s, engine_Close_result ks e) of
             (Next a, Next b) \<Rightarrow> Next (errors_Join a b)
           | (Panic, _) \<Rightarrow> Panic
           | (_, Panic) \<Rightarrow> Panic
           | _ \<Rightarrow> Blocked))"

definition StreamCount :: "'w DataEngine \<Rightarrow> nat" where
  "StreamCount e = length (streams e)"

text \<open>The snapshots are sorted by floor, then room, then sensor type.\<close>

definition engine_Counters :: "'w RecordWriter \<Rightarrow> 'w DataEngine \<Rightarrow> (dataStreamKey \<times> DataStreamCounters) list" where
  "engine_Counters rw e = sort_key fst (map (\<lambda>(k, s). (k, stream_Counters rw s)) (streams e))"

section \<open>Executions\<close>

text \<open>A stream seen together with the file system it shares.\<close>

definition set_writer :: "'v \<Rightarrow> 'w DataStream \<Rightarrow> 'v DataStream" where
  "set_writer w s =
     \<lparr>writer = w, soptions = soptions s, queue = queue s, sclosed = sclosed s, sdone = sdone s,
      closeErr = closeErr s, dirty = dirty s, accepted = accepted s, written = written s,
      dropped = dropped s, retries = retries s, serrors = serrors s, reported = reported s\<rparr>"

definition pack :: "FS \<Rightarrow> DataFile DataStream \<Rightarrow> (DataFile \<times> FS) DataStream" where
  "pack fs s = set_writer (writer s, fs) s"

definition unpack :: "(DataFile \<times> FS) DataStream \<Rightarrow> DataFile DataStream" where
  "unpack s = set_writer (fst (writer s)) s"

datatype engine_event =
    Lookup dataStreamKey "go_error list"
  | StreamEvent dataStreamKey event
  | EngineClose

inductive engine_step :: "(DataFile, FS) DataStreamFactory \<Rightarrow> DataFile DataEngine \<times> FS \<Rightarrow> engine_event
    \<Rightarrow> DataFile DataEngine \<times> FS \<Rightarrow> bool" for factory where
  lookup: "engine_stream factory key e fs = (err, e', fs') \<Longrightarrow>
     engine_step factory (e, fs) (Lookup key err) (e', fs')"
| stream: "map_of (streams e) key = Some s \<Longrightarrow> ds_step file_writer (pack fs s) ev s' \<Longrightarrow>
     (ev = CloseRequest \<Longrightarrow> eclosed e) \<Longrightarrow>
     engine_step factory (e, fs) (StreamEvent key ev) (put_stream key (unpack s') e, snd (writer s'))"
| close: "engine_Close_begin e = (r, e') \<Longrightarrow> engine_step factory (e, fs) EngineClose (e', fs)"

inductive engine_exec :: "(DataFile, FS) DataStreamFactory \<Rightarrow> DataFile DataEngine \<times> FS \<Rightarrow> engine_event list
    \<Rightarrow> DataFile DataEngine \<times> FS \<Rightarrow> bool" for factory where
  start: "engine_exec factory s [] s"
| step: "engine_exec factory s evs s' \<Longrightarrow> engine_step factory s' ev s'' \<Longrightarrow> engine_exec factory s (evs @ [ev]) s''"

text \<open>The part of a trace that concerns one stream.\<close>

definition stream_trace :: "dataStreamKey \<Rightarrow> engine_event list \<Rightarrow> event list" where
  "stream_trace key evs =
     concat (map (\<lambda>ev. case ev of StreamEvent k e \<Rightarrow> if k = key then [e] else [] | _ \<Rightarrow> []) evs)"

definition valid_key :: "dataStreamKey \<Rightarrow> bool" where
  "valid_key key \<longleftrightarrow>
     (case key of (floor, room, sensorType) \<Rightarrow>
        floor < FLOOR_COUNT \<and> room < ROOM_COUNT \<and> sensorType \<le> SENSOR_ID_kWAh)"

section \<open>Every stream has a directory of its own\<close>

lemma char_nibbles [simp]: "(of_char c :: nat) div 16 < 16" "(of_char c :: nat) mod 16 < 16"
  using nat_of_char_less_256 [of c] by (auto simp: less_mult_imp_div_less)

lemma hex_char_inj: "hex_char c = hex_char d \<longleftrightarrow> c = d"
proof
  assume "hex_char c = hex_char d"
  then have "(of_char c :: nat) div 16 = of_char d div 16" "(of_char c :: nat) mod 16 = of_char d mod 16"
    using hex_digit_inj by (simp_all add: hex_char_def)
  then have "(of_char c :: nat) = of_char d" by (metis div_mod_decomp)
  then show "c = d" by simp
qed simp

lemma hex_string_inj: "hex_string s = hex_string t \<longleftrightarrow> s = t"
proof (induction s arbitrary: t)
  case Nil
  then show ?case by (cases t) (simp_all add: hex_string_def hex_char_def)
next
  case (Cons c s)
  show ?case
  proof (cases t)
    case (Cons d u)
    then show ?thesis
      using Cons.IH [of u] hex_char_inj [of c d] by (auto simp: hex_string_def hex_char_def)
  qed (simp add: hex_string_def hex_char_def)
qed

lemma SensorType_String_inj:
  assumes "t \<le> SENSOR_ID_kWAh" "u \<le> SENSOR_ID_kWAh" "SensorType_String t = SensorType_String u"
  shows "t = u"
proof -
  obtain a b where ab: "map_of SensorTypeNames t = Some a" "map_of SensorTypeNames u = Some b"
    using assms(1,2) dom_SensorTypeNames by (metis not_None_eq)
  then have "a = b" using assms(3) by (simp add: SensorType_String_def)
  then have "(t, a) \<in> set SensorTypeNames" "(u, a) \<in> set SensorTypeNames"
    using ab by (simp_all add: map_of_SomeD)
  then show ?thesis
    using distinct_SensorTypeNames(2) eq_key_imp_eq_value [of "map prod.swap SensorTypeNames" a t u]
    by (force simp: comp_def)
qed

lemma data_dir_inj:
  assumes "valid_key k" "valid_key l"
  shows "data_dir root k = data_dir root l \<longleftrightarrow> k = l"
proof -
  obtain f r t where k: "k = (f, r, t)" by (cases k)
  obtain f' r' t' where l: "l = (f', r', t')" by (cases l)
  show ?thesis
    using assms FloorType_String_inj [of f f'] RoomType_String_inj [of r r'] SensorType_String_inj [of t t']
    by (auto simp: k l data_dir_def valid_key_def hex_string_inj)
qed

section \<open>Streams do not interfere\<close>

lemma pack_simps [simp]:
  "writer (pack fs s) = (writer s, fs)" "queue (pack fs s) = queue s" "sdone (pack fs s) = sdone s"
  "sclosed (pack fs s) = sclosed s" "closeErr (pack fs s) = closeErr s" "retries (pack fs s) = retries s"
  "written (pack fs s) = written s" "soptions (pack fs s) = soptions s"
  by (simp_all add: pack_def set_writer_def)

lemma pack_unpack: "writer s = (df, fs) \<Longrightarrow> pack fs (unpack s) = s"
  by (cases s) (simp add: pack_def unpack_def set_writer_def)

lemma ds_inv_pack [simp]: "ds_inv evs (pack fs s) = ds_inv evs s"
  by (simp add: ds_inv_def pack_def set_writer_def)

text \<open>The states a stream may be in: while it is not done, its file is open and well formed.\<close>

definition stream_ok :: "path \<Rightarrow> FS \<Rightarrow> DataFile DataStream \<Rightarrow> bool" where
  "stream_ok dir fs s \<longleftrightarrow> Directory (options (writer s)) = dir
     \<and> (\<not> sdone s \<longrightarrow> df_ok (writer s) fs \<and> \<not> closed (writer s))"

lemma file_write_step:
  assumes "rwWriteRecord file_writer ts v w = Some (e, w')" "df_ok (fst w) (snd w) \<and> \<not> closed (fst w)"
  shows "df_ok (fst w') (snd w') \<and> \<not> closed (fst w') \<and> options (fst w') = options (fst w)
    \<and> frame (Directory (options (fst w))) (snd w) (snd w')"
  using assms WriteRecord_spec [of ts v "fst w" "snd w" e "fst w'" "snd w'"]
    WriteRecord_frame [of ts v "fst w" "snd w" e "fst w'" "snd w'"]
  by (cases w; cases w') (simp add: file_writer_def)

lemma file_flush_step:
  assumes "rwFlush file_writer w = Some (e, w')" "df_ok (fst w) (snd w) \<and> \<not> closed (fst w)"
  shows "df_ok (fst w') (snd w') \<and> \<not> closed (fst w') \<and> options (fst w') = options (fst w)
    \<and> frame (Directory (options (fst w))) (snd w) (snd w')"
  using assms Flush_spec [of "fst w" "snd w" e "fst w'" "snd w'"]
    Flush_frame [of "fst w" "snd w" e "fst w'" "snd w'"]
  by (cases w; cases w') (simp add: file_writer_def)

lemma file_close_step:
  assumes "rwClose file_writer w = (e, w')" "df_ok (fst w) (snd w) \<and> \<not> closed (fst w)"
  shows "options (fst w') = options (fst w) \<and> frame (Directory (options (fst w))) (snd w) (snd w')"
  using assms Close_spec(7) [of "fst w" "snd w" e "fst w'" "snd w'"]
    Close_frame [of "fst w" "snd w" e "fst w'" "snd w'"]
  by (cases w; cases w') (simp add: file_writer_def)

lemma file_retry_step:
  assumes "writeWithRetry file_writer opts data attempt backoff w = Some (e, waits, w')"
    and "df_ok (fst w) (snd w) \<and> \<not> closed (fst w)"
  shows "df_ok (fst w') (snd w') \<and> \<not> closed (fst w') \<and> options (fst w') = options (fst w)
    \<and> frame (Directory (options (fst w))) (snd w) (snd w')"
proof -
  let ?P = "\<lambda>u. (df_ok (fst u) (snd u) \<and> \<not> closed (fst u)) \<and> options (fst u) = options (fst w)
      \<and> frame (Directory (options (fst w))) (snd w) (snd u)"
  have "?P w" using assms(2) by simp
  moreover have "?P u'" if "?P u" "rwWriteRecord file_writer (Timestamp data) (DValue data) u = Some (e, u')" for u e u'
    using file_write_step [OF that(2)] that(1) frame_trans by auto
  ultimately obtain w0 where "?P w0" "rwWriteRecord file_writer (Timestamp data) (DValue data) w0 = Some (e, w')"
    using writeWithRetry_last [OF assms(1), of ?P] by blast
  then show ?thesis using file_write_step [of _ _ w0 e w'] frame_trans by auto
qed

lemma ds_step_frame:
  assumes "ds_step file_writer (pack fs s) ev s'" "stream_ok dir fs s"
  shows "frame dir fs (snd (writer s')) \<and> stream_ok dir (snd (writer s')) (unpack s')"
  using assms(1)
proof cases
  case (accept c data)
  from accept(2) show ?thesis
    by (cases rule: stream_Write_cases) (use assms(2) in \<open>auto simp: stream_ok_def unpack_def set_writer_def\<close>)
next
  case (reject c data e)
  from reject(2) show ?thesis
    by (cases rule: stream_Write_cases) (use assms(2) in \<open>auto simp: stream_ok_def unpack_def set_writer_def\<close>)
next
  case close
  then show ?thesis
    using assms(2) by (auto simp: stream_ok_def unpack_def set_writer_def stream_Close_request_def)
next
  case (process data e)
  from process(2) show ?thesis
  proof (cases rule: run_data_cases)
    case (1 rest waits w)
    from file_retry_step [OF 1(3)] assms(2) 1(1,4) show ?thesis
      by (auto simp: stream_ok_def unpack_def set_writer_def)
  qed
next
  case (tick e)
  from tick(2) show ?thesis
  proof (cases rule: run_tick_cases)
    case clean
    then show ?thesis using assms(2) by (simp add: stream_ok_def unpack_def set_writer_def)
  next
    case (flushed w)
    from file_flush_step [OF flushed(3)] assms(2) flushed(1,4) show ?thesis
      by (auto simp: stream_ok_def unpack_def set_writer_def)
  qed
next
  case finish
  from finish(2) show ?thesis
  proof (cases rule: run_finish_cases)
    case (1 e1 w1 e2 w k)
    have ok: "df_ok (writer s) fs \<and> \<not> closed (writer s)" "Directory (options (writer s)) = dir"
      using assms(2) 1(1) by (simp_all add: stream_ok_def)
    have w1: "df_ok (fst w1) (snd w1) \<and> \<not> closed (fst w1) \<and> options (fst w1) = options (writer s)
        \<and> frame dir fs (snd w1)"
      using 1(6) ok file_flush_step [of "(writer s, fs)" e1 w1] by auto
    have w: "options (fst w) = options (fst w1) \<and> frame (Directory (options (fst w1))) (snd w1) (snd w)"
      using file_close_step [OF 1(4)] w1 by simp
    have "frame dir fs (snd w)" using w w1 ok(2) frame_trans by auto
    then show ?thesis using 1(5) w w1 ok(2) by (simp add: stream_ok_def unpack_def set_writer_def)
  qed
qed

section \<open>What the server's factory makes\<close>

text \<open>The factory never sets \<open>Retryable\<close>, and \<open>NewDataStream\<close> replaces it by the function that
  refuses every retry.\<close>

definition never_retries :: "'w DataStream \<Rightarrow> bool" where
  "never_retries s \<longleftrightarrow> Retryable (soptions s) = Some (\<lambda>_. False) \<and> retries s = 0"

lemma writeWithRetry_once:
  assumes "writeWithRetry rw opts data attempt backoff w = Some (e, waits, w')" "Retryable opts = Some (\<lambda>_. False)"
  shows "waits = []"
  using assms by (subst (asm) writeWithRetry.simps) (auto split: option.splits if_splits)

lemma never_retries_step:
  assumes "ds_step rw s ev s'" "never_retries s"
  shows "never_retries s'"
  using assms(1)
proof cases
  case (accept c data)
  from accept(2) show ?thesis by (cases rule: stream_Write_cases) (use assms(2) in \<open>auto simp: never_retries_def\<close>)
next
  case (reject c data e)
  from reject(2) show ?thesis by (cases rule: stream_Write_cases) (use assms(2) in \<open>auto simp: never_retries_def\<close>)
next
  case close
  then show ?thesis using assms(2) by (simp add: never_retries_def stream_Close_request_def)
next
  case (process data e)
  from process(2) show ?thesis
  proof (cases rule: run_data_cases)
    case (1 rest waits w)
    have "waits = []" using writeWithRetry_once [OF 1(3)] assms(2) by (simp add: never_retries_def)
    then show ?thesis using 1(4) assms(2) by (simp add: never_retries_def)
  qed
next
  case (tick e)
  from tick(2) show ?thesis by (cases rule: run_tick_cases) (use assms(2) in \<open>auto simp: never_retries_def\<close>)
next
  case finish
  from finish(2) show ?thesis by (cases rule: run_finish_cases) (use assms(2) in \<open>auto simp: never_retries_def\<close>)
qed

definition config_ok :: "DataStreamConfig \<Rightarrow> bool" where
  "config_ok config \<longleftrightarrow> (\<exists>c. validateLimits c = [] \<and> cDataStream c = config)"

lemma config_ok_bounds:
  assumes "config_ok config"
  shows "1 \<le> DataStreamConfig.QueueCapacity config" "0 \<le> DataStreamConfig.EnqueueWait config"
    "0 < DataStreamConfig.FlushInterval config" "0 \<le> DataStreamConfig.RetryCount config"
    "0 < DataStreamConfig.InitialBackoff config"
    "DataStreamConfig.InitialBackoff config \<le> DataStreamConfig.MaximumBackoff config"
    "1 \<le> WriteBufferSize config" "12 \<le> DataStreamConfig.RotationSize config"
  using assms unfolding config_ok_def validateLimits_Nil by (elim exE conjE; simp)+

text \<open>A validated configuration never fails the checks of \<open>NewDataStream\<close>.\<close>

lemma NewDataStream_config_ok:
  assumes "config_ok config"
  obtains s where "NewDataStream w (stream_options config) = Inr s" "never_retries s" "writer s = w"
    "ds_inv [] s" "\<not> sdone s" "written s = 0"
  using config_ok_bounds [OF assms]
  by (auto simp: NewDataStream_def stream_options_def never_retries_def ds_inv_def)

lemma file_options_simps [simp]:
  "Directory (file_options root config key) = data_dir root key"
  "DataFileOptions.RotationSize (file_options root config key) = DataStreamConfig.RotationSize config"
  by (simp_all add: file_options_def DefaultDataFileOptions_def)

lemma factory_cases:
  assumes "NewFileDataStreamFactory root config key fs = (r, fs')" "config_ok config"
  obtains (failed) e where "r = Inl e" "OpenDataFile (file_options root config key) fs = (Inl e, fs')"
    | (made) df s where "r = Inr s" "OpenDataFile (file_options root config key) fs = (Inr df, fs')"
      "NewDataStream df (stream_options config) = Inr s" "never_retries s" "writer s = df" "ds_inv [] s"
      "\<not> sdone s" "written s = 0"
proof -
  obtain o1 fs1 where o: "OpenDataFile (file_options root config key) fs = (o1, fs1)"
    by (cases "OpenDataFile (file_options root config key) fs")
  show ?thesis
  proof (cases o1)
    case (Inl e)
    then show ?thesis using assms(1) o failed by (auto simp: NewFileDataStreamFactory_def)
  next
    case (Inr df)
    obtain s where s: "NewDataStream df (stream_options config) = Inr s" "never_retries s" "writer s = df"
      "ds_inv [] s" "\<not> sdone s" "written s = 0"
      by (rule NewDataStream_config_ok [OF assms(2)])
    then have "r = Inr s" "fs' = fs1" using assms(1) o Inr by (simp_all add: NewFileDataStreamFactory_def)
    then show ?thesis using made [of s df] o Inr s by simp
  qed
qed

lemma NewFileDataStreamFactory_err: "NewFileDataStreamFactory root config k fs = (Inl e, fs') \<Longrightarrow> e \<noteq> []"
  by (auto simp: NewFileDataStreamFactory_def NewDataStream_def dest: OpenDataFile_err
      split: prod.splits sum.splits if_splits)

section \<open>The invariant of the engine\<close>

text \<open>
  Relative to the disk \<open>fs0\<close> on which the engine was started: a directory whose stream does not
  exist yet has at most been repaired; a stream's log is what its directory held, cut to whole
  records, followed by the records it has processed.
\<close>

definition untouched :: "FS \<Rightarrow> FS \<Rightarrow> path \<Rightarrow> bool" where
  "untouched fs0 fs dir \<longleftrightarrow> (\<forall>k. repaired (stored fs0 (seg_path dir k)) (stored fs (seg_path dir k)))"

definition stream_inv :: "FS \<Rightarrow> FS \<Rightarrow> path \<Rightarrow> event list \<Rightarrow> DataFile DataStream \<Rightarrow> bool" where
  "stream_inv fs0 fs dir evs s \<longleftrightarrow>
     stream_ok dir fs s \<and> ds_inv evs s \<and> never_retries s
     \<and> (\<exists>w0 n. fw.log_inv w0 evs (pack fs s) \<and> bytesWritten (fst w0) = 0
          \<and> dlog (fst w0) (snd w0) = recovered fs0 dir n
          \<and> (\<forall>k > n. whole_records (stored fs0 (seg_path dir k)) = []))"

definition engine_inv :: "path \<Rightarrow> FS \<Rightarrow> engine_event list \<Rightarrow> DataFile DataEngine \<times> FS \<Rightarrow> bool" where
  "engine_inv root fs0 evs st \<longleftrightarrow>
     (case st of (e, fs) \<Rightarrow>
        distinct (map fst (streams e))
        \<and> (\<forall>key s. map_of (streams e) key = Some s \<longrightarrow>
             valid_key key \<and> stream_inv fs0 fs (data_dir root key) (stream_trace key evs) s)
        \<and> (\<forall>key. map_of (streams e) key = None \<longrightarrow> stream_trace key evs = []
             \<and> (valid_key key \<longrightarrow> untouched fs0 fs (data_dir root key))))"

lemma engine_invD:
  assumes "engine_inv root fs0 evs (e, fs)"
  shows "distinct (map fst (streams e))"
    "map_of (streams e) key = Some s \<Longrightarrow> valid_key key"
    "map_of (streams e) key = Some s \<Longrightarrow> stream_inv fs0 fs (data_dir root key) (stream_trace key evs) s"
    "map_of (streams e) key = None \<Longrightarrow> stream_trace key evs = []"
    "map_of (streams e) key = None \<Longrightarrow> valid_key key \<Longrightarrow> untouched fs0 fs (data_dir root key)"
  using assms unfolding engine_inv_def prod.case by blast+

lemma engine_invI:
  assumes "distinct (map fst (streams e))"
    "\<And>key s. map_of (streams e) key = Some s \<Longrightarrow>
       valid_key key \<and> stream_inv fs0 fs (data_dir root key) (stream_trace key evs) s"
    "\<And>key. map_of (streams e) key = None \<Longrightarrow> stream_trace key evs = []"
    "\<And>key. map_of (streams e) key = None \<Longrightarrow> valid_key key \<Longrightarrow> untouched fs0 fs (data_dir root key)"
  shows "engine_inv root fs0 evs (e, fs)"
  using assms unfolding engine_inv_def prod.case by blast

lemma stream_inv_elsewhere:
  assumes "stream_inv fs0 fs dir evs s"
    and "\<And>k. stored fs' (seg_path dir k) = stored fs (seg_path dir k)"
    and "\<And>k. is_file fs' (seg_path dir k) = is_file fs (seg_path dir k)"
  shows "stream_inv fs0 fs' dir evs s"
proof -
  have dir: "Directory (options (writer s)) = dir" using assms(1) by (simp add: stream_inv_def stream_ok_def)
  note same = df_ok_frame [of fs' "writer s" fs, unfolded dir, OF assms(2,3)]
  have "fw.log_inv w0 evs (pack fs' s) = fw.log_inv w0 evs (pack fs s)" for w0
    by (simp add: fw.log_inv_def same dir)
  then show ?thesis using assms(1) by (simp add: stream_inv_def stream_ok_def same dir)
qed

lemma stream_inv_step:
  assumes "stream_inv fs0 fs dir evs s" "ds_step file_writer (pack fs s) ev s'"
  shows "stream_inv fs0 (snd (writer s')) dir (evs @ [ev]) (unpack s')" "frame dir fs (snd (writer s'))"
proof -
  have inv: "stream_ok dir fs s" "ds_inv evs (pack fs s)" "never_retries (pack fs s)"
    using assms(1) by (simp_all add: stream_inv_def never_retries_def)
  obtain w0 n where w0: "fw.log_inv w0 evs (pack fs s)" "bytesWritten (fst w0) = 0"
    "dlog (fst w0) (snd w0) = recovered fs0 dir n" "\<forall>k > n. whole_records (stored fs0 (seg_path dir k)) = []"
    using assms(1) by (auto simp: stream_inv_def)
  have p: "pack (snd (writer s')) (unpack s') = s'"
    using pack_unpack [of s' "fst (writer s')" "snd (writer s')"] by simp
  have "ds_inv (evs @ [ev]) s'" by (rule ds_step_inv [OF assms(2) inv(2)])
  then have "ds_inv (evs @ [ev]) (unpack s')"
    using ds_inv_pack [of "evs @ [ev]" "snd (writer s')" "unpack s'"] by (simp add: p)
  moreover have "never_retries (unpack s')"
    using never_retries_step [OF assms(2) inv(3)] by (simp add: never_retries_def unpack_def set_writer_def)
  moreover have "fw.log_inv w0 (evs @ [ev]) (pack (snd (writer s')) (unpack s'))"
    unfolding p by (rule fw.step_log_inv [OF assms(2) w0(1)])
  ultimately show "stream_inv fs0 (snd (writer s')) dir (evs @ [ev]) (unpack s')"
    using ds_step_frame [OF assms(2) inv(1)] w0(2-4) unfolding stream_inv_def by blast
  show "frame dir fs (snd (writer s'))" using ds_step_frame [OF assms(2) inv(1)] by simp
qed

lemma untouched_elsewhere:
  assumes "untouched fs0 fs dir" "\<And>k. stored fs' (seg_path dir k) = stored fs (seg_path dir k)"
  shows "untouched fs0 fs' dir"
  using assms by (simp add: untouched_def)

lemma stream_trace_snoc [simp]:
  "stream_trace key (evs @ [ev]) = stream_trace key evs
     @ (case ev of StreamEvent k e \<Rightarrow> if k = key then [e] else [] | _ \<Rightarrow> [])"
  by (simp add: stream_trace_def)

lemma recovered_cong:
  "(\<And>k. whole_records (stored fs (seg_path dir k)) = whole_records (stored fs0 (seg_path dir k)))
    \<Longrightarrow> recovered fs dir n = recovered fs0 dir n"
  by (simp add: recovered_def)

text \<open>A stream that has just been made.\<close>

lemma made_stream_inv:
  assumes "OpenDataFile (file_options root config key) fs = (Inr df, fs')"
    and "NewDataStream df (stream_options config) = Inr s" "never_retries s" "writer s = df" "ds_inv [] s"
    and "\<not> sdone s" "written s = 0"
    and "untouched fs0 fs (data_dir root key)"
    and "\<And>k. k \<ge> 10 ^ 8 \<Longrightarrow> stored fs0 (seg_path (data_dir root key) k) = []"
  shows "stream_inv fs0 fs' (data_dir root key) [] s"
proof -
  let ?dir = "data_dir root key"
  have small: "stored fs (seg_path (Directory (file_options root config key)) k) = []" if "k \<ge> 10 ^ 8" for k
    using assms(8) assms(9) [OF that] by (auto simp: untouched_def repaired_def whole_records_def dest: spec [of _ k])
  note o = OpenDataFile_spec [OF assms(1) small, simplified]
  have whole: "whole_records (stored fs (seg_path ?dir k)) = whole_records (stored fs0 (seg_path ?dir k))" for k
    using assms(8) repaired_whole by (simp add: untouched_def)
  have rest: "\<forall>k > sequence df. whole_records (stored fs0 (seg_path ?dir k)) = []"
    using o(8) whole by (metis whole_records_def take_Nil)
  have "fw.log_inv (df, fs') [] (pack fs' s)"
    using o(1,2) assms(4,6,7) by (simp add: fw.log_inv_def)
  moreover have "dlog df fs' = recovered fs0 ?dir (sequence df)"
    using o(5) recovered_cong [OF whole] by simp
  moreover have "stream_ok ?dir fs' s" using o(1-3) assms(4) by (simp add: stream_ok_def)
  ultimately show ?thesis
    unfolding stream_inv_def using assms(3,5) o(7) rest
    by (intro conjI exI [of _ "(df, fs')"] exI [of _ "sequence df"]) simp_all
qed

lemma engine_lookup_inv:
  assumes "engine_stream (NewFileDataStreamFactory root config) key e fs = (err, e', fs')"
    and "engine_inv root fs0 evs (e, fs)" "config_ok config" "valid_key key"
    and "\<And>k. k \<ge> 10 ^ 8 \<Longrightarrow> stored fs0 (seg_path (data_dir root key) k) = []"
  shows "engine_inv root fs0 (evs @ [Lookup key err]) (e', fs')"
proof (cases "eclosed e \<or> map_of (streams e) key \<noteq> None")
  case True
  then have "e' = e" "fs' = fs" using assms(1) by (auto simp: engine_stream_def split: option.splits if_splits)
  then show ?thesis using engine_invD [OF assms(2)] by (intro engine_invI) simp_all
next
  case False
  let ?dir = "data_dir root key"
  have none: "map_of (streams e) key = None" "\<not> eclosed e" using False by auto
  obtain r fs1 where f: "NewFileDataStreamFactory root config key fs = (r, fs1)"
    by (cases "NewFileDataStreamFactory root config key fs")
  have res: "fs' = fs1" "e' = (case r of Inl x \<Rightarrow> e | Inr s \<Rightarrow> e\<lparr>streams := streams e @ [(key, s)]\<rparr>)"
    using assms(1) none f by (auto simp: engine_stream_def split: sum.splits)
  obtain r2 where op: "OpenDataFile (file_options root config key) fs = (r2, fs1)"
    using f assms(3) by (cases rule: factory_cases) auto
  have other: "stored fs1 (seg_path (data_dir root k2) k) = stored fs (seg_path (data_dir root k2) k)
      \<and> is_file fs1 (seg_path (data_dir root k2) k) = is_file fs (seg_path (data_dir root k2) k)"
    if "valid_key k2" "k2 \<noteq> key" for k2 k
  proof (rule OpenDataFile_frame [OF op])
    have "data_dir root k2 \<noteq> ?dir" using data_dir_inj [OF that(1) assms(4)] that(2) by simp
    then show "seg_path (data_dir root k2) k \<noteq> seg_path (Directory (file_options root config key)) j" for j
      by (simp add: seg_path_def)
  qed
  have old: "valid_key k2 \<and> stream_inv fs0 fs1 (data_dir root k2) (stream_trace k2 evs) s2"
    if "map_of (streams e) k2 = Some s2" for k2 s2
  proof -
    have v: "valid_key k2" "stream_inv fs0 fs (data_dir root k2) (stream_trace k2 evs) s2" "k2 \<noteq> key"
      using engine_invD(2,3) [OF assms(2) that] that none(1) by auto
    show ?thesis using v(1) stream_inv_elsewhere [OF v(2)] other [OF v(1,3)] by blast
  qed
  have unt: "untouched fs0 fs ?dir" "stream_trace key evs = []"
    using engine_invD(4,5) [OF assms(2) none(1)] assms(4) by simp_all
  have unt1: "untouched fs0 fs1 (data_dir root k2)" if "map_of (streams e) k2 = None" "valid_key k2" for k2
  proof (cases "k2 = key")
    case True
    then show ?thesis
      using unt(1) OpenDataFile_repaired [OF op] repaired_trans by (fastforce simp: untouched_def)
  next
    case False
    have "untouched fs0 fs (data_dir root k2)" by (rule engine_invD(5) [OF assms(2) that])
    then show ?thesis using untouched_elsewhere other [OF that(2) False] by blast
  qed
  have dist: "distinct (map fst (streams e))"
    and tr: "\<And>k2. map_of (streams e) k2 = None \<Longrightarrow> stream_trace k2 evs = []"
    using engine_invD(1,4) [OF assms(2)] by simp_all
  from f assms(3) show ?thesis
  proof (cases rule: factory_cases)
    case (failed x)
    then show ?thesis using res dist old tr unt1 by (intro engine_invI) simp_all
  next
    case (made df s)
    have new: "stream_inv fs0 fs1 ?dir [] s"
      by (rule made_stream_inv [OF made(2-8) unt(1) assms(5)])
    have e': "e' = e\<lparr>streams := streams e @ [(key, s)]\<rparr>" using res(2) made(1) by simp
    have look: "map_of (streams e') k2 = (if k2 = key then Some s else map_of (streams e) k2)" for k2
      using none(1) by (auto simp: e' map_add_def split: option.splits)
    have "key \<notin> fst ` set (streams e)" using none(1) by (simp add: map_of_eq_None_iff)
    then have "distinct (map fst (streams e'))" using dist by (simp add: e')
    then show ?thesis
      using res(1) old tr unt1 new unt(2) assms(4) by (intro engine_invI) (simp_all add: look split: if_splits)
  qed
qed

lemma engine_stream_event_inv:
  assumes "map_of (streams e) key = Some s" "ds_step file_writer (pack fs s) ev s'"
    and "engine_inv root fs0 evs (e, fs)"
  shows "engine_inv root fs0 (evs @ [StreamEvent key ev]) (put_stream key (unpack s') e, snd (writer s'))"
proof -
  let ?dir = "data_dir root key" and ?fs = "snd (writer s')"
  have k: "valid_key key" "stream_inv fs0 fs ?dir (stream_trace key evs) s"
    using engine_invD(2,3) [OF assms(3,1)] by simp_all
  note st = stream_inv_step [OF k(2) assms(2)]
  have other: "stored ?fs (seg_path (data_dir root k2) k) = stored fs (seg_path (data_dir root k2) k)"
      "is_file ?fs (seg_path (data_dir root k2) k) = is_file fs (seg_path (data_dir root k2) k)"
    if "valid_key k2" "k2 \<noteq> key" for k2 k
    using frame_elsewhere [OF st(2)] data_dir_inj [OF that(1) k(1)] that(2) by (metis, metis)
  have look: "map_of (streams (put_stream key (unpack s') e)) k2
      = (if k2 = key then Some (unpack s') else map_of (streams e) k2)" for k2
    by (simp add: put_stream_def update_conv')
  have keep: "valid_key k2 \<and> stream_inv fs0 ?fs (data_dir root k2) (stream_trace k2 evs) s2"
    if "map_of (streams e) k2 = Some s2" "k2 \<noteq> key" for k2 s2
  proof -
    have v: "valid_key k2" "stream_inv fs0 fs (data_dir root k2) (stream_trace k2 evs) s2"
      using engine_invD(2,3) [OF assms(3) that(1)] by simp_all
    show ?thesis using v(1) stream_inv_elsewhere [OF v(2)] other [OF v(1) that(2)] by blast
  qed
  have unt: "untouched fs0 ?fs (data_dir root k2)"
    if "map_of (streams e) k2 = None" "valid_key k2" "k2 \<noteq> key" for k2
  proof -
    have "untouched fs0 fs (data_dir root k2)" by (rule engine_invD(5) [OF assms(3) that(1,2)])
    then show ?thesis using untouched_elsewhere other [OF that(2,3)] by blast
  qed
  have "distinct (map fst (streams (put_stream key (unpack s') e)))"
    using engine_invD(1) [OF assms(3)] by (simp add: put_stream_def distinct_update)
  then show ?thesis
    using st(1) k(1) keep unt engine_invD(4) [OF assms(3)]
    by (intro engine_invI) (simp_all add: look split: if_splits)
qed

lemma engine_exec_inv:
  assumes "engine_exec (NewFileDataStreamFactory root config) st evs st'"
    and "st = (NewDataEngine, fs0)" "config_ok config"
    and "\<And>key err. Lookup key err \<in> set evs \<Longrightarrow> valid_key key"
    and "\<And>key k. valid_key key \<Longrightarrow> k \<ge> 10 ^ 8 \<Longrightarrow> stored fs0 (seg_path (data_dir root key) k) = []"
  shows "engine_inv root fs0 evs st'"
  using assms
proof (induction rule: engine_exec.induct)
  case (start s)
  then show ?case
    by (auto intro!: engine_invI simp: NewDataEngine_def stream_trace_def untouched_def)
next
  case (step s evs s' ev s'')
  have IH: "engine_inv root fs0 evs s'" by (rule step.IH) (use step.prems in auto)
  from step.hyps(2) show ?case
  proof cases
    case (lookup key e fs err e' fs')
    have "valid_key key" using step.prems(3) [of key err] lookup(2) by simp
    then show ?thesis
      using engine_lookup_inv [OF lookup(4), of fs0 evs] IH lookup(1-3) step.prems(2,4) by simp
  next
    case (stream e key s fs ev' t)
    then show ?thesis using engine_stream_event_inv [of e key s fs ev' t root fs0 evs] IH by simp
  next
    case (close e r e' fs)
    have same: "streams e' = streams e" using close(4) by (auto simp: engine_Close_begin_def split: if_splits)
    show ?thesis
      using engine_invD [of root fs0 evs e fs] IH close(1-3)
      by (auto intro!: engine_invI simp: same)
  qed
qed

section \<open>Properties of the engine\<close>

text \<open>An engine on an empty disk with one stream, for the witnesses.\<close>

abbreviation demo_sconfig :: DataStreamConfig where
  "demo_sconfig \<equiv> cDataStream (applyConfigDefaults demo_config)"

abbreviation demo_key :: dataStreamKey where
  "demo_key \<equiv> (FLOOR_FIRST, ROOM_LIVING, SENSOR_ID_TEMPERATURE)"

lemma demo_config_ok: "config_ok demo_sconfig"
  using NewConfigSnapshot_Inr(4) [OF demo_snapshot_new] by (auto simp: config_ok_def)

lemma demo_engine_exec:
  "\<exists>e fs s. engine_exec (NewFileDataStreamFactory [''r''] demo_sconfig) (NewDataEngine, demo_fs) [Lookup demo_key []] (e, fs)
     \<and> map_of (streams e) demo_key = Some s"
proof -
  let ?opts = "file_options [''r''] demo_sconfig demo_key"
  have trim: "TrimSpace (path_string (data_dir [''r''] demo_key)) \<noteq> []" by code_simp
  have "\<exists>df fs. OpenDataFile ?opts demo_fs = (Inr df, fs)"
    by (rule OpenDataFile_succeeds [of ?opts demo_fs])
      (use trim config_ok_bounds [OF demo_config_ok] in
        \<open>auto simp: file_options_def DefaultDataFileOptions_def no_faults_def is_file_def is_dir_def lookup_def\<close>)
  then obtain df fs where op: "OpenDataFile ?opts demo_fs = (Inr df, fs)" by blast
  obtain s where s: "NewDataStream df (stream_options demo_sconfig) = Inr s"
    by (rule NewDataStream_config_ok [OF demo_config_ok])
  have "engine_stream (NewFileDataStreamFactory [''r''] demo_sconfig) demo_key NewDataEngine demo_fs
      = ([], \<lparr>streams = [(demo_key, s)], eclosed = False\<rparr>, fs)"
    using op s by (simp add: engine_stream_def NewDataEngine_def NewFileDataStreamFactory_def)
  from engine_exec.step [OF engine_exec.start engine_step.lookup [OF this]]
  show ?thesis by (intro exI [of _ "\<lparr>streams = [(demo_key, s)], eclosed = False\<rparr>"] exI [of _ fs] exI [of _ s]) simp
qed



text \<open>
  C35. The server never retries a failed write: no stream the file factory makes ever has a retry
  counted, whatever \<open>retry_count\<close> is configured, because the factory does not set
  \<open>Retryable\<close>.
\<close>

theorem DataEngine_never_retries:
  assumes "engine_exec (NewFileDataStreamFactory root config) (NewDataEngine, fs0) evs (e, fs)"
    and "config_ok config" "\<And>key err. Lookup key err \<in> set evs \<Longrightarrow> valid_key key"
    and "\<And>key k. valid_key key \<Longrightarrow> k \<ge> 10 ^ 8 \<Longrightarrow> stored fs0 (seg_path (data_dir root key) k) = []"
    and "map_of (streams e) key = Some s"
  shows "Retries (stream_Counters rw s) = 0"
  using engine_invD(3) [OF engine_exec_inv [OF assms(1) refl assms(2-4)] assms(5)]
  by (simp add: stream_inv_def never_retries_def stream_Counters_def Let_def)

theorem DataEngine_never_retries_witness:
  "\<exists>e fs s. map_of (streams e) demo_key = Some s
     \<and> engine_exec (NewFileDataStreamFactory [''r''] demo_sconfig) (NewDataEngine, demo_fs) [Lookup demo_key []] (e, fs)
     \<and> Retries (stream_Counters \<lparr>rwWriteRecord = \<lambda>_ _ _. None, rwFlush = \<lambda>_. None, rwClose = \<lambda>w. ([], w), rwCounters = None\<rparr> s) = 0"
proof -
  obtain e fs s where x: "engine_exec (NewFileDataStreamFactory [''r''] demo_sconfig) (NewDataEngine, demo_fs) [Lookup demo_key []] (e, fs)"
    "map_of (streams e) demo_key = Some s" using demo_engine_exec by blast
  have "Retries (stream_Counters rw s) = 0" for rw
    using DataEngine_never_retries [OF x(1) demo_config_ok _ _ x(2)] by (simp add: valid_key_def stored_def lookup_def)
  then show ?thesis using x by blast
qed

text \<open>
  The counter report does not depend on the order of Go's map iteration: it lists every stream
  once, sorted by floor, room and sensor type, and any other order of the map gives the same list.
\<close>

theorem engine_Counters_sorted:
  assumes "distinct (map fst (streams e))" "mset (streams e') = mset (streams e)"
  shows "engine_Counters rw e' = engine_Counters rw e
    \<and> sorted (map fst (engine_Counters rw e)) \<and> length (engine_Counters rw e) = StreamCount e
    \<and> (\<forall>key s. map_of (streams e) key = Some s \<longrightarrow> (key, stream_Counters rw s) \<in> set (engine_Counters rw e))"
proof -
  let ?f = "\<lambda>(k, s). (k, stream_Counters rw s)"
  have fst: "map fst (map ?f xs) = map fst xs" for xs :: "(dataStreamKey \<times> 'a DataStream) list"
    by (induction xs) auto
  have m: "mset (map ?f (streams e')) = mset (map ?f (streams e))" using assms(2) by simp
  have "inj_on fst (set (map ?f (streams e)))"
    using assms(1) fst [of "streams e"] by (metis distinct_map)
  then have "inj_on fst (set (map ?f (streams e')))" using m by (metis set_mset_mset)
  then have "engine_Counters rw e' = engine_Counters rw e"
    unfolding engine_Counters_def using m by (intro sort_key_inj_key_eq) simp_all
  moreover have "(key, stream_Counters rw s) \<in> set (engine_Counters rw e)" if "map_of (streams e) key = Some s" for key s
    using map_of_SomeD [OF that] by (force simp: engine_Counters_def)
  ultimately show ?thesis by (simp add: engine_Counters_def StreamCount_def)
qed

theorem engine_Counters_sorted_witness:
  "engine_Counters file_writer \<lparr>streams = [((2, 0, 1), demo_stream), ((1, 3, 4), demo_stream)], eclosed = False\<rparr>
    = engine_Counters file_writer \<lparr>streams = [((1, 3, 4), demo_stream), ((2, 0, 1), demo_stream)], eclosed = False\<rparr>"
  using engine_Counters_sorted [of "\<lparr>streams = [((1, 3, 4), demo_stream), ((2, 0, 1), demo_stream)], eclosed = False\<rparr>"
      "\<lparr>streams = [((2, 0, 1), demo_stream), ((1, 3, 4), demo_stream)], eclosed = False\<rparr>" file_writer]
  by (simp add: add_mset_commute)

end
