(* ===== verification/Router.thy ===== *)
theory Router
  imports Protocol DataEngine
begin

text \<open>
  \<open>sensor-server/router.go\<close>: the registry of the current configuration and the router, which
  sends the readings of a known device to the data engine and the messages of unknown devices to
  the quarantine. The two destinations are Go interfaces; here they are functions on a state of
  any type, and the locale \<open>sensor_sink\<close> states what the router relies on for the first. Its
  interpretation is the data engine.

  \<open>Route\<close> loads the snapshot once, so a concurrent reload does not show within a call. The
  context is part of the destinations' state, the observation callback is a list of what it got.
\<close>

section \<open>Types\<close>

type_synonym Transport = u8

abbreviation (input) TransportUnknown :: Transport where "TransportUnknown \<equiv> 0"
abbreviation (input) TransportTCP :: Transport where "TransportTCP \<equiv> 1"
abbreviation (input) TransportUDP :: Transport where "TransportUDP \<equiv> 2"

record ConfigRegistry =
  current :: ConfigSnapshot

record UnknownMessage =
  uTimestamp :: i64
  uTransport :: Transport
  uMessage :: Message

type_synonym 'd SensorDataWriter = "dataStreamKey \<Rightarrow> i64 \<Rightarrow> i32 \<Rightarrow> 'd \<Rightarrow> go_error list \<times> 'd"
type_synonym 'q UnknownMessageWriter = "UnknownMessage \<Rightarrow> 'q \<Rightarrow> go_error list \<times> 'q"

record SensorObservation =
  oMAC :: MACAddress
  oFloor :: FloorType
  oRoom :: RoomType
  oTransport :: Transport
  oSensorType :: SensorType
  oUnitType :: UnitType
  oTimestamp :: i64
  oValue :: i32

record RouterCounters =
  Messages :: nat
  Keepalives :: nat
  RecordsAccepted :: nat
  RecordsRejected :: nat
  UnknownDevices :: nat
  UnknownSensors :: nat
  QuarantineFailures :: nat
  DataEngineFailures :: nat

text \<open>The observer is None when no callback has been installed.\<close>

record MessageRouter =
  registry :: ConfigRegistry
  counters :: RouterCounters
  observed :: "SensorObservation list option"

section \<open>The registry\<close>

definition NewConfigRegistry :: "ConfigSnapshot option \<Rightarrow> go_error list + ConfigRegistry" where
  "NewConfigRegistry snapshot =
     (case snapshot of
        None \<Rightarrow> Inl [ErrText ''new config registry: nil snapshot'']
      | Some s \<Rightarrow> Inr \<lparr>current = s\<rparr>)"

definition registry_Snapshot :: "ConfigRegistry \<Rightarrow> ConfigSnapshot" where
  "registry_Snapshot r = current r"

definition registry_Reload :: "ConfigSnapshot option \<Rightarrow> ConfigRegistry \<Rightarrow> go_error list \<times> ConfigRegistry" where
  "registry_Reload candidate r =
     (let e = ValidateReload (current r) candidate in
      if e \<noteq> [] then (e, r)
      else (case candidate of None \<Rightarrow> ([], r) | Some s \<Rightarrow> ([], r\<lparr>current := s\<rparr>)))"

section \<open>The router\<close>

definition zeroCounters :: RouterCounters where
  "zeroCounters = \<lparr>Messages = 0, Keepalives = 0, RecordsAccepted = 0, RecordsRejected = 0, UnknownDevices = 0,
     UnknownSensors = 0, QuarantineFailures = 0, DataEngineFailures = 0\<rparr>"

text \<open>The writers the router keeps are arguments of \<open>Route\<close>; the constructor refuses nil ones.\<close>

definition NewMessageRouter :: "ConfigRegistry option \<Rightarrow> 'd SensorDataWriter option \<Rightarrow> 'q UnknownMessageWriter option
    \<Rightarrow> go_error list + MessageRouter" where
  "NewMessageRouter r dw uw =
     (case r of
        None \<Rightarrow> Inl [ErrText ''new message router: nil config registry'']
      | Some r \<Rightarrow>
          if dw = None then Inl [ErrText ''new message router: nil data writer'']
          else if uw = None then Inl [ErrText ''new message router: nil unknown message writer'']
          else Inr \<lparr>registry = r, counters = zeroCounters, observed = None\<rparr>)"

text \<open>Copying the slices of a message does not change its value.\<close>

definition cloneMessage :: "Message \<Rightarrow> Message" where
  "cloneMessage m = m"

definition observe :: "SensorObservation \<Rightarrow> MessageRouter \<Rightarrow> MessageRouter" where
  "observe ob r = r\<lparr>observed := map_option (\<lambda>obs. obs @ [ob]) (observed r)\<rparr>"

fun routeRecords :: "'d SensorDataWriter \<Rightarrow> ConfigSnapshot \<Rightarrow> MACAddress \<Rightarrow> Device \<Rightarrow> Transport \<Rightarrow> i64 \<Rightarrow> SensorRecord list
    \<Rightarrow> MessageRouter \<Rightarrow> 'd \<Rightarrow> go_error list \<times> MessageRouter \<times> 'd" where
  "routeRecords dw snap mac dev transport ts [] r d = ([], r, d)"
| "routeRecords dw snap mac dev transport ts (rec # recs) r d =
     (case snapshot_Sensor snap (RecType rec) of
        None \<Rightarrow>
          (let c = counters r;
               r = r\<lparr>counters := c\<lparr>UnknownSensors := UnknownSensors c + 1, RecordsRejected := RecordsRejected c + 1\<rparr>\<rparr>;
               (e, r, d) = routeRecords dw snap mac dev transport ts recs r d
           in (errors_Join [ErrUnknownSensor] e, r, d))
      | Some sensor \<Rightarrow>
          (let r = observe \<lparr>oMAC = mac, oFloor = devFloor dev, oRoom = devRoom dev, oTransport = transport,
                            oSensorType = RecType rec, oUnitType = sdUnit sensor, oTimestamp = ts, oValue = Value rec\<rparr> r;
               (err, d) = dw (devFloor dev, devRoom dev, sdType sensor) ts (Value rec) d;
               c = counters r;
               r = (if err \<noteq> []
                    then r\<lparr>counters := c\<lparr>DataEngineFailures := DataEngineFailures c + 1, RecordsRejected := RecordsRejected c + 1\<rparr>\<rparr>
                    else r\<lparr>counters := c\<lparr>RecordsAccepted := RecordsAccepted c + 1\<rparr>\<rparr>);
               (e, r, d) = routeRecords dw snap mac dev transport ts recs r d
           in (errors_Join err e, r, d)))"

definition Route :: "'d SensorDataWriter \<Rightarrow> 'q UnknownMessageWriter \<Rightarrow> Transport \<Rightarrow> i64 \<Rightarrow> Message
    \<Rightarrow> MessageRouter \<Rightarrow> 'd \<Rightarrow> 'q \<Rightarrow> go_error list \<times> MessageRouter \<times> 'd \<times> 'q" where
  "Route dw uw transport ts message r d q =
     (let c = counters r;
          c = c\<lparr>Messages := Messages c + 1\<rparr>;
          c = (if Sensors message = [] then c\<lparr>Keepalives := Keepalives c + 1\<rparr> else c);
          snap = registry_Snapshot (registry r)
      in case snapshot_Device snap (MAC (Header message)) of
           None \<Rightarrow>
             (let c = c\<lparr>UnknownDevices := UnknownDevices c + 1\<rparr>;
                  (err, q) = uw \<lparr>uTimestamp = ts, uTransport = transport, uMessage = cloneMessage message\<rparr> q
              in if err \<noteq> []
                 then (err, r\<lparr>counters := c\<lparr>QuarantineFailures := QuarantineFailures c + 1\<rparr>\<rparr>, d, q)
                 else ([ErrUnknownDevice], r\<lparr>counters := c\<rparr>, d, q))
         | Some dev \<Rightarrow>
             (let (err, r, d) = routeRecords dw snap (MAC (Header message)) dev transport ts (Sensors message) (r\<lparr>counters := c\<rparr>) d
              in (err, r, d, q)))"

definition router_Counters :: "MessageRouter \<Rightarrow> RouterCounters" where
  "router_Counters r = counters r"

section \<open>What a message asks for\<close>

text \<open>The writes the readings of a known device lead to, and their execution one after the
  other.\<close>

definition writes_of :: "ConfigSnapshot \<Rightarrow> Device \<Rightarrow> i64 \<Rightarrow> SensorRecord list \<Rightarrow> (dataStreamKey \<times> i64 \<times> i32) list" where
  "writes_of snap dev ts recs =
     concat (map (\<lambda>rec. case snapshot_Sensor snap (RecType rec) of
                          None \<Rightarrow> []
                        | Some sensor \<Rightarrow> [((devFloor dev, devRoom dev, sdType sensor), ts, Value rec)]) recs)"

fun run_writes :: "'d SensorDataWriter \<Rightarrow> (dataStreamKey \<times> i64 \<times> i32) list \<Rightarrow> 'd \<Rightarrow> go_error list list \<times> 'd" where
  "run_writes dw [] d = ([], d)"
| "run_writes dw ((k, ts, v) # ws) d =
     (let (e, d) = dw k ts v d; (es, d) = run_writes dw ws d in (e # es, d))"

lemma run_writes_length [simp]: "length (fst (run_writes dw ws d)) = length ws"
  by (induction ws arbitrary: d) (auto simp: split_beta Let_def)

lemma writes_of_Cons:
  "writes_of snap dev ts (rec # recs) =
     (case snapshot_Sensor snap (RecType rec) of
        None \<Rightarrow> writes_of snap dev ts recs
      | Some sensor \<Rightarrow> ((devFloor dev, devRoom dev, sdType sensor), ts, Value rec) # writes_of snap dev ts recs)"
  by (simp add: writes_of_def split: option.splits)

lemma length_writes_of: "length (writes_of snap dev ts recs) \<le> length recs"
  by (induction recs) (auto simp: writes_of_Cons writes_of_def split: option.splits)

abbreviation successes :: "go_error list list \<Rightarrow> nat" where
  "successes es \<equiv> length (filter (\<lambda>e. e = []) es)"

lemma observe_simps [simp]: "counters (observe ob r) = counters r" "registry (observe ob r) = registry r"
  by (simp_all add: observe_def)

lemma routeRecords_spec:
  assumes "routeRecords dw snap mac dev transport ts recs r d = (e, r', d')"
    and "run_writes dw (writes_of snap dev ts recs) d = (es, d'')"
  shows "d' = d'' \<and> registry r' = registry r
    \<and> (e = [] \<longleftrightarrow> (\<forall>x \<in> set es. x = []) \<and> length (writes_of snap dev ts recs) = length recs)
    \<and> counters r' = (counters r)\<lparr>
        RecordsAccepted := RecordsAccepted (counters r) + successes es,
        RecordsRejected := RecordsRejected (counters r) + (length recs - successes es),
        UnknownSensors := UnknownSensors (counters r) + (length recs - length es),
        DataEngineFailures := DataEngineFailures (counters r) + (length es - successes es)\<rparr>"
  using assms
proof (induction recs arbitrary: r d e es)
  case Nil
  then show ?case by (simp add: writes_of_def)
next
  case (Cons rec recs)
  note len = length_writes_of [of snap dev ts recs]
  show ?case
  proof (cases "snapshot_Sensor snap (RecType rec)")
    case None
    let ?c = "counters r"
    let ?r = "r\<lparr>counters := ?c\<lparr>UnknownSensors := UnknownSensors ?c + 1, RecordsRejected := RecordsRejected ?c + 1\<rparr>\<rparr>"
    obtain e1 r1 d1 where rec: "routeRecords dw snap mac dev transport ts recs ?r d = (e1, r1, d1)"
      by (cases "routeRecords dw snap mac dev transport ts recs ?r d")
    have es: "run_writes dw (writes_of snap dev ts recs) d = (es, d'')"
      using Cons.prems(2) None by (simp add: writes_of_Cons)
    have el: "length es = length (writes_of snap dev ts recs)"
      using run_writes_length [of dw "writes_of snap dev ts recs" d] es by simp
    have out: "e = ErrUnknownSensor # e1" "r' = r1" "d' = d1"
      using Cons.prems(1) None rec by (auto simp: Let_def errors_Join_def)
    have "successes es \<le> length es" by simp
    then show ?thesis
      using Cons.IH [OF rec [folded out] es] out el len None by (auto simp: writes_of_Cons)
  next
    case (Some sensor)
    let ?k = "(devFloor dev, devRoom dev, sdType sensor)"
    let ?r = "observe \<lparr>oMAC = mac, oFloor = devFloor dev, oRoom = devRoom dev, oTransport = transport,
                oSensorType = RecType rec, oUnitType = sdUnit sensor, oTimestamp = ts, oValue = Value rec\<rparr> r"
    obtain x d1 where w: "dw ?k ts (Value rec) d = (x, d1)" by (cases "dw ?k ts (Value rec) d")
    let ?c = "counters r"
    let ?r1 = "if x \<noteq> []
        then ?r\<lparr>counters := ?c\<lparr>DataEngineFailures := DataEngineFailures ?c + 1, RecordsRejected := RecordsRejected ?c + 1\<rparr>\<rparr>
        else ?r\<lparr>counters := ?c\<lparr>RecordsAccepted := RecordsAccepted ?c + 1\<rparr>\<rparr>"
    obtain e1 r1 d2 where rec: "routeRecords dw snap mac dev transport ts recs ?r1 d1 = (e1, r1, d2)"
      by (cases "routeRecords dw snap mac dev transport ts recs ?r1 d1")
    obtain es1 where es: "run_writes dw (writes_of snap dev ts recs) d1 = (es1, d'')" "es = x # es1"
      using Cons.prems(2) Some w
      by (cases "run_writes dw (writes_of snap dev ts recs) d1") (auto simp: writes_of_Cons)
    have el: "length es1 = length (writes_of snap dev ts recs)"
      using run_writes_length [of dw "writes_of snap dev ts recs" d1] es by simp
    have out: "e = x @ e1" "r' = r1" "d' = d2"
      using Cons.prems(1) Some w rec by (cases "x = []"; simp add: Let_def errors_Join_def)+
    have "successes es1 \<le> length es1" by simp
    then show ?thesis
      using Cons.IH [OF rec [folded out] es(1)] out el len Some es(2)
      by (cases "x = []") (auto simp: writes_of_Cons Suc_diff_le)
  qed
qed

lemma Route_known:
  assumes "Route dw uw transport ts m r d q = (e, r', d', q')"
    and "snapshot_Device (registry_Snapshot (registry r)) (MAC (Header m)) = Some dev"
    and "run_writes dw (writes_of (registry_Snapshot (registry r)) dev ts (Sensors m)) d = (es, d'')"
  shows "d' = d''" "q' = q" "registry r' = registry r"
    "e = [] \<longleftrightarrow> (\<forall>x \<in> set es. x = []) \<and> length es = length (Sensors m)"
    "counters r' = (counters r)\<lparr>
        Messages := Messages (counters r) + 1,
        Keepalives := Keepalives (counters r) + (if Sensors m = [] then 1 else 0),
        RecordsAccepted := RecordsAccepted (counters r) + successes es,
        RecordsRejected := RecordsRejected (counters r) + (length (Sensors m) - successes es),
        UnknownSensors := UnknownSensors (counters r) + (length (Sensors m) - length es),
        DataEngineFailures := DataEngineFailures (counters r) + (length es - successes es)\<rparr>"
proof -
  let ?snap = "registry_Snapshot (registry r)"
  define c where "c = (if Sensors m = []
      then (counters r)\<lparr>Messages := Messages (counters r) + 1, Keepalives := Keepalives (counters r) + 1\<rparr>
      else (counters r)\<lparr>Messages := Messages (counters r) + 1\<rparr>)"
  obtain e1 r1 d1 where rr: "routeRecords dw ?snap (MAC (Header m)) dev transport ts (Sensors m) (r\<lparr>counters := c\<rparr>) d = (e1, r1, d1)"
    by (cases "routeRecords dw ?snap (MAC (Header m)) dev transport ts (Sensors m) (r\<lparr>counters := c\<rparr>) d")
  have out: "e = e1" "r' = r1" "d' = d1" "q' = q"
    using assms(1,2) rr unfolding Route_def c_def by (auto simp: Let_def split: if_splits)
  note sp = routeRecords_spec [OF rr assms(3)]
  have len: "length es = length (writes_of ?snap dev ts (Sensors m))"
    using run_writes_length [of dw "writes_of ?snap dev ts (Sensors m)" d] assms(3) by simp
  show "d' = d''" "q' = q" "registry r' = registry r"
    "e = [] \<longleftrightarrow> (\<forall>x \<in> set es. x = []) \<and> length es = length (Sensors m)"
    using sp out len by auto
  show "counters r' = (counters r)\<lparr>
        Messages := Messages (counters r) + 1,
        Keepalives := Keepalives (counters r) + (if Sensors m = [] then 1 else 0),
        RecordsAccepted := RecordsAccepted (counters r) + successes es,
        RecordsRejected := RecordsRejected (counters r) + (length (Sensors m) - successes es),
        UnknownSensors := UnknownSensors (counters r) + (length (Sensors m) - length es),
        DataEngineFailures := DataEngineFailures (counters r) + (length es - successes es)\<rparr>"
    using sp out by (simp add: c_def)
qed

lemma Route_unknown:
  assumes "Route dw uw transport ts m r d q = (e, r', d', q')"
    and "snapshot_Device (registry_Snapshot (registry r)) (MAC (Header m)) = None"
    and "uw \<lparr>uTimestamp = ts, uTransport = transport, uMessage = m\<rparr> q = (x, q'')"
  shows "d' = d" "q' = q''" "registry r' = registry r" "e = (if x \<noteq> [] then x else [ErrUnknownDevice])"
    "counters r' = (counters r)\<lparr>
        Messages := Messages (counters r) + 1,
        Keepalives := Keepalives (counters r) + (if Sensors m = [] then 1 else 0),
        UnknownDevices := UnknownDevices (counters r) + 1,
        QuarantineFailures := QuarantineFailures (counters r) + (if x \<noteq> [] then 1 else 0)\<rparr>"
  using assms by (auto simp: Route_def Let_def cloneMessage_def split: if_splits)

section \<open>The contract of the data engine\<close>

text \<open>The records a list of writes asks for under the key \<open>k\<close>.\<close>

definition wanted :: "dataStreamKey \<Rightarrow> (dataStreamKey \<times> i64 \<times> i32) list \<Rightarrow> SensorData list" where
  "wanted k ws = map (\<lambda>(k', ts, v). \<lparr>Timestamp = ts, DValue = v\<rparr>) (filter (\<lambda>(k', ts, v). k' = k) ws)"

text \<open>What a router relies on: \<open>view d k\<close> is the list of records accepted for the stream \<open>k\<close>; a
  write that succeeds adds its record there and changes no other stream, one that fails changes
  none.\<close>

locale sensor_sink =
  fixes sink :: "'d SensorDataWriter"
    and view :: "'d \<Rightarrow> dataStreamKey \<Rightarrow> SensorData list"
  assumes sink_ok: "sink k ts v d = ([], d') \<Longrightarrow>
      view d' = (view d)(k := view d k @ [\<lparr>Timestamp = ts, DValue = v\<rparr>])"
    and sink_err: "sink k ts v d = (e, d') \<Longrightarrow> e \<noteq> [] \<Longrightarrow> view d' = view d"
begin

lemma run_writes_view:
  assumes "run_writes sink ws d = (es, d')"
  shows "view d' k = view d k @ wanted k (map fst (filter (\<lambda>(w, e). e = []) (zip ws es)))"
  using assms
proof (induction ws arbitrary: d es)
  case Nil
  then show ?case by (simp add: wanted_def)
next
  case (Cons w ws)
  obtain k' ts v where w: "w = (k', ts, v)" by (cases w)
  obtain e d1 where s: "sink k' ts v d = (e, d1)" by (cases "sink k' ts v d")
  obtain es1 where r: "run_writes sink ws d1 = (es1, d')" "es = e # es1"
    using Cons.prems w s by (cases "run_writes sink ws d1") auto
  show ?case
  proof (cases "e = []")
    case True
    then show ?thesis
      using Cons.IH [OF r(1)] sink_ok [of k' ts v d d1] s r(2) w by (auto simp: wanted_def)
  next
    case False
    then show ?thesis using Cons.IH [OF r(1)] sink_err [OF s False] r(2) w by (simp add: wanted_def)
  qed
qed

lemma run_writes_all:
  assumes "run_writes sink ws d = (es, d')" "\<forall>x \<in> set es. x = []"
  shows "view d' k = view d k @ wanted k ws"
proof -
  have "length es = length ws" using run_writes_length [of sink ws d] assms(1) by simp
  moreover have "e = []" if "(w, e) \<in> set (zip ws es)" for w e
    using assms(2) set_zip_rightD [OF that] by simp
  then have "filter (\<lambda>(w, e). e = []) (zip ws es) = zip ws es" by (auto intro: filter_True)
  ultimately show ?thesis using run_writes_view [OF assms(1), of k] by simp
qed

end

text \<open>The engine as the router's destination: the send is taken when there is room, the timer
  otherwise.\<close>

definition engine_sink :: "('w, 'env) DataStreamFactory \<Rightarrow> ('w DataEngine \<times> 'env) SensorDataWriter" where
  "engine_sink factory k ts v st =
     (case engine_WriteSensorData factory Send k \<lparr>Timestamp = ts, DValue = v\<rparr> (fst st) (snd st) of
        Next (err, e, env) \<Rightarrow> (err, (e, env))
      | _ \<Rightarrow>
          (case engine_WriteSensorData factory TimerFired k \<lparr>Timestamp = ts, DValue = v\<rparr> (fst st) (snd st) of
             Next (err, e, env) \<Rightarrow> (err, (e, env))
           | _ \<Rightarrow> ([ErrDataStreamFull], st)))"

definition engine_view :: "'w DataEngine \<times> 'env \<Rightarrow> dataStreamKey \<Rightarrow> SensorData list" where
  "engine_view st k = (case map_of (streams (fst st)) k of None \<Rightarrow> [] | Some s \<Rightarrow> queue s)"

lemma engine_stream_view:
  assumes "engine_stream (NewFileDataStreamFactory root config) k e fs = (err, e', fs')"
  shows "engine_view (e', fs') = engine_view (e, fs)"
    "err = [] \<Longrightarrow> \<exists>s. map_of (streams e') k = Some s \<and> queue s = engine_view (e, fs) k"
proof -
  obtain r fs1 where f: "NewFileDataStreamFactory root config k fs = (r, fs1)"
    by (cases "NewFileDataStreamFactory root config k fs")
  have new: "queue s = []" if "r = Inr s" for s
    using f that
    by (auto simp: NewFileDataStreamFactory_def NewDataStream_def split: sum.splits prod.splits if_splits)
  have "engine_view (e', fs') = engine_view (e, fs)
    \<and> (err = [] \<longrightarrow> (\<exists>s. map_of (streams e') k = Some s \<and> queue s = engine_view (e, fs) k) \<or> (\<exists>x. r = Inl x \<and> x = []))"
  proof (cases "eclosed e \<or> map_of (streams e) k \<noteq> None")
    case True
    then show ?thesis using assms by (auto simp: engine_stream_def engine_view_def split: if_splits option.splits)
  next
    case False
    show ?thesis
    proof (cases r)
      case (Inl x)
      then show ?thesis using assms f False by (auto simp: engine_stream_def engine_view_def)
    next
      case (Inr s)
      have "e' = e\<lparr>streams := streams e @ [(k, s)]\<rparr>" "fs' = fs1"
        using assms f False Inr by (auto simp: engine_stream_def)
      then show ?thesis
        using False new [OF Inr]
        by (auto simp: engine_view_def fun_eq_iff map_add_def split: option.splits)
    qed
  qed
  moreover have "x \<noteq> []" if "r = Inl x" for x
    using NewFileDataStreamFactory_err f that by auto
  ultimately show "engine_view (e', fs') = engine_view (e, fs)"
    "err = [] \<Longrightarrow> \<exists>s. map_of (streams e') k = Some s \<and> queue s = engine_view (e, fs) k"
    by auto
qed

lemma engine_view_put:
  assumes "map_of (streams e) k = Some s"
  shows "engine_view (put_stream k s' e, env) = (engine_view (e, env))(k := queue s')"
  using assms by (auto simp: engine_view_def put_stream_def fun_eq_iff update_conv')

lemma stream_Write_queue:
  assumes "stream_Write c data s = Next (err, s')"
  shows "queue s' = (if err = [] then queue s @ [data] else queue s)"
  using assms by (cases c) (auto simp: stream_Write_def split: if_splits)

lemma engine_Write_view:
  assumes "engine_WriteSensorData (NewFileDataStreamFactory root config) c k data e fs = Next (err, e', fs')"
  shows "engine_view (e', fs') =
    (if err = [] then (engine_view (e, fs))(k := engine_view (e, fs) k @ [data]) else engine_view (e, fs))"
proof (cases "eclosed e")
  case True
  then show ?thesis using assms by (auto simp: engine_WriteSensorData_def)
next
  case False
  obtain err1 e1 fs1 where st: "engine_stream (NewFileDataStreamFactory root config) k e fs = (err1, e1, fs1)"
    by (cases "engine_stream (NewFileDataStreamFactory root config) k e fs")
  note view = engine_stream_view [OF st]
  show ?thesis
  proof (cases "err1 = []")
    case True
    then obtain s where s: "map_of (streams e1) k = Some s" "queue s = engine_view (e, fs) k" using view by auto
    obtain s' where w: "stream_Write c data s = Next (err, s')" and e': "e' = put_stream k s' e1" "fs' = fs1"
      using assms False st True s(1) by (auto simp: engine_WriteSensorData_def split: outcome.splits)
    show ?thesis
      using engine_view_put [OF s(1), of s' fs1] stream_Write_queue [OF w] view(1) s(2) e' by auto
  next
    case err: False
    then show ?thesis using assms False st view(1) by (auto simp: engine_WriteSensorData_def)
  qed
qed

lemma engine_sink_view:
  assumes "engine_sink (NewFileDataStreamFactory root config) k ts v d = (err, d')"
  shows "engine_view d' = (if err = [] then (engine_view d)(k := engine_view d k @ [\<lparr>Timestamp = ts, DValue = v\<rparr>])
    else engine_view d)"
  using assms engine_Write_view [of root config _ k "\<lparr>Timestamp = ts, DValue = v\<rparr>" "fst d" "snd d"]
  by (auto simp: engine_sink_def split: outcome.splits prod.splits)

interpretation es: sensor_sink "engine_sink (NewFileDataStreamFactory root config)" engine_view for root config
  using engine_sink_view [of root config] by unfold_locales (simp_all split: if_splits)

section \<open>Sequences of messages and reloads\<close>

datatype router_event = Routed Transport i64 Message | Reloaded "ConfigSnapshot option"

fun router_run :: "'d SensorDataWriter \<Rightarrow> 'q UnknownMessageWriter \<Rightarrow> router_event list \<Rightarrow> MessageRouter \<Rightarrow> 'd \<Rightarrow> 'q
    \<Rightarrow> MessageRouter \<times> 'd \<times> 'q" where
  "router_run dw uw [] r d q = (r, d, q)"
| "router_run dw uw (Routed transport ts m # evs) r d q =
     (let (e, r, d, q) = Route dw uw transport ts m r d q in router_run dw uw evs r d q)"
| "router_run dw uw (Reloaded c # evs) r d q =
     router_run dw uw evs (r\<lparr>registry := snd (registry_Reload c (registry r))\<rparr>) d q"

text \<open>Each message with the snapshot it was routed under: the registry does not depend on what is
  routed.\<close>

fun timeline :: "router_event list \<Rightarrow> ConfigRegistry \<Rightarrow> (ConfigSnapshot \<times> Message) list" where
  "timeline [] g = []"
| "timeline (Routed transport ts m # evs) g = (registry_Snapshot g, m) # timeline evs g"
| "timeline (Reloaded c # evs) g = timeline evs (snd (registry_Reload c g))"

definition known :: "ConfigSnapshot \<times> Message \<Rightarrow> bool" where
  "known x \<longleftrightarrow> snapshot_Device (fst x) (MAC (Header (snd x))) \<noteq> None"

definition unknown_records :: "ConfigSnapshot \<times> Message \<Rightarrow> nat" where
  "unknown_records x = length (filter (\<lambda>rec. snapshot_Sensor (fst x) (RecType rec) = None) (Sensors (snd x)))"

definition counted :: "(ConfigSnapshot \<times> Message) list \<Rightarrow> RouterCounters \<Rightarrow> RouterCounters \<Rightarrow> bool" where
  "counted xs c c' \<longleftrightarrow>
     Messages c' = Messages c + length xs
   \<and> Keepalives c' = Keepalives c + length (filter (\<lambda>x. Sensors (snd x) = []) xs)
   \<and> UnknownDevices c' = UnknownDevices c + length (filter (\<lambda>x. \<not> known x) xs)
   \<and> RecordsAccepted c' + RecordsRejected c' = RecordsAccepted c + RecordsRejected c
       + sum_list (map (\<lambda>x. length (Sensors (snd x))) (filter known xs))
   \<and> UnknownSensors c' = UnknownSensors c + sum_list (map unknown_records (filter known xs))
   \<and> RecordsRejected c' + UnknownSensors c + DataEngineFailures c
       = RecordsRejected c + UnknownSensors c' + DataEngineFailures c'
   \<and> QuarantineFailures c' + UnknownDevices c \<le> QuarantineFailures c + UnknownDevices c'"

lemma unknown_records_writes:
  "unknown_records (snap, m) = length (Sensors m) - length (writes_of snap dev ts (Sensors m))"
proof -
  have "length (filter (\<lambda>rec. snapshot_Sensor snap (RecType rec) = None) recs) + length (writes_of snap dev ts recs) = length recs" for recs
    by (induction recs) (auto simp: writes_of_def split: option.splits)
  from this [of "Sensors m"] have "unknown_records (snap, m) + length (writes_of snap dev ts (Sensors m)) = length (Sensors m)"
    by (simp add: unknown_records_def)
  then show ?thesis by simp
qed

lemma counted_Cons:
  assumes "counted [x] c c1" "counted xs c1 c2"
  shows "counted (x # xs) c c2"
  using assms by (auto simp: counted_def)

lemma Route_counted:
  assumes "Route dw uw transport ts m r d q = (e, r', d', q')"
  shows "registry r' = registry r \<and> counted [(registry_Snapshot (registry r), m)] (counters r) (counters r')"
proof (cases "snapshot_Device (registry_Snapshot (registry r)) (MAC (Header m))")
  case None
  obtain x q'' where "uw \<lparr>uTimestamp = ts, uTransport = transport, uMessage = m\<rparr> q = (x, q'')"
    by (cases "uw \<lparr>uTimestamp = ts, uTransport = transport, uMessage = m\<rparr> q")
  from Route_unknown [OF assms None this] show ?thesis by (simp add: counted_def known_def None)
next
  case (Some dev)
  let ?ws = "writes_of (registry_Snapshot (registry r)) dev ts (Sensors m)"
  obtain es d'' where w: "run_writes dw ?ws d = (es, d'')" by (cases "run_writes dw ?ws d")
  have len: "length es = length ?ws" "length ?ws \<le> length (Sensors m)"
    using run_writes_length [of dw ?ws d] w length_writes_of by auto
  moreover have "successes es \<le> length es" by simp
  moreover have "unknown_records (registry_Snapshot (registry r), m) = length (Sensors m) - length es"
    using unknown_records_writes [of _ m dev ts] len by simp
  ultimately show ?thesis
    using Route_known(3,5) [OF assms Some w] by (cases "Sensors m = []") (simp_all add: counted_def known_def Some)
qed

lemma router_run_counted:
  assumes "router_run dw uw evs r d q = (r', d', q')"
  shows "counted (timeline evs (registry r)) (counters r) (counters r')"
  using assms
proof (induction dw uw evs r d q rule: router_run.induct)
  case (1 dw uw r d q)
  then show ?case by (simp add: counted_def)
next
  case (2 dw uw transport ts m evs r d q)
  obtain e r1 d1 q1 where R: "Route dw uw transport ts m r d q = (e, r1, d1, q1)"
    by (cases "Route dw uw transport ts m r d q")
  have "router_run dw uw evs r1 d1 q1 = (r', d', q')" using "2.prems" R by simp
  with "2.IH" [OF R [symmetric] refl refl refl] have "counted (timeline evs (registry r1)) (counters r1) (counters r')"
    by simp
  then show ?case using Route_counted [OF R] by (auto intro: counted_Cons)
next
  case (3 dw uw c evs r d q)
  then show ?case by simp
qed

text \<open>The registry after a sequence, and what every snapshot it publishes has in common.\<close>

lemma registry_Reload_cases:
  "registry_Reload c g = (e, g') \<Longrightarrow>
     (e \<noteq> [] \<and> g' = g) \<or> (\<exists>s. e = [] \<and> c = Some s \<and> g' = \<lparr>current = s\<rparr> \<and> ValidateReload (current g) (Some s) = [])"
  by (cases c; cases g) (auto simp: registry_Reload_def Let_def ValidateReload_def split: if_splits)

section \<open>Properties of the router\<close>

text \<open>What the observer is told of a message of a known device.\<close>

definition observations_of :: "ConfigSnapshot \<Rightarrow> MACAddress \<Rightarrow> Device \<Rightarrow> Transport \<Rightarrow> i64 \<Rightarrow> SensorRecord list
    \<Rightarrow> SensorObservation list" where
  "observations_of snap mac dev transport ts recs =
     concat (map (\<lambda>rec. case snapshot_Sensor snap (RecType rec) of
                          None \<Rightarrow> []
                        | Some sensor \<Rightarrow>
                            [\<lparr>oMAC = mac, oFloor = devFloor dev, oRoom = devRoom dev, oTransport = transport,
                              oSensorType = RecType rec, oUnitType = sdUnit sensor, oTimestamp = ts,
                              oValue = Value rec\<rparr>]) recs)"

lemma routeRecords_observed:
  assumes "routeRecords dw snap mac dev transport ts recs r d = (e, r', d')"
  shows "observed r' = map_option (\<lambda>obs. obs @ observations_of snap mac dev transport ts recs) (observed r)"
  using assms
proof (induction recs arbitrary: r d e)
  case Nil
  then show ?case by (cases "observed r") (simp_all add: observations_of_def)
next
  case (Cons rec recs)
  obtain r1 d1 e1 where R: "routeRecords dw snap mac dev transport ts recs r1 d1 = (e1, r', d')"
    and o1: "observed r1 = (case snapshot_Sensor snap (RecType rec) of None \<Rightarrow> observed r
      | Some sensor \<Rightarrow> map_option (\<lambda>obs. obs @ [\<lparr>oMAC = mac, oFloor = devFloor dev, oRoom = devRoom dev,
          oTransport = transport, oSensorType = RecType rec, oUnitType = sdUnit sensor, oTimestamp = ts,
          oValue = Value rec\<rparr>]) (observed r))"
    using Cons.prems by (auto simp: Let_def observe_def split: option.splits prod.splits if_splits)
  show ?case
    using Cons.IH [OF R] o1 by (cases "observed r") (auto simp: observations_of_def split: option.splits)
qed

lemma Route_observed:
  assumes "Route dw uw transport ts m r d q = (e, r', d', q')"
  shows "observed r' = (case snapshot_Device (registry_Snapshot (registry r)) (MAC (Header m)) of
      None \<Rightarrow> observed r
    | Some dev \<Rightarrow> map_option (\<lambda>obs. obs @ observations_of (registry_Snapshot (registry r)) (MAC (Header m)) dev transport ts (Sensors m)) (observed r))"
  using assms routeRecords_observed [of dw _ "MAC (Header m)" _ transport ts "Sensors m"]
  by (auto simp: Route_def Let_def split: option.splits prod.splits if_splits)

lemma demo_device:
  "snapshot_Device demo_snapshot (MACAddress 2 0 0 0xab 0xcd 0xef)
    = Some \<lparr>devMAC = MACAddress 2 0 0 0xab 0xcd 0xef, devFloor = FLOOR_SECOND, devRoom = ROOM_LIVING\<rparr>"
  "snapshot_Device demo_snapshot (MACAddress 2 0 0 0 0 0) = None"
proof -
  have "FloorTypeFromString ''second'' = FLOOR_SECOND" "RoomTypeFromString ''living'' = ROOM_LIVING" by code_simp+
  then show "snapshot_Device demo_snapshot (MACAddress 2 0 0 0xab 0xcd 0xef)
    = Some \<lparr>devMAC = MACAddress 2 0 0 0xab 0xcd 0xef, devFloor = FLOOR_SECOND, devRoom = ROOM_LIVING\<rparr>"
    "snapshot_Device demo_snapshot (MACAddress 2 0 0 0 0 0) = None"
    using demo_mac by (simp_all add: snapshot_Device_def demo_snapshot_def demo_config_def add_device_def Let_def)
qed

definition demo_router :: MessageRouter where
  "demo_router = \<lparr>registry = \<lparr>current = demo_snapshot\<rparr>, counters = zeroCounters, observed = Some []\<rparr>"

definition demo_message :: "MACAddress \<Rightarrow> Message" where
  "demo_message mac = \<lparr>Header = \<lparr>Magic = MessageMagic, MsgType = MessageTypeSensorData, PayloadLength = 0, MAC = mac, Checksum = 0\<rparr>,
     Payload = [], Sensors = [\<lparr>RecType = 1, Value = 21\<rparr>, \<lparr>RecType = 2, Value = 40\<rparr>]\<rparr>"

lemmas demo_router_simps = demo_router_def demo_message_def demo_device registry_Snapshot_def



text \<open>
  C9. A message of an unknown device reaches the quarantine once, whole, with its time and
  transport, and never the data engine, the observer or the record counters. \<open>Route\<close> never returns
  nil for it: it returns \<open>ErrUnknownDevice\<close>, or the error of the quarantine, which is then counted.
\<close>

theorem Route_quarantines:
  assumes "Route dw uw transport ts m r d q = (e, r', d', q')"
    and "snapshot_Device (registry_Snapshot (registry r)) (MAC (Header m)) = None"
  shows "d' = d \<and> observed r' = observed r \<and> registry r' = registry r
    \<and> (\<exists>x. uw \<lparr>uTimestamp = ts, uTransport = transport, uMessage = m\<rparr> q = (x, q')
        \<and> e = (if x = [] then [ErrUnknownDevice] else x)
        \<and> router_Counters r' = (router_Counters r)\<lparr>
            Messages := Messages (router_Counters r) + 1,
            Keepalives := Keepalives (router_Counters r) + (if Sensors m = [] then 1 else 0),
            UnknownDevices := UnknownDevices (router_Counters r) + 1,
            QuarantineFailures := QuarantineFailures (router_Counters r) + (if x = [] then 0 else 1)\<rparr>)"
proof -
  obtain x q'' where w: "uw \<lparr>uTimestamp = ts, uTransport = transport, uMessage = m\<rparr> q = (x, q'')"
    by (cases "uw \<lparr>uTimestamp = ts, uTransport = transport, uMessage = m\<rparr> q")
  from Route_unknown [OF assms w] Route_observed [OF assms(1)] assms(2) w show ?thesis
    by (auto simp: router_Counters_def)
qed

theorem Route_quarantines_witness:
  "snd (snd (snd (Route (\<lambda>k ts v d. ([], d @ [(k, ts, v)])) (\<lambda>u q. ([], q @ [u])) TransportTCP 7
      (demo_message (MACAddress 2 0 0 0 0 0)) demo_router [] [])))
    = [\<lparr>uTimestamp = 7, uTransport = TransportTCP, uMessage = demo_message (MACAddress 2 0 0 0 0 0)\<rparr>]"
proof -
  let ?m = "demo_message (MACAddress 2 0 0 0 0 0)"
  let ?R = "Route (\<lambda>k ts v d. ([], d @ [(k, ts, v)])) (\<lambda>u q. ([], q @ [u])) TransportTCP 7 ?m demo_router [] []"
  obtain e r' d' q' where R: "?R = (e, r', d', q')" by (cases ?R)
  have "registry_Snapshot (registry demo_router) = demo_snapshot" by (simp add: demo_router_simps)
  moreover have "MAC (Header ?m) = MACAddress 2 0 0 0 0 0" by (simp add: demo_router_simps)
  ultimately show ?thesis using Route_quarantines [OF R] demo_device(2) R by auto
qed

text \<open>
  C10. However messages and reloads follow each other and whatever the two destinations answer, the
  counters of a router balance: every message is counted once and every empty one as a keepalive; a
  message counts as unknown exactly when its device was unknown at that time; the accepted and
  rejected records together are the records of the known devices; a record is rejected because
  its sensor is not configured or because the engine refused it; no more quarantine failures than
  unknown devices are counted.
\<close>

theorem Router_accounting:
  assumes "NewMessageRouter (Some g) (Some dw) (Some uw) = Inr r"
    and "router_run dw uw evs r d q = (r', d', q')"
  shows "let c = router_Counters r'; xs = timeline evs g in
      Messages c = length xs
    \<and> Keepalives c = length (filter (\<lambda>x. Sensors (snd x) = []) xs)
    \<and> UnknownDevices c = length (filter (\<lambda>x. \<not> known x) xs)
    \<and> RecordsAccepted c + RecordsRejected c = sum_list (map (\<lambda>x. length (Sensors (snd x))) (filter known xs))
    \<and> UnknownSensors c = sum_list (map unknown_records (filter known xs))
    \<and> RecordsRejected c = UnknownSensors c + DataEngineFailures c
    \<and> QuarantineFailures c \<le> UnknownDevices c"
proof -
  have "registry r = g" "counters r = zeroCounters"
    using assms(1) by (auto simp: NewMessageRouter_def split: if_splits)
  with router_run_counted [OF assms(2)] show ?thesis
    by (simp add: counted_def Let_def router_Counters_def zeroCounters_def)
qed

theorem Router_accounting_witness:
  "let (r', d', q') = router_run (\<lambda>k ts v d. ([], d @ [(k, ts, v)])) (\<lambda>u q. ([], q @ [u]))
       [Routed TransportTCP 1 (demo_message (MACAddress 2 0 0 0 0 0)), Reloaded None,
        Routed TransportUDP 2 (demo_message (MACAddress 2 0 0 0xab 0xcd 0xef))]
       \<lparr>registry = \<lparr>current = demo_snapshot\<rparr>, counters = zeroCounters, observed = None\<rparr> [] []
   in Messages (router_Counters r') = 2"
proof -
  let ?dw = "\<lambda>k ts v d. ([], d @ [(k, ts, v)])" and ?uw = "\<lambda>u q. ([], q @ [u])"
  let ?evs = "[Routed TransportTCP 1 (demo_message (MACAddress 2 0 0 0 0 0)), Reloaded None,
    Routed TransportUDP 2 (demo_message (MACAddress 2 0 0 0xab 0xcd 0xef))]"
  let ?r = "\<lparr>registry = \<lparr>current = demo_snapshot\<rparr>, counters = zeroCounters, observed = None\<rparr>"
  have new: "NewMessageRouter (Some \<lparr>current = demo_snapshot\<rparr>) (Some ?dw) (Some ?uw) = Inr ?r"
    by (simp add: NewMessageRouter_def)
  obtain r' d' q' where R: "router_run ?dw ?uw ?evs ?r [] [] = (r', d', q')"
    by (cases "router_run ?dw ?uw ?evs ?r [] []")
  from Router_accounting [OF new R] R show ?thesis by (simp add: Let_def)
qed



end
