(* ===== verification/ConfigPoller.thy ===== *)
theory ConfigPoller
  imports Router
begin

text \<open>
  \<open>sensor-server/config-poller.go\<close>: the goroutine that looks at the configuration file from time
  to time and publishes a valid change of the devices. The file is an input of every poll: what
  \<open>Stat\<close> says of it, whether it opens, what the JSON decoder makes of its bytes, whether it closes.
  The registry is the one the router reads, so it is passed beside the poller.
\<close>

record config_file =
  cfStat :: "go_error list + int \<times> int"
  cfOpen :: "go_error list"
  cfDecoded :: "go_error list + Config"
  cfRest :: json_rest
  cfClose :: "go_error list"

text \<open>The callbacks are lists of what they were called with.\<close>

record ConfigPollerOptions =
  Interval :: int

record configFileFingerprint =
  modified :: int
  fsize :: int

record ConfigPoller =
  cpath :: string
  poptions :: ConfigPollerOptions
  pobserved :: configFileFingerprint
  OnError :: "go_error list list"
  OnReload :: "ConfigSnapshot list"

definition fingerprint :: "int \<Rightarrow> int \<Rightarrow> configFileFingerprint" where
  "fingerprint m n = \<lparr>modified = m, fsize = n\<rparr>"

definition NewConfigPoller :: "ConfigRegistry option \<Rightarrow> string \<Rightarrow> ConfigPollerOptions \<Rightarrow> config_file
    \<Rightarrow> go_error list + ConfigPoller" where
  "NewConfigPoller reg p opts f =
     (if reg = None then Inl [ErrText ''new config poller: nil dependency'']
      else if p = [] then Inl [ErrText ''new config poller: empty path'']
      else if Interval opts \<le> 0 then Inl [ErrText ''new config poller: interval must be positive'']
      else case cfStat f of
          Inl e \<Rightarrow> Inl e
        | Inr (m, n) \<Rightarrow>
            Inr \<lparr>cpath = p, poptions = opts, pobserved = fingerprint m n, OnError = [], OnReload = []\<rparr>)"

definition Poll :: "config_file \<Rightarrow> ConfigPoller \<Rightarrow> ConfigRegistry
    \<Rightarrow> bool \<times> go_error list \<times> ConfigPoller \<times> ConfigRegistry" where
  "Poll f p reg =
     (case cfStat f of
        Inl e \<Rightarrow> (False, e, p, reg)
      | Inr (m, n) \<Rightarrow>
          if fingerprint m n = pobserved p then (False, [], p, reg)
          else
            (let p = p\<lparr>pobserved := fingerprint m n\<rparr> in
             if cfOpen f \<noteq> [] then (False, cfOpen f, p, reg)
             else case LoadConfig (cfDecoded f) (cfRest f) of
                 Inl e \<Rightarrow> (False, errors_Join e (cfClose f), p, reg)
               | Inr candidate \<Rightarrow>
                   if cfClose f \<noteq> [] then (False, cfClose f, p, reg)
                   else (let (e, reg) = registry_Reload (Some candidate) reg in
                         if e \<noteq> [] then (False, e, p, reg)
                         else (True, [], p\<lparr>OnReload := OnReload p @ [candidate]\<rparr>, reg))))"

text \<open>\<open>Run\<close>: one poll per tick, until the context ends. The list has what each tick finds.\<close>

definition poller_tick :: "config_file \<Rightarrow> ConfigPoller \<times> ConfigRegistry \<Rightarrow> ConfigPoller \<times> ConfigRegistry" where
  "poller_tick f st =
     (let (_, e, p, reg) = Poll f (fst st) (snd st)
      in (if e \<noteq> [] then p\<lparr>OnError := OnError p @ [e]\<rparr> else p, reg))"

definition poller_Run :: "config_file list \<Rightarrow> ConfigPoller \<Rightarrow> ConfigRegistry \<Rightarrow> ConfigPoller \<times> ConfigRegistry" where
  "poller_Run ticks p reg = fold poller_tick ticks (p, reg)"

section \<open>Lemmas\<close>

lemma Poll_cases:
  assumes "Poll f p reg = (b, e, p', reg')"
  obtains (kept) "b = False" "reg' = reg" "OnReload p' = OnReload p" "OnError p' = OnError p"
  | (published) s where "b = True" "e = []" "reg' = \<lparr>current = s\<rparr>" "ValidateReload (current reg) (Some s) = []"
      "LoadConfig (cfDecoded f) (cfRest f) = Inr s" "OnReload p' = OnReload p @ [s]" "OnError p' = OnError p"
proof -
  have "(b = False \<and> reg' = reg \<and> OnReload p' = OnReload p \<and> OnError p' = OnError p)
    \<or> (\<exists>s. b = True \<and> e = [] \<and> reg' = \<lparr>current = s\<rparr> \<and> ValidateReload (current reg) (Some s) = []
        \<and> LoadConfig (cfDecoded f) (cfRest f) = Inr s \<and> OnReload p' = OnReload p @ [s] \<and> OnError p' = OnError p)"
    using assms registry_Reload_cases [of _ reg]
    by (auto simp: Poll_def Let_def split: sum.splits prod.splits if_splits)
  then show thesis using kept published by blast
qed

text \<open>What the polls have published so far, in order, and the registry they leave.\<close>

definition poller_inv :: "ConfigSnapshot \<Rightarrow> ConfigPoller \<times> ConfigRegistry \<Rightarrow> bool" where
  "poller_inv s0 st \<longleftrightarrow>
     current (snd st) = last (s0 # OnReload (fst st))
   \<and> (\<forall>s \<in> set (OnReload (fst st)). (\<exists>c. NewConfigSnapshot c = Inr s)
        \<and> ValidateReload s0 (Some s) = [])"

lemma ValidateReload_trans:
  assumes "ValidateReload s (Some t) = []" "ValidateReload t (Some u) = []"
  shows "ValidateReload s (Some u) = []"
  using assms by (auto simp: ValidateReload_def configsEqual_def split: if_splits)

lemma ValidateReload_refl: "ValidateReload s (Some s) = []"
  by (simp add: ValidateReload_def configsEqual_def)

lemma LoadConfig_Inr: "LoadConfig d r = Inr s \<Longrightarrow> \<exists>c. NewConfigSnapshot c = Inr s"
  by (auto simp: LoadConfig_def Let_def split: sum.splits if_splits)

lemma poller_tick_inv:
  assumes "poller_inv s0 st"
  shows "poller_inv s0 (poller_tick f st)"
proof -
  obtain b e p reg where P: "Poll f (fst st) (snd st) = (b, e, p, reg)" by (cases "Poll f (fst st) (snd st)")
  then have tick: "poller_tick f st = (if e \<noteq> [] then p\<lparr>OnError := OnError p @ [e]\<rparr> else p, reg)"
    by (simp add: poller_tick_def)
  from P show ?thesis
  proof (cases rule: Poll_cases)
    case kept
    then show ?thesis using assms by (simp add: tick poller_inv_def)
  next
    case (published s)
    have "ValidateReload s0 (Some (current (snd st))) = []"
      using assms ValidateReload_refl by (cases "OnReload (fst st)" rule: rev_cases) (auto simp: poller_inv_def)
    with published(4) have "ValidateReload s0 (Some s) = []" using ValidateReload_trans by blast
    then show ?thesis using assms published LoadConfig_Inr [OF published(5)] by (auto simp: tick poller_inv_def)
  qed
qed

lemma poller_Run_inv: "poller_inv s0 st \<Longrightarrow> poller_inv s0 (fold poller_tick fs st)"
  by (induction fs arbitrary: st) (simp_all add: poller_tick_inv del: split_paired_All)

section \<open>Properties of the poller\<close>

text \<open>
  C11. Whatever happens to the configuration file while the server runs, the router only ever sees
  validated snapshots: the registry holds the last snapshot handed to \<open>OnReload\<close>, or the initial one;
  every published snapshot was accepted by \<open>NewConfigSnapshot\<close>, and differs from the one the server
  started with in its devices only, so sensors are resolved the same way throughout.
\<close>

theorem ConfigPoller_publishes:
  assumes "NewConfigSnapshot c = Inr s0"
    and "NewConfigPoller (Some \<lparr>current = s0\<rparr>) path opts f = Inr p"
    and "poller_Run ticks p \<lparr>current = s0\<rparr> = (p', reg')"
  shows "registry_Snapshot reg' = last (s0 # OnReload p')
    \<and> (\<forall>s \<in> set (OnReload p'). (\<exists>d. NewConfigSnapshot d = Inr s)
        \<and> snapshot_Config s = (snapshot_Config s0)\<lparr>cDevices := cDevices (snapshot_Config s)\<rparr>
        \<and> snapshot_Sensor s = snapshot_Sensor s0)"
proof -
  have "poller_inv s0 (p, \<lparr>current = s0\<rparr>)"
    using assms(2) by (auto simp: poller_inv_def NewConfigPoller_def split: if_splits sum.splits)
  then have "poller_inv s0 (p', reg')" using poller_Run_inv assms(3) by (metis poller_Run_def)
  then show ?thesis
    using ValidateReload_Nil [of s0] ValidateReload_sensors [OF _ assms(1)]
    by (auto simp: poller_inv_def registry_Snapshot_def)
qed

definition demo_file :: "int \<Rightarrow> config_file" where
  "demo_file m = \<lparr>cfStat = Inr (m, 100), cfOpen = [], cfDecoded = Inr demo_config, cfRest = RestEOF, cfClose = []\<rparr>"

definition demo_poller :: ConfigPoller where
  "demo_poller = \<lparr>cpath = ''config.json'', poptions = \<lparr>Interval = 1\<rparr>, pobserved = fingerprint 1 100, OnError = [], OnReload = []\<rparr>"

lemma demo_poller_new: "NewConfigPoller (Some \<lparr>current = demo_snapshot\<rparr>) ''config.json'' \<lparr>Interval = 1\<rparr> (demo_file 1) = Inr demo_poller"
  by (simp add: NewConfigPoller_def demo_file_def demo_poller_def)

theorem ConfigPoller_publishes_witness:
  "registry_Snapshot (snd (poller_Run [demo_file 1, demo_file 2] demo_poller \<lparr>current = demo_snapshot\<rparr>))
    = last (demo_snapshot # OnReload (fst (poller_Run [demo_file 1, demo_file 2] demo_poller \<lparr>current = demo_snapshot\<rparr>)))"
  using ConfigPoller_publishes [OF demo_snapshot_new demo_poller_new,
      of "[demo_file 1, demo_file 2]" "fst (poller_Run [demo_file 1, demo_file 2] demo_poller \<lparr>current = demo_snapshot\<rparr>)"
        "snd (poller_Run [demo_file 1, demo_file 2] demo_poller \<lparr>current = demo_snapshot\<rparr>)"]
  by simp

text \<open>
  A poll that fails leaves the registry as it was. The poller remembers the file's time and
  size before it reads it, so a change that could not be opened, read or accepted is not looked at
  again until they change once more: every later poll of the file reports neither change nor
  error, whatever its contents.
\<close>

theorem Poll_failure_not_retried:
  assumes "Poll f p reg = (b, e, p', reg')" "e \<noteq> []" "cfStat f = Inr st" "cfStat g = cfStat f"
  shows "reg' = reg \<and> OnReload p' = OnReload p \<and> Poll g p' reg' = (False, [], p', reg')"
proof -
  obtain m n where st: "st = (m, n)" by (cases st)
  have "pobserved p' = fingerprint m n"
    using assms(1,3) st by (auto simp: Poll_def Let_def split: sum.splits prod.splits if_splits)
  then have "Poll g p' reg' = (False, [], p', reg')" using assms(3,4) st by (simp add: Poll_def)
  with assms(1,2) show ?thesis by (cases rule: Poll_cases) auto
qed

theorem Poll_failure_not_retried_witness:
  "let f = (demo_file 2)\<lparr>cfOpen := [ENOENT]\<rparr>;
       (b, e, p', reg') = Poll f demo_poller \<lparr>current = demo_snapshot\<rparr>
   in e = [ENOENT] \<and> Poll (demo_file 2) p' reg' = (False, [], p', reg')"
proof -
  let ?f = "(demo_file 2)\<lparr>cfOpen := [ENOENT]\<rparr>"
  obtain b e p' reg' where P: "Poll ?f demo_poller \<lparr>current = demo_snapshot\<rparr> = (b, e, p', reg')"
    by (cases "Poll ?f demo_poller \<lparr>current = demo_snapshot\<rparr>")
  moreover have "e = [ENOENT]"
    using P by (auto simp: Poll_def demo_file_def demo_poller_def fingerprint_def)
  ultimately show ?thesis
    using Poll_failure_not_retried [OF P, of "(2, 100)" "demo_file 2"] by (auto simp: demo_file_def)
qed

end
