(* ===== verification/QuarantineEntry.thy ===== *)
theory QuarantineEntry
  imports Router
begin

text \<open>
  \<open>sensor-server/quarantine.go\<close>, first part: the format of a quarantined message and the two loops
  over the bytes of a segment, the scan that finds the end of the intact entries and the reader.
  \<^term>\<open>None\<close> is a panic (a slice expression out of range).

  \<open>decodeQuarantineEntry\<close> clears the checksum field in the caller's array. The loops pass each byte
  range to it once and move forward, so the change is never read again; here the function works on
  its own copy.
\<close>

section \<open>Format\<close>

definition cQuarantineMagic :: u32 where "cQuarantineMagic = 0x514D5347"
definition cQuarantineVersion :: u16 where "cQuarantineVersion = 1"
abbreviation (input) cQuarantineHeaderSize :: nat where "cQuarantineHeaderSize \<equiv> 30"
abbreviation (input) cQuarantineTrailerSize :: nat where "cQuarantineTrailerSize \<equiv> 4"
abbreviation (input) cQuarantineEntryMinimum :: nat where
  "cQuarantineEntryMinimum \<equiv> cQuarantineHeaderSize + cQuarantineTrailerSize"

definition encodeQuarantineEntry :: "UnknownMessage \<Rightarrow> (go_error list + u8 list) option" where
  "encodeQuarantineEntry message =
     (if uTransport message \<noteq> TransportTCP \<and> uTransport message \<noteq> TransportUDP
        then Some (Inl [ErrInvalidQuarantineEntry])
      else
        (let payload = Payload (uMessage message); header = Header (uMessage message) in
         if length payload \<noteq> unat (PayloadLength header) \<or> length payload > MaximumPayloadSize
           then Some (Inl [ErrInvalidQuarantineEntry])
         else do {
           let totalLength = cQuarantineEntryMinimum + length payload;
           let d = \<lparr>buf = slice_of (replicate totalLength 0), off = 0\<rparr>;
           d \<leftarrow> WriteUint32 cQuarantineMagic d;
           d \<leftarrow> WriteUint16 cQuarantineVersion d;
           d \<leftarrow> WriteUint32 0 d;
           d \<leftarrow> WriteUint32 (word_of_nat totalLength) d;
           d \<leftarrow> WriteUint64 (uTimestamp message) d;
           d \<leftarrow> WriteUint8 (uTransport message) d;
           d \<leftarrow> WriteUint8 0 d;
           d \<leftarrow> WriteUint16 (MsgType header) d;
           d \<leftarrow> WriteBytes (mac_bytes (MAC header)) d;
           d \<leftarrow> WriteUint16 (word_of_nat (length payload)) d;
           d \<leftarrow> WriteBytes payload d;
           let crc = ChecksumIEEE (elems (buf d));
           d \<leftarrow> WriteUint32At crc 6 d;
           Some (Inr (elems (buf d))) }))"

definition decodeQuarantineEntry :: "slice \<Rightarrow> (go_error list + UnknownMessage) option" where
  "decodeQuarantineEntry encoded =
     (if length (elems encoded) < cQuarantineEntryMinimum then Some (Inl [ErrInvalidQuarantineEntry])
      else do {
        (quarantineMagic, d) \<leftarrow> ReadUint32 \<lparr>buf = encoded, off = 0\<rparr>;
        (quarantineVersion, d) \<leftarrow> ReadUint16 d;
        (wantedCRC, d) \<leftarrow> ReadUint32 d;
        (encodedLength, d) \<leftarrow> ReadUint32 d;
        (timeStamp, d) \<leftarrow> ReadUint64 d;
        (transport, d) \<leftarrow> ReadUint8 d;
        (_, d) \<leftarrow> ReadUint8 d;
        (headerType, d) \<leftarrow> ReadUint16 d;
        (mac, d) \<leftarrow> ReadMAC d;
        (payloadLength, d) \<leftarrow> ReadUint16 d;
        if quarantineMagic \<noteq> cQuarantineMagic \<or> quarantineVersion \<noteq> cQuarantineVersion
          then Some (Inl [ErrInvalidQuarantineEntry])
        else if encodedLength \<noteq> word_of_nat (length (elems encoded)) \<or> unat payloadLength > MaximumPayloadSize
          then Some (Inl [ErrInvalidQuarantineEntry])
        else if transport \<noteq> TransportTCP \<and> transport \<noteq> TransportUDP
          then Some (Inl [ErrInvalidQuarantineEntry])
        else do {
          d \<leftarrow> WriteUint32At 0 6 d;
          if ChecksumIEEE (elems (buf d)) \<noteq> wantedCRC then Some (Inl [ErrInvalidQuarantineEntry])
          else do {
            (payload, d) \<leftarrow> ReadBytes (int (unat payloadLength)) d;
            let header = \<lparr>Magic = MessageMagic, MsgType = headerType, PayloadLength = payloadLength,
                          MAC = mac, Checksum = ChecksumIEEE payload\<rparr>;
            r \<leftarrow> DecodeMessage header (slice_of payload);
            (case r of
               Inl err \<Rightarrow> Some (Inl [err])
             | Inr message \<Rightarrow>
                 Some (Inr \<lparr>uTimestamp = timeStamp, uTransport = transport, uMessage = message\<rparr>)) } } })"

section \<open>Loops over a segment\<close>

text \<open>\<open>binary.LittleEndian.Uint32(data[offset+10 : offset+14])\<close>.\<close>

definition entryLength :: "slice \<Rightarrow> nat \<Rightarrow> nat option" where
  "entryLength data offset = do {
     w \<leftarrow> go_slice data (int (offset + 10)) (int (offset + 14));
     Some (unat (le_word (elems w) :: u32)) }"

function scan_from :: "slice \<Rightarrow> nat \<Rightarrow> (go_error list + nat) option" where
  "scan_from data offset =
     (if offset \<ge> length (elems data) then Some (Inr (length (elems data)))
      else if length (elems data) - offset < cQuarantineHeaderSize then Some (Inr offset)
      else do {
        w \<leftarrow> go_slice data (int offset) (int (offset + 4));
        if (le_word (elems w) :: u32) \<noteq> cQuarantineMagic then Some (Inl [ErrInvalidQuarantineEntry])
        else do {
          len \<leftarrow> entryLength data offset;
          if len < cQuarantineEntryMinimum \<or> len > cQuarantineEntryMinimum + MaximumPayloadSize
            then Some (Inl [ErrInvalidQuarantineEntry])
          else if len > length (elems data) - offset then Some (Inr offset)
          else do {
            entry \<leftarrow> go_slice data (int offset) (int (offset + len));
            r \<leftarrow> decodeQuarantineEntry entry;
            (case r of Inl e \<Rightarrow> Some (Inl e) | Inr _ \<Rightarrow> scan_from data (offset + len)) } } })"
  by pat_completeness auto
termination by (relation "measure (\<lambda>(data, offset). length (elems data) - offset)") auto

declare scan_from.simps [simp del]

definition scanQuarantineEntries :: "slice \<Rightarrow> (go_error list + nat) option" where
  "scanQuarantineEntries data = scan_from data 0"

lemma decodeQuarantineEntry_short:
  "length (elems s) < 34 \<Longrightarrow> decodeQuarantineEntry s = Some (Inl [ErrInvalidQuarantineEntry])"
  by (simp add: decodeQuarantineEntry_def)

function read_from :: "slice \<Rightarrow> nat \<Rightarrow> (go_error list + UnknownMessage list) option" where
  "read_from data offset =
     (if offset \<ge> length (elems data) then Some (Inr [])
      else do {
        len \<leftarrow> entryLength data offset;
        entry \<leftarrow> go_slice data (int offset) (int (offset + len));
        r \<leftarrow> decodeQuarantineEntry entry;
        (case r of
           Inl e \<Rightarrow> Some (Inl e)
         | Inr m \<Rightarrow> do {
             rest \<leftarrow> read_from data (offset + len);
             Some (case rest of Inl e \<Rightarrow> Inl e | Inr ms \<Rightarrow> Inr (m # ms)) }) })"
  by pat_completeness auto
termination
proof (relation "measure (\<lambda>(data, offset). length (elems data) - offset)")
  fix data offset len entry r m
  assume h: "\<not> length (elems data) \<le> offset" "go_slice data (int offset) (int (offset + len)) = Some entry"
    "decodeQuarantineEntry entry = Some r" "r = Inr m"
  have "length (elems entry) \<le> len" using h(2) by (auto simp: go_slice_def Let_def split: if_splits)
  moreover have "34 \<le> length (elems entry)" using h(3,4) decodeQuarantineEntry_short [of entry] by fastforce
  ultimately show "((data, offset + len), (data, offset)) \<in> measure (\<lambda>(data, offset). length (elems data) - offset)"
    using h(1) by simp
qed simp

declare read_from.simps [simp del]

section \<open>The bytes of an entry\<close>

definition entry_bytes :: "u32 \<Rightarrow> UnknownMessage \<Rightarrow> u8 list" where
  "entry_bytes crc m =
     (let payload = Payload (uMessage m); header = Header (uMessage m) in
      le_bytes 4 cQuarantineMagic @ le_bytes 2 cQuarantineVersion @ le_bytes 4 crc
      @ le_bytes 4 (word_of_nat (34 + length payload) :: u32) @ le_bytes 8 (uTimestamp m)
      @ [uTransport m, 0] @ le_bytes 2 (MsgType header) @ mac_bytes (MAC header)
      @ le_bytes 2 (word_of_nat (length payload) :: u16) @ payload)"

definition entry_of :: "UnknownMessage \<Rightarrow> u8 list" where
  "entry_of m = entry_bytes (ChecksumIEEE (entry_bytes 0 m)) m"

text \<open>The messages the servers hand to the router: what the decoders of the wire protocol accept,
  from one of the two transports.\<close>

definition storable :: "UnknownMessage \<Rightarrow> bool" where
  "storable m \<longleftrightarrow> uTransport m \<in> {TransportTCP, TransportUDP}
     \<and> length (Payload (uMessage m)) \<le> MaximumPayloadSize \<and> length (Payload (uMessage m)) mod 4 = 0
     \<and> uMessage m = canonical_message (MAC (Header (uMessage m))) (Payload (uMessage m))"

lemma length_entry_bytes [simp]: "length (entry_bytes crc m) = 34 + length (Payload (uMessage m))"
  by (simp add: entry_bytes_def Let_def)

lemma length_entry_of [simp]: "length (entry_of m) = 34 + length (Payload (uMessage m))"
  by (simp add: entry_of_def)

lemma entry_bytes_crc:
  "take 6 (entry_bytes c m) @ le_bytes 4 c' @ drop 10 (entry_bytes c m) = entry_bytes c' m"
  by (simp add: entry_bytes_def Let_def)

lemma replicate_filled: "\<lparr>buf = slice_of (replicate n 0), off = 0\<rparr> = filled [] (replicate n 0) []"
  by (simp add: filled_def slice_of_def)

lemma encodeQuarantineEntry_eq:
  "encodeQuarantineEntry m = Some
     (if uTransport m \<noteq> TransportTCP \<and> uTransport m \<noteq> TransportUDP
         \<or> length (Payload (uMessage m)) \<noteq> unat (PayloadLength (Header (uMessage m)))
         \<or> length (Payload (uMessage m)) > MaximumPayloadSize
      then Inl [ErrInvalidQuarantineEntry] else Inr (entry_of m))"
proof -
  let ?p = "Payload (uMessage m)"
  have at: "WriteUint32At c 6 (filled (entry_bytes 0 m) [] []) =
      Some \<lparr>buf = \<lparr>elems = entry_bytes c m, spare = []\<rparr>, off = int (34 + length ?p)\<rparr>" for c
    using WriteUint32At_within [of 6 "filled (entry_bytes 0 m) [] []" c] entry_bytes_crc [of 0 m c]
    by (simp add: filled_def)
  have fill: "filled (le_bytes 4 cQuarantineMagic @ le_bytes 2 cQuarantineVersion @ le_bytes 4 (0 :: u32)
      @ le_bytes 4 (word_of_nat (34 + length ?p) :: u32) @ le_bytes 8 (uTimestamp m)
      @ uTransport m # 0 # le_bytes 2 (MsgType (Header (uMessage m))) @ mac_bytes (MAC (Header (uMessage m)))
      @ le_bytes 2 (word_of_nat (length ?p) :: u16) @ ?p) [] [] = filled (entry_bytes 0 m) [] []"
    by (simp add: entry_bytes_def Let_def)
  have e: "elems (buf (filled (entry_bytes 0 m) [] [])) = entry_bytes 0 m" by (simp add: filled_def)
  show ?thesis
  proof (cases "uTransport m \<noteq> TransportTCP \<and> uTransport m \<noteq> TransportUDP
      \<or> length ?p \<noteq> unat (PayloadLength (Header (uMessage m))) \<or> length ?p > MaximumPayloadSize")
    case True
    then show ?thesis by (auto simp: encodeQuarantineEntry_def Let_def)
  next
    case False
    then have c1: "\<not> (uTransport m \<noteq> TransportTCP \<and> uTransport m \<noteq> TransportUDP)"
      and c2: "\<not> (length ?p \<noteq> unat (PayloadLength (Header (uMessage m))) \<or> length ?p > MaximumPayloadSize)"
      by auto
    show ?thesis
      unfolding encodeQuarantineEntry_def Let_def replicate_filled if_not_P [OF False] if_not_P [OF c1] if_not_P [OF c2]
      by (simp add: wire fill [simplified] at e entry_of_def)
  qed
qed

lemma entry_fields:
  assumes "n = length (Payload (uMessage m))"
  shows "take 4 (entry_bytes c m) = le_bytes 4 cQuarantineMagic"
    "take 2 (drop 4 (entry_bytes c m)) = le_bytes 2 cQuarantineVersion"
    "take 4 (drop 6 (entry_bytes c m)) = le_bytes 4 c"
    "take 4 (drop 10 (entry_bytes c m)) = le_bytes 4 (word_of_nat (34 + n) :: u32)"
    "take 8 (drop 14 (entry_bytes c m)) = le_bytes 8 (uTimestamp m)"
    "entry_bytes c m ! 22 = uTransport m" "entry_bytes c m ! 23 = 0"
    "take 2 (drop 24 (entry_bytes c m)) = le_bytes 2 (MsgType (Header (uMessage m)))"
    "take 6 (drop 26 (entry_bytes c m)) = mac_bytes (MAC (Header (uMessage m)))"
    "take 2 (drop 32 (entry_bytes c m)) = le_bytes 2 (word_of_nat n :: u16)"
    "take n (drop 34 (entry_bytes c m)) = Payload (uMessage m)"
  using assms by (simp_all add: entry_bytes_def Let_def nth_append)

section \<open>Decoding what was encoded\<close>

lemma canonical_header:
  "\<lparr>Magic = MessageMagic, MsgType = MessageTypeSensorData, PayloadLength = word_of_nat (length p), MAC = mac,
     Checksum = ChecksumIEEE p\<rparr> = Header (canonical_message mac p)"
  by (simp add: canonical_message_def)

lemma DecodeMessage_canonical:
  assumes "length p \<le> MaximumPayloadSize" "length p mod 4 = 0"
  shows "DecodeMessage (Header (canonical_message mac p)) (slice_of p) = Some (Inr (canonical_message mac p))"
  using assms unat_length16 [of p] by (simp add: DecodeMessage_eq Let_def canonical_message_def)

lemma decodeQuarantineEntry_entry_of:
  assumes "storable m"
  shows "decodeQuarantineEntry \<lparr>elems = entry_of m, spare = sp\<rparr> = Some (Inr m)"
proof -
  define p mac c where "p = Payload (uMessage m)" and "mac = MAC (Header (uMessage m))"
    and "c = ChecksumIEEE (entry_bytes 0 m)"
  have st: "length p \<le> MaximumPayloadSize" "length p mod 4 = 0" "uMessage m = canonical_message mac p"
    "uTransport m = TransportTCP \<or> uTransport m = TransportUDP"
    using assms by (auto simp: storable_def p_def mac_def)
  let ?a = "\<lparr>elems = entry_bytes c m, spare = sp\<rparr>"
  let ?z = "\<lparr>elems = entry_bytes 0 m, spare = sp\<rparr>"
  have len: "length (entry_bytes x m) = 34 + length p" for x by (simp add: p_def)
  note f = entry_fields [OF p_def [THEN arg_cong, of length], of c] entry_fields(11) [OF p_def [THEN arg_cong, of length], of 0]
  have clear: "WriteUint32At 0 6 (cursor ?a 34) = Some (cursor ?z 34)"
  proof -
    have "6 + 4 \<le> length (elems (buf (cursor ?a 34)))" using len by simp
    from WriteUint32At_within [OF this, of 0] show ?thesis by (simp add: entry_bytes_crc)
  qed
  have pay: "ReadBytes (int (length p)) (cursor ?z 34) = Some (p, cursor ?z (34 + length p))"
    using ReadBytes_within [of 34 "length p" ?z] len f(12) by (simp add: p_def)
  have mt: "MsgType (Header (uMessage m)) = MessageTypeSensorData" "MAC (Header (uMessage m)) = mac"
    using st(3) by simp_all
  have msg: "\<lparr>uTimestamp = uTimestamp m, uTransport = uTransport m, uMessage = canonical_message mac p\<rparr> = m"
    using st(3) by simp
  show ?thesis
    unfolding entry_of_def c_def [symmetric] decodeQuarantineEntry_def cursor_fold
    using st len f mt unat_length16 [OF st(1)]
    by (simp add: wire clear pay canonical_header DecodeMessage_canonical msg c_def [symmetric] del: add_2_eq_Suc add_2_eq_Suc')
qed

section \<open>Segments\<close>

abbreviation segment_of :: "UnknownMessage list \<Rightarrow> u8 list" where
  "segment_of ms \<equiv> concat (map entry_of ms)"

lemma unat_entry_length:
  "n \<le> MaximumPayloadSize \<Longrightarrow> unat (word_of_nat (34 + n) :: u32) = 34 + n"
  by (simp add: unat_of_nat MaximumPayloadSize_def del: of_nat_add)

lemma entry_of_fields:
  "take 4 (entry_of m) = le_bytes 4 cQuarantineMagic"
  "take 4 (drop 10 (entry_of m)) = le_bytes 4 (word_of_nat (34 + length (Payload (uMessage m))) :: u32)"
  unfolding entry_of_def by (simp_all add: entry_fields [OF refl])

text \<open>Reads inside the first \<open>k\<close> bytes of an entry that lies at \<open>length pre\<close>.\<close>

lemma go_slice_at:
  assumes "elems data = pre @ take k xs @ rest" "k \<le> length xs" "i + n \<le> k"
  shows "\<exists>w. go_slice data (int (length pre + i)) (int (length pre + i + n)) = Some w \<and> elems w = take n (drop i xs)"
proof -
  have "take n (drop (length pre + i) (elems data)) = take n (drop i xs)"
    using assms by (simp add: take_drop min_def)
  moreover have "length pre + i + n \<le> length (elems data)" using assms by simp
  ultimately show ?thesis using go_slice_within [of "length pre + i" n data] by simp
qed

lemma entryLength_at:
  assumes "elems data = pre @ take k (entry_of m) @ rest" "k \<le> length (entry_of m)" "14 \<le> k"
    "length (Payload (uMessage m)) \<le> MaximumPayloadSize"
  shows "entryLength data (length pre) = Some (34 + length (Payload (uMessage m)))"
proof -
  obtain w where "go_slice data (int (length pre + 10)) (int (length pre + 10 + 4)) = Some w"
    "elems w = take 4 (drop 10 (entry_of m))"
    using go_slice_at [OF assms(1,2), of 10 4] assms(3) by auto
  then show ?thesis
    using unat_entry_length [OF assms(4)] by (simp add: entryLength_def entry_of_fields add.assoc)
qed

lemma decode_at:
  assumes "elems data = pre @ entry_of m @ rest" "storable m"
  shows "\<exists>w. go_slice data (int (length pre)) (int (length pre + length (entry_of m))) = Some w
    \<and> decodeQuarantineEntry w = Some (Inr m)"
proof -
  have "elems data = pre @ take (length (entry_of m)) (entry_of m) @ rest" using assms(1) by simp
  from go_slice_at [OF this, of 0 "length (entry_of m)"]
  obtain w where w: "go_slice data (int (length pre)) (int (length pre + length (entry_of m))) = Some w"
    "elems w = entry_of m" by auto
  then have "w = \<lparr>elems = entry_of m, spare = spare w\<rparr>" by simp
  then show ?thesis using w(1) decodeQuarantineEntry_entry_of [OF assms(2), of "spare w"] by metis
qed

lemma storable_payload: "storable m \<Longrightarrow> length (Payload (uMessage m)) \<le> MaximumPayloadSize"
  by (simp add: storable_def)

lemma scan_step:
  assumes "elems data = pre @ entry_of m @ rest" "storable m"
  shows "scan_from data (length pre) = scan_from data (length (pre @ entry_of m))"
proof -
  have full: "elems data = pre @ take (length (entry_of m)) (entry_of m) @ rest" using assms(1) by simp
  note n = entryLength_at [OF full le_refl _ storable_payload [OF assms(2)]]
  obtain w where w: "go_slice data (int (length pre)) (int (length pre + 4)) = Some w" "elems w = le_bytes 4 cQuarantineMagic"
    using go_slice_at [OF full le_refl, of 0 4] by (auto simp: entry_of_fields)
  obtain v where v: "go_slice data (int (length pre)) (int (length pre + length (entry_of m))) = Some v"
    "decodeQuarantineEntry v = Some (Inr m)" using decode_at [OF assms] by auto
  show ?thesis
    by (subst scan_from.simps) (use w v n assms(1) storable_payload [OF assms(2)] in simp)
qed

lemma scan_torn:
  assumes "elems data = pre @ take k (entry_of m)" "storable m" "k < length (entry_of m)"
  shows "scan_from data (length pre) = Some (Inr (length pre))"
proof (cases "k < 30")
  case True
  then show ?thesis using assms by (subst scan_from.simps) auto
next
  case False
  have cut: "elems data = pre @ take k (entry_of m) @ []" using assms(1) by simp
  note n = entryLength_at [OF cut less_imp_le [OF assms(3)] _ storable_payload [OF assms(2)]]
  obtain w where w: "go_slice data (int (length pre)) (int (length pre + 4)) = Some w" "elems w = le_bytes 4 cQuarantineMagic"
    using go_slice_at [OF cut less_imp_le [OF assms(3)], of 0 4] False by (auto simp: entry_of_fields)
  show ?thesis
    by (subst scan_from.simps) (use w n assms storable_payload [OF assms(2)] False in simp)
qed

lemma read_step:
  assumes "elems data = pre @ entry_of m @ rest" "storable m"
  shows "read_from data (length pre) =
    map_option (\<lambda>r. case r of Inl e \<Rightarrow> Inl e | Inr ms \<Rightarrow> Inr (m # ms)) (read_from data (length (pre @ entry_of m)))"
proof -
  have full: "elems data = pre @ take (length (entry_of m)) (entry_of m) @ rest" using assms(1) by simp
  note n = entryLength_at [OF full le_refl _ storable_payload [OF assms(2)]]
  obtain v where v: "go_slice data (int (length pre)) (int (length pre + length (entry_of m))) = Some v"
    "decodeQuarantineEntry v = Some (Inr m)" using decode_at [OF assms] by auto
  show ?thesis
    by (subst read_from.simps) (use v n assms(1) in \<open>simp add: map_option_case split: option.splits\<close>)
qed

lemma scan_segment:
  assumes "elems data = pre @ segment_of ms @ torn" "\<forall>m \<in> set ms. storable m"
    "torn = [] \<or> (\<exists>k m. storable m \<and> k < length (entry_of m) \<and> torn = take k (entry_of m))"
  shows "scan_from data (length pre) = Some (Inr (length (pre @ segment_of ms)))"
  using assms
proof (induction ms arbitrary: pre)
  case Nil
  show ?case
  proof (cases "torn = []")
    case True
    then show ?thesis using Nil by (subst scan_from.simps) simp
  next
    case False
    then obtain k m where "storable m" "k < length (entry_of m)" "torn = take k (entry_of m)" using Nil by blast
    then show ?thesis using Nil(1) scan_torn [of data pre k m] by simp
  qed
next
  case (Cons m ms)
  have "elems data = (pre @ entry_of m) @ segment_of ms @ torn" using Cons.prems(1) by simp
  from Cons.IH [OF this] have "scan_from data (length (pre @ entry_of m)) = Some (Inr (length (pre @ segment_of (m # ms))))"
    using Cons.prems by simp
  then show ?case using scan_step [of data pre m "segment_of ms @ torn"] Cons.prems by simp
qed

lemma read_segment:
  assumes "elems data = pre @ segment_of ms" "\<forall>m \<in> set ms. storable m"
  shows "read_from data (length pre) = Some (Inr ms)"
  using assms
proof (induction ms arbitrary: pre)
  case Nil
  then show ?case by (subst read_from.simps) simp
next
  case (Cons m ms)
  have "elems data = (pre @ entry_of m) @ segment_of ms" using Cons.prems(1) by simp
  from Cons.IH [OF this] have "read_from data (length (pre @ entry_of m)) = Some (Inr ms)" using Cons.prems by simp
  then show ?case using read_step [of data pre m "segment_of ms"] Cons.prems by simp
qed

end
