(* ===== verification/Quarantine.thy ===== *)
theory Quarantine
  imports QuarantineEntry
begin

text \<open>
  \<open>sensor-server/quarantine.go\<close>, second part: the writer of quarantine segments, their repair when
  the server starts, and the replay of old segments against the current configuration.

  \<open>slack\<close> is what lies between length and capacity of the buffer \<open>io.ReadAll\<close> returns; nothing
  depends on it. \<^term>\<open>None\<close> is a panic: a nil file, or a slice expression out of range.
\<close>

section \<open>Segments and their names\<close>

record QuarantineOptions =
  qDirectory :: path
  qRotationSize :: int
  qDirectoryMode :: nat
  qFileMode :: nat

definition DefaultQuarantineOptions :: "path \<Rightarrow> QuarantineOptions" where
  "DefaultQuarantineOptions directory =
     \<lparr>qDirectory = directory, qRotationSize = 64 * 1024 * 1024, qDirectoryMode = 493, qFileMode = 420\<rparr>"

record QuarantineWriter =
  qoptions :: QuarantineOptions
  qfile :: "path option"
  qsequence :: nat
  qsize :: int
  qclosed :: bool

record quarantineSegment =
  segSequence :: nat
  segPath :: path

definition quarantineSegmentName :: "nat \<Rightarrow> string" where
  "quarantineSegmentName n = ''quarantine-'' @ zero_padded 8 n @ ''.bin''"

definition parseQuarantineSegmentName :: "string \<Rightarrow> nat option" where
  "parseQuarantineSegmentName name =
     (if \<not> HasPrefix name ''quarantine-'' \<or> \<not> HasSuffix name ''.bin''
         \<or> length name \<noteq> length ''quarantine-'' + 8 + length ''.bin'' then None
      else case ParseUint (take 8 (drop (length ''quarantine-'') name)) 64 of
          None \<Rightarrow> None
        | Some n \<Rightarrow> if n \<ge> firstSegmentSequence then Some n else None)"

definition quarantine_segmentPath :: "QuarantineWriter \<Rightarrow> path" where
  "quarantine_segmentPath w = qDirectory (qoptions w) @ [quarantineSegmentName (qsequence w)]"

definition discoverQuarantineSegments :: "path \<Rightarrow> FS \<Rightarrow> (go_error list + quarantineSegment list) \<times> FS" where
  "discoverQuarantineSegments dir fs =
     (case fs_ReadDir dir fs of
        (Inl e, fs) \<Rightarrow> (Inl e, fs)
      | (Inr entries, fs) \<Rightarrow>
          (Inr (sort_key segSequence (concat (map (\<lambda>(name, isDir).
             case parseQuarantineSegmentName name of
               None \<Rightarrow> []
             | Some n \<Rightarrow> if isDir then [] else [\<lparr>segSequence = n, segPath = dir @ [name]\<rparr>]) entries))), fs))"

section \<open>Reading and repairing\<close>

definition readAllFile :: "path \<Rightarrow> FS \<Rightarrow> (go_error list + u8 list) \<times> FS" where
  "readAllFile p fs =
     (case fs_OpenFile p readWriteFlags fs of
        (Inl e, fs) \<Rightarrow> (Inl e, fs)
      | (Inr h, fs) \<Rightarrow>
          (let (data, e1, fs) = file_ReadAll h fs; (e2, fs) = file_Close h fs in
           (if errors_Join e1 e2 \<noteq> [] then Inl (errors_Join e1 e2) else Inr data, fs)))"

definition readQuarantineEntries :: "(u8 list \<Rightarrow> u8 list) \<Rightarrow> path \<Rightarrow> FS
    \<Rightarrow> ((go_error list + UnknownMessage list) \<times> FS) option" where
  "readQuarantineEntries slack p fs =
     (case readAllFile p fs of
        (Inl e, fs) \<Rightarrow> Some (Inl e, fs)
      | (Inr data, fs) \<Rightarrow> do {
          r \<leftarrow> read_from \<lparr>elems = data, spare = slack data\<rparr> 0;
          Some (r, fs) })"

definition repairQuarantineTail :: "(u8 list \<Rightarrow> u8 list) \<Rightarrow> path \<Rightarrow> FS \<Rightarrow> (go_error list \<times> FS) option" where
  "repairQuarantineTail slack p fs =
     (case readAllFile p fs of
        (Inl e, fs) \<Rightarrow> Some (e, fs)
      | (Inr data, fs) \<Rightarrow> do {
          r \<leftarrow> scanQuarantineEntries \<lparr>elems = data, spare = slack data\<rparr>;
          (case r of
             Inl e \<Rightarrow> Some (e, fs)
           | Inr validLength \<Rightarrow>
               if validLength = length data then Some ([], fs)
               else (case fs_OpenFile p readWriteFlags fs of
                       (Inl e, fs) \<Rightarrow> Some (e, fs)
                     | (Inr h, fs) \<Rightarrow>
                         (let (e1, fs) = file_Truncate h validLength fs; (e2, fs) = file_Sync h fs;
                              (e3, fs) = file_Close h fs
                          in Some (errors_Join (errors_Join e1 e2) e3, fs)))) })"

fun repairAll :: "(u8 list \<Rightarrow> u8 list) \<Rightarrow> quarantineSegment list \<Rightarrow> FS \<Rightarrow> (go_error list \<times> FS) option" where
  "repairAll slack [] fs = Some ([], fs)"
| "repairAll slack (s # ss) fs = do {
     (e, fs) \<leftarrow> repairQuarantineTail slack (segPath s) fs;
     if e \<noteq> [] then Some (e, fs) else repairAll slack ss fs }"

section \<open>The writer\<close>

definition openSegment :: "QuarantineWriter \<Rightarrow> FS \<Rightarrow> go_error list \<times> QuarantineWriter \<times> FS" where
  "openSegment w fs =
     (case fs_OpenFile (quarantine_segmentPath w) createAppendReadWriteFlags fs of
        (Inl e, fs) \<Rightarrow> (e, w, fs)
      | (Inr h, fs) \<Rightarrow> ([], w\<lparr>qfile := Some h\<rparr>, fs))"

definition closeSegment :: "QuarantineWriter \<Rightarrow> FS \<Rightarrow> go_error list \<times> QuarantineWriter \<times> FS" where
  "closeSegment w fs =
     (case qfile w of
        None \<Rightarrow> ([], w, fs)
      | Some h \<Rightarrow>
          (let (e1, fs) = file_Sync h fs; (e2, fs) = file_Close h fs
           in (errors_Join e1 e2, w\<lparr>qfile := None\<rparr>, fs)))"

definition quarantine_rotate :: "QuarantineWriter \<Rightarrow> FS \<Rightarrow> go_error list \<times> QuarantineWriter \<times> FS" where
  "quarantine_rotate w fs =
     (let (e, w, fs) = closeSegment w fs in
      if e \<noteq> [] then (e, w, fs)
      else openSegment (w\<lparr>qsequence := qsequence w + 1, qsize := 0\<rparr>) fs)"

definition OpenQuarantineWriter :: "(u8 list \<Rightarrow> u8 list) \<Rightarrow> QuarantineOptions \<Rightarrow> FS
    \<Rightarrow> ((go_error list + QuarantineWriter) \<times> FS) option" where
  "OpenQuarantineWriter slack opts fs =
     (if TrimSpace (path_string (qDirectory opts)) = [] then Some (Inl [ErrText ''open quarantine: empty directory''], fs)
      else if qRotationSize opts < int cQuarantineEntryMinimum
        then Some (Inl [ErrText ''open quarantine: rotation size is too small''], fs)
      else
        (let opts = opts\<lparr>qDirectoryMode := (if qDirectoryMode opts = 0 then 493 else qDirectoryMode opts),
                         qFileMode := (if qFileMode opts = 0 then 420 else qFileMode opts)\<rparr>;
             (e, fs) = fs_MkdirAll (qDirectory opts) fs
         in if e \<noteq> [] then Some (Inl e, fs)
            else case discoverQuarantineSegments (qDirectory opts) fs of
                (Inl e, fs) \<Rightarrow> Some (Inl e, fs)
              | (Inr segments, fs) \<Rightarrow> do {
                  (e, fs) \<leftarrow> repairAll slack segments fs;
                  if e \<noteq> [] then Some (Inl e, fs)
                  else (let seq = (if segments = [] then firstSegmentSequence else segSequence (last segments) + 1);
                            (e, w, fs) = openSegment \<lparr>qoptions = opts, qfile = None, qsequence = seq, qsize = 0, qclosed = False\<rparr> fs
                        in Some (if e \<noteq> [] then Inl e else Inr w, fs)) }))"

definition WriteUnknownMessage :: "go_error list \<Rightarrow> UnknownMessage \<Rightarrow> QuarantineWriter \<Rightarrow> FS
    \<Rightarrow> (go_error list \<times> QuarantineWriter \<times> FS) option" where
  "WriteUnknownMessage ctxErr message w fs =
     (if ctxErr \<noteq> [] then Some (ctxErr, w, fs)
      else do {
        r \<leftarrow> encodeQuarantineEntry message;
        (case r of
           Inl e \<Rightarrow> Some (e, w, fs)
         | Inr encoded \<Rightarrow>
             if qclosed w then Some ([ErrQuarantineClosed], w, fs)
             else
               (let (e, w, fs) = (if qsize w > 0 \<and> qsize w + int (length encoded) > qRotationSize (qoptions w)
                                  then quarantine_rotate w fs else ([], w, fs))
                in if e \<noteq> [] then Some (e, w, fs)
                   else (case qfile w of
                           None \<Rightarrow> None
                         | Some h \<Rightarrow>
                             (let (n, e, fs) = file_Write h encoded fs in
                              if e \<noteq> [] then Some (e, w, fs)
                              else Some ([], w\<lparr>qsize := qsize w + int (length encoded)\<rparr>, fs))))) })"

definition quarantine_Close :: "QuarantineWriter \<Rightarrow> FS \<Rightarrow> go_error list \<times> QuarantineWriter \<times> FS" where
  "quarantine_Close w fs = (if qclosed w then ([], w, fs) else closeSegment (w\<lparr>qclosed := True\<rparr>) fs)"

section \<open>Replay\<close>

record ReplayCounters =
  SegmentsCompleted :: nat
  MessagesReplayed :: nat
  MessagesCarried :: nat
  RecordsWritten :: nat

definition zeroReplay :: ReplayCounters where
  "zeroReplay = \<lparr>SegmentsCompleted = 0, MessagesReplayed = 0, MessagesCarried = 0, RecordsWritten = 0\<rparr>"

text \<open>Appending a suffix to the last component of a path.\<close>

definition with_suffix :: "path \<Rightarrow> string \<Rightarrow> path" where
  "with_suffix p s = butlast p @ [last p @ s]"

definition quarantineSegmentComplete :: "path \<Rightarrow> FS \<Rightarrow> bool \<times> FS" where
  "quarantineSegmentComplete p fs =
     (case fs_Stat (with_suffix p ''.done'') fs of (Inl _, fs) \<Rightarrow> (False, fs) | (Inr _, fs) \<Rightarrow> (True, fs))"

definition markQuarantineSegmentComplete :: "path \<Rightarrow> FS \<Rightarrow> go_error list \<times> FS" where
  "markQuarantineSegmentComplete p fs =
     (case fs_OpenFile (with_suffix p ''.done.tmp'') createTruncateReadWriteFlags fs of
        (Inl e, fs) \<Rightarrow> (e, fs)
      | (Inr h, fs) \<Rightarrow>
          (let (n, e, fs) = file_Write h (map of_char (''complete'' @ [CHR 0x0A])) fs in
           if e \<noteq> [] then (e, snd (file_Close h fs))
           else (let (e1, fs) = file_Sync h fs; (e2, fs) = file_Close h fs in
                 if errors_Join e1 e2 \<noteq> [] then (errors_Join e1 e2, fs)
                 else fs_Rename (with_suffix p ''.done.tmp'') (with_suffix p ''.done'') fs)))"

fun replayRecords :: "'d SensorDataWriter \<Rightarrow> ConfigSnapshot \<Rightarrow> Device \<Rightarrow> i64 \<Rightarrow> SensorRecord list
    \<Rightarrow> ReplayCounters \<Rightarrow> 'd \<Rightarrow> go_error list \<times> ReplayCounters \<times> 'd" where
  "replayRecords dw snap dev ts [] c d = ([], c, d)"
| "replayRecords dw snap dev ts (rec # recs) c d =
     (case snapshot_Sensor snap (RecType rec) of
        None \<Rightarrow> replayRecords dw snap dev ts recs c d
      | Some sensor \<Rightarrow>
          (let (err, d) = dw (devFloor dev, devRoom dev, sdType sensor) ts (Value rec) d in
           if err \<noteq> [] then (err, c, d)
           else replayRecords dw snap dev ts recs (c\<lparr>RecordsWritten := RecordsWritten c + 1\<rparr>) d))"

text \<open>\<open>ctxErr k\<close> is the error of the context when the \<open>k\<close>-th entry is reached.\<close>

fun replayEntries :: "(nat \<Rightarrow> go_error list) \<Rightarrow> 'd SensorDataWriter \<Rightarrow> ConfigSnapshot \<Rightarrow> UnknownMessage list
    \<Rightarrow> ReplayCounters \<Rightarrow> QuarantineWriter \<Rightarrow> FS \<Rightarrow> 'd
    \<Rightarrow> (go_error list \<times> ReplayCounters \<times> QuarantineWriter \<times> FS \<times> 'd) option" where
  "replayEntries ctxErr dw snap [] c w fs d = Some ([], c, w, fs, d)"
| "replayEntries ctxErr dw snap (entry # entries) c w fs d =
     (let ctx = ctxErr (MessagesReplayed c + MessagesCarried c) in
      if ctx \<noteq> [] then Some (ctx, c, w, fs, d)
      else case snapshot_Device snap (MAC (Header (uMessage entry))) of
          None \<Rightarrow> do {
            (e, w, fs) \<leftarrow> WriteUnknownMessage ctx entry w fs;
            if e \<noteq> [] then Some (e, c, w, fs, d)
            else replayEntries ctxErr dw snap entries (c\<lparr>MessagesCarried := MessagesCarried c + 1\<rparr>) w fs d }
        | Some dev \<Rightarrow>
            (let (e, c, d) = replayRecords dw snap dev (uTimestamp entry) (Sensors (uMessage entry)) c d in
             if e \<noteq> [] then Some (e, c, w, fs, d)
             else replayEntries ctxErr dw snap entries (c\<lparr>MessagesReplayed := MessagesReplayed c + 1\<rparr>) w fs d))"

fun replaySegments :: "(u8 list \<Rightarrow> u8 list) \<Rightarrow> (nat \<Rightarrow> go_error list) \<Rightarrow> 'd SensorDataWriter \<Rightarrow> ConfigSnapshot
    \<Rightarrow> quarantineSegment list \<Rightarrow> ReplayCounters \<Rightarrow> QuarantineWriter \<Rightarrow> FS \<Rightarrow> 'd
    \<Rightarrow> (go_error list \<times> ReplayCounters \<times> QuarantineWriter \<times> FS \<times> 'd) option" where
  "replaySegments slack ctxErr dw snap [] c w fs d = Some ([], c, w, fs, d)"
| "replaySegments slack ctxErr dw snap (s # ss) c w fs d =
     (if segSequence s \<ge> qsequence w then replaySegments slack ctxErr dw snap ss c w fs d
      else case quarantineSegmentComplete (segPath s) fs of
          (True, fs) \<Rightarrow> replaySegments slack ctxErr dw snap ss c w fs d
        | (False, fs) \<Rightarrow> do {
            (r, fs) \<leftarrow> readQuarantineEntries slack (segPath s) fs;
            (case r of
               Inl e \<Rightarrow> Some (e, c, w, fs, d)
             | Inr entries \<Rightarrow> do {
                 (e, c, w, fs, d) \<leftarrow> replayEntries ctxErr dw snap entries c w fs d;
                 if e \<noteq> [] then Some (e, c, w, fs, d)
                 else (case markQuarantineSegmentComplete (segPath s) fs of
                         (e, fs) \<Rightarrow>
                           if e \<noteq> [] then Some (e, c, w, fs, d)
                           else replaySegments slack ctxErr dw snap ss
                                  (c\<lparr>SegmentsCompleted := SegmentsCompleted c + 1\<rparr>) w fs d) }) })"

definition ReplayQuarantine :: "(u8 list \<Rightarrow> u8 list) \<Rightarrow> (nat \<Rightarrow> go_error list) \<Rightarrow> 'd SensorDataWriter \<Rightarrow> ConfigRegistry
    \<Rightarrow> QuarantineWriter \<Rightarrow> FS \<Rightarrow> 'd \<Rightarrow> (go_error list \<times> ReplayCounters \<times> QuarantineWriter \<times> FS \<times> 'd) option" where
  "ReplayQuarantine slack ctxErr dw reg w fs d =
     (let c = zeroReplay in
      case discoverQuarantineSegments (qDirectory (qoptions w)) fs of
        (Inl e, fs) \<Rightarrow> Some (e, c, w, fs, d)
      | (Inr segments, fs) \<Rightarrow> replaySegments slack ctxErr dw (registry_Snapshot reg) segments c w fs d)"

section \<open>Paths\<close>

definition qseg_path :: "path \<Rightarrow> nat \<Rightarrow> path" where
  "qseg_path dir n = dir @ [quarantineSegmentName n]"

lemma quarantineSegmentName_inj: "quarantineSegmentName m = quarantineSegmentName n \<longleftrightarrow> m = n"
  by (auto simp: quarantineSegmentName_def dest: zero_padded_inj)

lemma parseQuarantineSegmentName_name:
  assumes "1 \<le> n" "n < 10 ^ 8"
  shows "parseQuarantineSegmentName (quarantineSegmentName n) = Some n"
proof -
  have len: "length (zero_padded 8 n) = 8" using assms by (simp only: length_zero_padded_8)
  have "n < 2 ^ 64" using assms by simp
  then show ?thesis
    using assms len
    by (simp add: parseQuarantineSegmentName_def quarantineSegmentName_def HasPrefix_def HasSuffix_def ParseUint_zero_padded)
qed

lemma qseg_path_simps [simp]:
  "qseg_path dir m = qseg_path dir n \<longleftrightarrow> m = n" "qseg_path dir m \<noteq> []" "butlast (qseg_path dir m) = dir"
  by (simp_all add: qseg_path_def quarantineSegmentName_inj)

lemma quarantine_segmentPath_eq: "quarantine_segmentPath w = qseg_path (qDirectory (qoptions w)) (qsequence w)"
  by (simp add: quarantine_segmentPath_def qseg_path_def)

text \<open>A marker is never taken for a segment, nor one marker for another.\<close>

lemma marker_not_segment:
  "quarantineSegmentName m @ ''.done'' \<noteq> quarantineSegmentName n"
  "quarantineSegmentName m @ ''.done.tmp'' \<noteq> quarantineSegmentName n"
  "quarantineSegmentName m @ ''.done.tmp'' \<noteq> quarantineSegmentName n @ ''.done''"
proof -
  have eq: "last xs \<noteq> last ys \<Longrightarrow> xs \<noteq> ys" for xs ys :: string by auto
  show "quarantineSegmentName m @ ''.done'' \<noteq> quarantineSegmentName n"
    "quarantineSegmentName m @ ''.done.tmp'' \<noteq> quarantineSegmentName n"
    "quarantineSegmentName m @ ''.done.tmp'' \<noteq> quarantineSegmentName n @ ''.done''"
    by (rule eq, simp add: quarantineSegmentName_def)+
qed

lemma with_suffix_seg: "with_suffix (qseg_path dir n) s = dir @ [quarantineSegmentName n @ s]"
  by (simp add: with_suffix_def qseg_path_def)

abbreviation done_path :: "path \<Rightarrow> nat \<Rightarrow> path" where
  "done_path dir n \<equiv> with_suffix (qseg_path dir n) ''.done''"

abbreviation tmp_path :: "path \<Rightarrow> nat \<Rightarrow> path" where
  "tmp_path dir n \<equiv> with_suffix (qseg_path dir n) ''.done.tmp''"

lemma marker_paths [simp]:
  "done_path dir m \<noteq> qseg_path dir n" "tmp_path dir m \<noteq> qseg_path dir n" "tmp_path dir m \<noteq> done_path dir n"
  "qseg_path dir n \<noteq> done_path dir m" "qseg_path dir n \<noteq> tmp_path dir m" "done_path dir n \<noteq> tmp_path dir m"
  "done_path dir m = done_path dir n \<longleftrightarrow> m = n" "tmp_path dir m = tmp_path dir n \<longleftrightarrow> m = n"
  using marker_not_segment [of m n] marker_not_segment [of n m]
  by (auto simp: with_suffix_def qseg_path_def quarantineSegmentName_inj)

section \<open>The log of a writer\<close>

text \<open>What the writer has appended since it started with segment \<open>a\<close>: its segments one after the
  other. \<open>qw_ok\<close> is its invariant: an open file is the current segment, and no later segment exists.\<close>

definition qlog :: "nat \<Rightarrow> QuarantineWriter \<Rightarrow> FS \<Rightarrow> u8 list" where
  "qlog a w fs = concat (map (\<lambda>k. stored fs (qseg_path (qDirectory (qoptions w)) k)) [a..<Suc (qsequence w)])"

definition qw_ok :: "nat \<Rightarrow> QuarantineWriter \<Rightarrow> FS \<Rightarrow> bool" where
  "qw_ok a w fs \<longleftrightarrow> a \<le> qsequence w
     \<and> (\<forall>h. qfile w = Some h \<longrightarrow> h = quarantine_segmentPath w \<and> is_file fs h)
     \<and> (\<forall>k > qsequence w. lookup fs (qseg_path (qDirectory (qoptions w)) k) = None)"

lemma stored_lookup: "lookup fs' p = lookup fs p \<Longrightarrow> stored fs' p = stored fs p"
  by (simp add: stored_def)

lemma qlog_split:
  "a \<le> qsequence w \<Longrightarrow> qlog a w fs =
     concat (map (\<lambda>k. stored fs (qseg_path (qDirectory (qoptions w)) k)) [a..<qsequence w]) @ stored fs (quarantine_segmentPath w)"
  by (simp add: qlog_def quarantine_segmentPath_eq)

lemma qlog_append:
  assumes "a \<le> qsequence w" "qsequence w' = qsequence w" "qoptions w' = qoptions w"
    "\<And>q. q \<noteq> quarantine_segmentPath w \<Longrightarrow> stored fs' q = stored fs q"
    "stored fs' (quarantine_segmentPath w) = stored fs (quarantine_segmentPath w) @ xs"
  shows "qlog a w' fs' = qlog a w fs @ xs"
proof -
  have "quarantine_segmentPath w' = quarantine_segmentPath w" using assms by (simp add: quarantine_segmentPath_def)
  moreover have "map (\<lambda>k. stored fs' (qseg_path (qDirectory (qoptions w)) k)) [a..<qsequence w]
      = map (\<lambda>k. stored fs (qseg_path (qDirectory (qoptions w)) k)) [a..<qsequence w]"
    using assms(4) by (intro map_cong) (auto simp: quarantine_segmentPath_eq)
  ultimately show ?thesis
    unfolding qlog_split [OF assms(1)] qlog_split [of a w', unfolded assms(2), OF assms(1)]
    by (simp only: assms(3,5) append_assoc)
qed

lemma closeSegment_spec:
  assumes "closeSegment w fs = (e, w', fs')"
  shows "w' = w\<lparr>qfile := None\<rparr>" "lookup fs' = lookup fs" "faults fs' = faults fs" "no_faults fs \<Longrightarrow> e = []"
  using assms by (auto simp: closeSegment_def errors_Join_def no_faults_results split_beta Let_def split: option.splits)

lemma openSegment_spec:
  assumes "openSegment w fs = (e, w', fs')"
  shows "\<And>q. q \<noteq> quarantine_segmentPath w \<Longrightarrow> lookup fs' q = lookup fs q" "stored fs' = stored fs" "faults fs' = faults fs"
    "e = [] \<Longrightarrow> w' = w\<lparr>qfile := Some (quarantine_segmentPath w)\<rparr> \<and> is_file fs' (quarantine_segmentPath w)"
    "e \<noteq> [] \<Longrightarrow> w' = w \<and> lookup fs' = lookup fs"
proof -
  obtain r fs1 where o: "fs_OpenFile (quarantine_segmentPath w) createAppendReadWriteFlags fs = (r, fs1)"
    by (cases "fs_OpenFile (quarantine_segmentPath w) createAppendReadWriteFlags fs")
  have st: "stored fs1 = stored fs" "faults fs1 = faults fs"
    using OpenFile_stored [of createAppendReadWriteFlags "quarantine_segmentPath w" fs]
      OpenFile_faults [of "quarantine_segmentPath w" createAppendReadWriteFlags fs] o by simp_all
  have out: "(\<forall>q. q \<noteq> quarantine_segmentPath w \<longrightarrow> lookup fs' q = lookup fs q) \<and> stored fs' = stored fs \<and> faults fs' = faults fs
    \<and> (e = [] \<longrightarrow> w' = w\<lparr>qfile := Some (quarantine_segmentPath w)\<rparr> \<and> is_file fs' (quarantine_segmentPath w))
    \<and> (e \<noteq> [] \<longrightarrow> w' = w \<and> lookup fs' = lookup fs)"
  proof (cases r)
    case (Inl x)
    then show ?thesis using assms o st OpenFile_err [of "quarantine_segmentPath w" createAppendReadWriteFlags fs x fs1]
      by (auto simp: openSegment_def)
  next
    case (Inr h)
    then show ?thesis using assms o st OpenFile_ok [of "quarantine_segmentPath w" createAppendReadWriteFlags fs h fs1]
      by (auto simp: openSegment_def)
  qed
  then show "\<And>q. q \<noteq> quarantine_segmentPath w \<Longrightarrow> lookup fs' q = lookup fs q" "stored fs' = stored fs" "faults fs' = faults fs"
    "e = [] \<Longrightarrow> w' = w\<lparr>qfile := Some (quarantine_segmentPath w)\<rparr> \<and> is_file fs' (quarantine_segmentPath w)"
    "e \<noteq> [] \<Longrightarrow> w' = w \<and> lookup fs' = lookup fs" by auto
qed

lemma rotate_log:
  assumes "quarantine_rotate w fs = (e, w', fs')" "qw_ok a w fs"
  shows "qw_ok a w' fs'" "qlog a w' fs' = qlog a w fs" "qoptions w' = qoptions w" "qclosed w' = qclosed w"
    "\<And>q. (\<And>k. k \<ge> qsequence w \<Longrightarrow> q \<noteq> qseg_path (qDirectory (qoptions w)) k) \<Longrightarrow> lookup fs' q = lookup fs q"
    "qsequence w' \<ge> qsequence w" "faults fs' = faults fs"
proof -
  let ?dir = "qDirectory (qoptions w)"
  obtain e1 w1 fs1 where c: "closeSegment w fs = (e1, w1, fs1)" by (cases "closeSegment w fs")
  note cs = closeSegment_spec [OF c]
  have "qw_ok a w' fs' \<and> qlog a w' fs' = qlog a w fs \<and> qoptions w' = qoptions w \<and> qclosed w' = qclosed w
    \<and> (\<forall>q. (\<forall>k \<ge> qsequence w. q \<noteq> qseg_path ?dir k) \<longrightarrow> lookup fs' q = lookup fs q) \<and> qsequence w' \<ge> qsequence w
    \<and> faults fs' = faults fs"
  proof (cases "e1 = []")
    case False
    then have "w' = w\<lparr>qfile := None\<rparr>" "fs' = fs1" using assms(1) c cs by (auto simp: quarantine_rotate_def)
    then show ?thesis using assms(2) cs by (auto simp: qw_ok_def qlog_def stored_def)
  next
    case True
    define w2 where "w2 = w\<lparr>qfile := None, qsequence := Suc (qsequence w), qsize := 0\<rparr>"
    have o: "openSegment w2 fs1 = (e, w', fs')" using assms(1) c cs(1) True by (simp add: quarantine_rotate_def w2_def)
    note os = openSegment_spec [OF o]
    have path: "quarantine_segmentPath w2 = qseg_path ?dir (Suc (qsequence w))"
      by (simp add: w2_def quarantine_segmentPath_eq)
    have fresh: "lookup fs (qseg_path ?dir (Suc (qsequence w))) = None" using assms(2) by (simp add: qw_ok_def)
    then have "stored fs (qseg_path ?dir (Suc (qsequence w))) = []" by (simp add: stored_def)
    then have log: "qlog a w2 fs' = qlog a w fs"
      using os(2) cs(2) assms(2) by (simp add: qlog_def w2_def qw_ok_def stored_def fun_eq_iff)
    have later: "lookup fs' (qseg_path ?dir k) = None" if "k > Suc (qsequence w)" for k
      using os(1) [of "qseg_path ?dir k"] path that assms(2) cs(2) by (auto simp: qw_ok_def)
    have frame: "lookup fs' q = lookup fs q" if "\<forall>k \<ge> qsequence w. q \<noteq> qseg_path ?dir k" for q
      using os(1) [of q] path that cs(2) by auto
    show ?thesis
    proof (cases "e = []")
      case e: True
      then have w': "w' = w2\<lparr>qfile := Some (qseg_path ?dir (Suc (qsequence w)))\<rparr>" "is_file fs' (qseg_path ?dir (Suc (qsequence w)))"
        using os(4) path by auto
      then have "qlog a w' fs' = qlog a w2 fs'" by (simp add: qlog_def)
      moreover have "qw_ok a w' fs'"
        using w' later assms(2) by (auto simp: qw_ok_def w2_def quarantine_segmentPath_eq)
      ultimately show ?thesis using w' log frame os(3) cs(3) by (auto simp: w2_def)
    next
      case e: False
      then have "w' = w2" using os(5) by simp
      moreover have "qw_ok a w2 fs'" using later assms(2) by (auto simp: qw_ok_def w2_def)
      ultimately show ?thesis using log frame os(3) cs(3) by (auto simp: w2_def)
    qed
  qed
  then show "qw_ok a w' fs'" "qlog a w' fs' = qlog a w fs" "qoptions w' = qoptions w" "qclosed w' = qclosed w"
    "\<And>q. (\<And>k. k \<ge> qsequence w \<Longrightarrow> q \<noteq> qseg_path (qDirectory (qoptions w)) k) \<Longrightarrow> lookup fs' q = lookup fs q"
    "qsequence w' \<ge> qsequence w" "faults fs' = faults fs"
    by auto
qed

lemma WriteUnknownMessage_log:
  assumes "WriteUnknownMessage ctxErr m w fs = Some (e, w', fs')" "qw_ok a w fs"
  shows "qw_ok a w' fs'" "\<exists>n. qlog a w' fs' = qlog a w fs @ take n (entry_of m) \<and> (e = [] \<longrightarrow> n = length (entry_of m))"
    "\<And>q. (\<And>k. k \<ge> qsequence w \<Longrightarrow> q \<noteq> qseg_path (qDirectory (qoptions w)) k) \<Longrightarrow> lookup fs' q = lookup fs q"
proof -
  let ?dir = "qDirectory (qoptions w)"
  let ?same = "\<lambda>fs'. \<forall>q. (\<forall>k \<ge> qsequence w. q \<noteq> qseg_path ?dir k) \<longrightarrow> lookup fs' q = lookup fs q"
  have "qw_ok a w' fs' \<and> (\<exists>n. qlog a w' fs' = qlog a w fs @ take n (entry_of m) \<and> (e = [] \<longrightarrow> n = length (entry_of m))) \<and> ?same fs'"
  proof (cases "ctxErr \<noteq> [] \<or> encodeQuarantineEntry m \<noteq> Some (Inr (entry_of m)) \<or> qclosed w")
    case True
    then have "w' = w \<and> fs' = fs \<and> e \<noteq> []"
      using assms(1) by (auto simp: WriteUnknownMessage_def encodeQuarantineEntry_eq split: if_splits)
    then show ?thesis using assms(2) by (auto intro: exI [of _ 0])
  next
    case False
    define full where "full \<longleftrightarrow> qsize w > 0 \<and> qsize w + int (length (entry_of m)) > qRotationSize (qoptions w)"
    obtain e1 w1 fs1 where r: "(if full then quarantine_rotate w fs else ([], w, fs)) = (e1, w1, fs1)"
      by (cases "if full then quarantine_rotate w fs else ([], w, fs)")
    have r1: "qw_ok a w1 fs1" "qlog a w1 fs1 = qlog a w fs" "qoptions w1 = qoptions w" "?same fs1" "qsequence w1 \<ge> qsequence w"
      using r rotate_log [of w fs e1 w1 fs1 a] assms(2) by (auto split: if_splits)
    show ?thesis
    proof (cases "e1 = []")
      case e1: False
      then have "w' = w1 \<and> fs' = fs1 \<and> e = e1"
        using assms(1) False r by (auto simp: WriteUnknownMessage_def full_def split: if_splits)
      then show ?thesis using r1 e1 by (auto intro: exI [of _ 0])
    next
      case e1: True
      obtain h where h: "qfile w1 = Some h"
        using assms(1) False r e1 by (auto simp: WriteUnknownMessage_def full_def split: if_splits option.splits)
      then have hp: "h = quarantine_segmentPath w1" "is_file fs1 h" using r1(1) by (auto simp: qw_ok_def)
      obtain n e2 fs2 where wr: "file_Write h (entry_of m) fs1 = (n, e2, fs2)" by (cases "file_Write h (entry_of m) fs1")
      note ws = file_Write_stored [OF wr hp(2)] and weq = file_Write_eq [OF wr hp(2)]
      have out: "fs' = fs2" "e = e2" "w' = (if e2 = [] then w1\<lparr>qsize := qsize w1 + int (length (entry_of m))\<rparr> else w1)"
        using assms(1) False r e1 h wr by (auto simp: WriteUnknownMessage_def full_def split: if_splits)
      then have w': "qsequence w' = qsequence w1" "qoptions w' = qoptions w1" "qfile w' = qfile w1"
        by simp_all
      then have "quarantine_segmentPath w' = quarantine_segmentPath w1" by (simp add: quarantine_segmentPath_def)
      moreover have "lookup fs' (qseg_path ?dir k) = lookup fs1 (qseg_path ?dir k)" if "k > qsequence w1" for k
        using ws(4) hp(1) out that r1(3) by (simp add: quarantine_segmentPath_eq)
      ultimately have "qw_ok a w' fs'"
        using r1(1,3) w' ws(2) out h hp by (auto simp: qw_ok_def)
      moreover have "qlog a w' fs' = qlog a w1 fs1 @ take n (entry_of m)"
        using ws(1) out w' hp(1) r1(1) by (intro qlog_append) (auto simp: qw_ok_def)
      moreover have "e = [] \<longrightarrow> n = length (entry_of m)" using weq(3) out by simp
      moreover have "?same fs'"
        using r1(3,4,5) ws(4) out hp(1) by (simp add: quarantine_segmentPath_eq)
      ultimately show ?thesis using r1(2) by auto
    qed
  qed
  then show "qw_ok a w' fs'" "\<exists>n. qlog a w' fs' = qlog a w fs @ take n (entry_of m) \<and> (e = [] \<longrightarrow> n = length (entry_of m))"
    "\<And>q. (\<And>k. k \<ge> qsequence w \<Longrightarrow> q \<noteq> qseg_path (qDirectory (qoptions w)) k) \<Longrightarrow> lookup fs' q = lookup fs q"
    by auto
qed

section \<open>Replay on a working disk\<close>

lemma storable_encode: "storable m \<Longrightarrow> encodeQuarantineEntry m = Some (Inr (entry_of m))"
proof -
  assume st: "storable m"
  then have "PayloadLength (Header (uMessage m)) = word_of_nat (length (Payload (uMessage m)))"
    unfolding storable_def by (metis canonical_message_simps(5))
  with st show ?thesis
    using unat_length16 [of "Payload (uMessage m)"] by (auto simp: encodeQuarantineEntry_eq storable_def)
qed

lemma WriteUnknownMessage_fits:
  assumes "no_faults fs" "qw_ok a w fs" "qfile w = Some h" "\<not> qclosed w" "storable m"
    "qsize w + int (length (entry_of m)) \<le> qRotationSize (qoptions w)"
  shows "WriteUnknownMessage [] m w fs = Some ([], w\<lparr>qsize := qsize w + int (length (entry_of m))\<rparr>,
    set_node h (RegFile (stored fs h @ entry_of m)) (tick fs))"
proof -
  have enc: "encodeQuarantineEntry m = Some (Inr (entry_of m))" using assms(5) by (rule storable_encode)
  have f: "is_file fs h" using assms(2,3) by (auto simp: qw_ok_def)
  obtain n e fs2 where wr: "file_Write h (entry_of m) fs = (n, e, fs2)" by (cases "file_Write h (entry_of m) fs")
  have "e = []" using no_faults_results(3) [OF assms(1), of h "entry_of m"] wr by simp
  then have "fs2 = set_node h (RegFile (stored fs h @ entry_of m)) (tick fs)"
    using file_Write_eq [OF wr f] by simp
  then show ?thesis
    using assms(3,4,6) enc wr \<open>e = []\<close> by (simp add: WriteUnknownMessage_def)
qed

lemma run_writes_append:
  "run_writes dw (xs @ ys) d =
     (let (e1, d1) = run_writes dw xs d; (e2, d2) = run_writes dw ys d1 in (e1 @ e2, d2))"
  by (induction xs arbitrary: d) (auto simp: Let_def split_beta)

lemma replayRecords_ok:
  assumes "run_writes dw (writes_of snap dev ts recs) d = (es, d')" "\<forall>x \<in> set es. x = []"
  shows "replayRecords dw snap dev ts recs c d =
    ([], c\<lparr>RecordsWritten := RecordsWritten c + length (writes_of snap dev ts recs)\<rparr>, d')"
  using assms
proof (induction recs arbitrary: c d es)
  case Nil
  then show ?case by (simp add: writes_of_def)
next
  case (Cons rec recs)
  show ?case
  proof (cases "snapshot_Sensor snap (RecType rec)")
    case None
    then show ?thesis using Cons.IH [of d es c] Cons.prems by (simp add: writes_of_Cons)
  next
    case (Some sensor)
    let ?k = "(devFloor dev, devRoom dev, sdType sensor)"
    obtain x d1 where w: "dw ?k ts (Value rec) d = (x, d1)" by (cases "dw ?k ts (Value rec) d")
    obtain es1 where r: "run_writes dw (writes_of snap dev ts recs) d1 = (es1, d')" "es = x # es1"
      using Cons.prems(1) Some w by (cases "run_writes dw (writes_of snap dev ts recs) d1") (auto simp: writes_of_Cons)
    then show ?thesis
      using Cons.IH [OF r(1), of "c\<lparr>RecordsWritten := RecordsWritten c + 1\<rparr>"] Cons.prems(2) Some w
      by (simp add: writes_of_Cons)
  qed
qed

text \<open>What the replay of the messages \<open>ms\<close> under the snapshot \<open>snap\<close> has to do: the messages to carry
  over and the writes for the others.\<close>

definition carried :: "ConfigSnapshot \<Rightarrow> UnknownMessage list \<Rightarrow> UnknownMessage list" where
  "carried snap ms = filter (\<lambda>m. snapshot_Device snap (MAC (Header (uMessage m))) = None) ms"

definition replay_writes :: "ConfigSnapshot \<Rightarrow> UnknownMessage list \<Rightarrow> (dataStreamKey \<times> i64 \<times> i32) list" where
  "replay_writes snap ms = concat (map (\<lambda>m.
     case snapshot_Device snap (MAC (Header (uMessage m))) of
       None \<Rightarrow> []
     | Some dev \<Rightarrow> writes_of snap dev (uTimestamp m) (Sensors (uMessage m))) ms)"

lemma replay_lists_append [simp]:
  "carried snap (xs @ ys) = carried snap xs @ carried snap ys"
  "replay_writes snap (xs @ ys) = replay_writes snap xs @ replay_writes snap ys"
  "carried snap [] = []" "replay_writes snap [] = []"
  by (simp_all add: carried_def replay_writes_def)

lemma carried_length: "length (carried snap ms) \<le> length ms"
  by (simp add: carried_def)

text \<open>A file system that differs from \<open>fs\<close> only in what was appended to the file \<open>h\<close>.\<close>

definition grown :: "path \<Rightarrow> u8 list \<Rightarrow> FS \<Rightarrow> FS \<Rightarrow> bool" where
  "grown h bs fs fs' \<longleftrightarrow> faults fs' = faults fs \<and> (\<forall>q. q \<noteq> h \<longrightarrow> lookup fs' q = lookup fs q)
     \<and> lookup fs' h = Some (RegFile (stored fs h @ bs))"

lemma grown_trans: "grown h xs fs fs' \<Longrightarrow> grown h ys fs' fs'' \<Longrightarrow> grown h (xs @ ys) fs fs''"
  by (simp add: grown_def stored_def)

lemma grown_write: "grown h bs fs (set_node h (RegFile (stored fs h @ bs)) (tick fs))"
  by (simp add: grown_def fs_simps)

lemma grown_ok:
  assumes "grown h bs fs fs'" "qw_ok a w fs" "qfile w = Some h"
  shows "qw_ok a (w\<lparr>qsize := n\<rparr>) fs'" "no_faults fs' = no_faults fs"
proof -
  have "h = qseg_path (qDirectory (qoptions w)) (qsequence w)" using assms(2,3) by (auto simp: qw_ok_def quarantine_segmentPath_eq)
  then show "qw_ok a (w\<lparr>qsize := n\<rparr>) fs'"
    using assms by (auto simp: qw_ok_def grown_def is_file_def quarantine_segmentPath_eq)
  show "no_faults fs' = no_faults fs" using assms(1) by (simp add: grown_def no_faults_def)
qed

lemma replayEntries_ok:
  assumes "no_faults fs" "qw_ok a w fs" "qfile w = Some h" "\<not> qclosed w" "\<forall>m \<in> set ms. storable m"
    "qsize w + int (length (segment_of (carried snap ms))) \<le> qRotationSize (qoptions w)"
    "run_writes dw (replay_writes snap ms) d = (es, d')" "\<forall>x \<in> set es. x = []"
  shows "\<exists>fs'. replayEntries (\<lambda>_. []) dw snap ms c w fs d = Some ([],
      c\<lparr>MessagesReplayed := MessagesReplayed c + (length ms - length (carried snap ms)),
        MessagesCarried := MessagesCarried c + length (carried snap ms),
        RecordsWritten := RecordsWritten c + length (replay_writes snap ms)\<rparr>,
      w\<lparr>qsize := qsize w + int (length (segment_of (carried snap ms)))\<rparr>, fs', d')
    \<and> grown h (segment_of (carried snap ms)) fs fs'"
  using assms
proof (induction ms arbitrary: c w fs d es)
  case Nil
  have "lookup fs h = Some (RegFile (stored fs h))" using Nil.prems(2,3) by (auto simp: qw_ok_def is_file_lookup)
  then show ?case using Nil.prems by (simp add: grown_def)
next
  case (Cons m ms)
  note le = carried_length [of snap ms]
  show ?case
  proof (cases "snapshot_Device snap (MAC (Header (uMessage m)))")
    case None
    let ?w = "w\<lparr>qsize := qsize w + int (length (entry_of m))\<rparr>"
    let ?fs = "set_node h (RegFile (stored fs h @ entry_of m)) (tick fs)"
    have cm: "carried snap (m # ms) = m # carried snap ms" "replay_writes snap (m # ms) = replay_writes snap ms"
      using None by (simp_all add: carried_def replay_writes_def)
    have wr: "WriteUnknownMessage [] m w fs = Some ([], ?w, ?fs)"
      using Cons.prems cm by (intro WriteUnknownMessage_fits [where a = a]) auto
    note g = grown_ok [OF grown_write [of h "entry_of m" fs] Cons.prems(2,3)]
    obtain fs' where IH: "replayEntries (\<lambda>_. []) dw snap ms (c\<lparr>MessagesCarried := MessagesCarried c + 1\<rparr>) ?w ?fs d = Some ([],
        c\<lparr>MessagesReplayed := MessagesReplayed c + (length ms - length (carried snap ms)),
          MessagesCarried := MessagesCarried c + 1 + length (carried snap ms),
          RecordsWritten := RecordsWritten c + length (replay_writes snap ms)\<rparr>,
        w\<lparr>qsize := qsize w + int (length (entry_of m)) + int (length (segment_of (carried snap ms)))\<rparr>, fs', d')"
      "grown h (segment_of (carried snap ms)) ?fs fs'"
      using Cons.IH [of ?fs ?w d es "c\<lparr>MessagesCarried := MessagesCarried c + 1\<rparr>"] Cons.prems g cm by auto
    show ?thesis
      using IH(1) grown_trans [OF grown_write IH(2)] wr None cm le by (intro exI [of _ fs']) (simp add: Let_def add.assoc)
  next
    case (Some dev)
    let ?ws = "writes_of snap dev (uTimestamp m) (Sensors (uMessage m))"
    have cm: "carried snap (m # ms) = carried snap ms" "replay_writes snap (m # ms) = ?ws @ replay_writes snap ms"
      using Some by (simp_all add: carried_def replay_writes_def)
    obtain e1 d1 where r1: "run_writes dw ?ws d = (e1, d1)" by (cases "run_writes dw ?ws d")
    obtain e2 where r2: "run_writes dw (replay_writes snap ms) d1 = (e2, d')" "es = e1 @ e2"
      using Cons.prems(7) cm(2) r1 by (cases "run_writes dw (replay_writes snap ms) d1") (auto simp: run_writes_append)
    have rr: "replayRecords dw snap dev (uTimestamp m) (Sensors (uMessage m)) c d =
        ([], c\<lparr>RecordsWritten := RecordsWritten c + length ?ws\<rparr>, d1)"
      using replayRecords_ok [OF r1] Cons.prems(8) r2(2) by auto
    let ?c = "c\<lparr>RecordsWritten := RecordsWritten c + length ?ws, MessagesReplayed := MessagesReplayed c + 1\<rparr>"
    obtain fs' where IH: "replayEntries (\<lambda>_. []) dw snap ms ?c w fs d1 = Some ([],
        ?c\<lparr>MessagesReplayed := MessagesReplayed ?c + (length ms - length (carried snap ms)),
          MessagesCarried := MessagesCarried ?c + length (carried snap ms),
          RecordsWritten := RecordsWritten ?c + length (replay_writes snap ms)\<rparr>,
        w\<lparr>qsize := qsize w + int (length (segment_of (carried snap ms)))\<rparr>, fs', d')"
      "grown h (segment_of (carried snap ms)) fs fs'"
      using Cons.IH [of fs w d1 e2 ?c] Cons.prems r2 cm by auto
    show ?thesis
      using IH rr Some cm le by (intro exI [of _ fs']) (simp add: Let_def add.assoc Suc_diff_le)
  qed
qed

lemma readAllFile_ok:
  assumes "no_faults fs" "is_file fs p"
  shows "\<exists>fs'. readAllFile p fs = (Inr (stored fs p), fs') \<and> lookup fs' = lookup fs \<and> faults fs' = faults fs"
proof -
  have l: "lookup fs p = Some (RegFile (stored fs p))" using assms(2) by (simp add: is_file_lookup)
  have "fs_OpenFile p readWriteFlags fs = (Inr p, tick fs)" using assms(1) l by (simp add: fs_OpenFile_def)
  then show ?thesis
    using assms(1) l no_faults_results(2) [of "tick (tick fs)" p]
    by (simp add: readAllFile_def file_ReadAll_def file_Close_def fault_now_def no_faults_def fs_simps fun_eq_iff Let_def errors_Join_def)
qed

lemma quarantineSegmentComplete_ok:
  assumes "no_faults fs"
  shows "quarantineSegmentComplete p fs = (lookup fs (with_suffix p ''.done'') \<noteq> None, tick fs)"
  using assms by (auto simp: quarantineSegmentComplete_def fs_Stat_def split: option.splits node.splits)

lemma lookup_rename:
  assumes "no_faults fs" "lookup fs old = Some v" "lookup fs new \<noteq> Some DirNode" "old \<noteq> new"
  shows "\<exists>fs'. fs_Rename old new fs = ([], fs') \<and> faults fs' = faults fs \<and> lookup fs' new = Some v
    \<and> (\<forall>q. q \<notin> {old, new} \<longrightarrow> lookup fs' q = lookup fs q)"
proof -
  obtain fs' where "fs_Rename old new fs = ([], fs')"
    "fs' = (set_node new v (tick fs))\<lparr>nodes := AList.delete old (AList.update new v (nodes fs))\<rparr>"
    using assms by (cases "lookup fs new") (auto simp: fs_Rename_def split: node.splits)
  then show ?thesis
    using assms(2,4) by (auto simp: lookup_def delete_conv' update_conv' set_node_def tick_def)
qed

lemma markQuarantineSegmentComplete_ok:
  assumes "no_faults fs" "is_dir fs dir" "lookup fs (done_path dir k) = None" "lookup fs (tmp_path dir k) \<noteq> Some DirNode"
  shows "\<exists>fs'. markQuarantineSegmentComplete (qseg_path dir k) fs = ([], fs') \<and> faults fs' = faults fs
    \<and> is_file fs' (done_path dir k) \<and> (\<forall>q. q \<notin> {done_path dir k, tmp_path dir k} \<longrightarrow> lookup fs' q = lookup fs q)"
proof -
  let ?t = "tmp_path dir k"
  let ?bs = "map of_char (''complete'' @ [CHR 0x0A]) :: u8 list"
  have t: "?t \<noteq> []" "butlast ?t = dir" by (simp_all add: with_suffix_seg)
  obtain r fs1 where o: "fs_OpenFile ?t createTruncateReadWriteFlags fs = (r, fs1)"
    by (cases "fs_OpenFile ?t createTruncateReadWriteFlags fs")
  have r: "r = Inr ?t" using OpenFile_no_faults [OF assms(1) _ t(1), of createTruncateReadWriteFlags] o assms(2,4) t(2) by simp
  note o1 = OpenFile_ok [OF o [unfolded r]]
  have f1: "faults fs1 = faults fs" using OpenFile_faults [of ?t createTruncateReadWriteFlags fs] o by simp
  then have nf1: "no_faults fs1" using assms(1) by (simp add: no_faults_def)
  obtain n e fs2 where wr: "file_Write ?t ?bs fs1 = (n, e, fs2)" by (cases "file_Write ?t ?bs fs1")
  have e: "e = []" using no_faults_results(3) [OF nf1, of ?t ?bs] wr by simp
  have fs2: "fs2 = set_node ?t (RegFile (stored fs1 ?t @ take n ?bs)) (tick fs1)" by (rule file_Write_eq(1) [OF wr o1(2)])
  define fs4 where "fs4 = snd (file_Close ?t (snd (file_Sync ?t fs2)))"
  have nf: "no_faults fs2" "no_faults (snd (file_Sync ?t fs2))" "no_faults fs4"
    using nf1 by (simp_all add: fs2 fs4_def fs_simps)
  have look: "lookup fs4 q = lookup fs2 q" "faults fs4 = faults fs" for q by (simp_all add: fs4_def f1 fs2 fs_simps)
  have tmp: "lookup fs4 ?t = Some (RegFile (stored fs1 ?t @ take n ?bs))"
    and other: "q \<noteq> ?t \<Longrightarrow> lookup fs4 q = lookup fs q" for q
    using o1(3) [of q] by (simp_all add: look fs2 fs_simps)
  have "lookup fs4 (done_path dir k) \<noteq> Some DirNode" using other [of "done_path dir k"] assms(3) by simp
  from lookup_rename [OF nf(3) tmp this] obtain fs' where
    rn: "fs_Rename ?t (done_path dir k) fs4 = ([], fs')" "faults fs' = faults fs4"
      "lookup fs' (done_path dir k) = Some (RegFile (stored fs1 ?t @ take n ?bs))"
      "\<forall>q. q \<notin> {?t, done_path dir k} \<longrightarrow> lookup fs' q = lookup fs4 q" by auto
  have "markQuarantineSegmentComplete (qseg_path dir k) fs = fs_Rename ?t (done_path dir k) fs4"
    using o r wr e no_faults_results(1) [OF nf(1)] no_faults_results(2) [OF nf(2)]
    by (simp add: markQuarantineSegmentComplete_def errors_Join_def fs4_def split_beta Let_def)
  then show ?thesis using rn look(2) other by (intro exI [of _ fs']) (simp add: is_file_def)
qed

text \<open>A segment the replay meets: complete already, or intact with the messages \<open>contents k\<close>.\<close>

definition seg_ready :: "(nat \<Rightarrow> UnknownMessage list option) \<Rightarrow> path \<Rightarrow> FS \<Rightarrow> nat \<Rightarrow> bool" where
  "seg_ready contents dir fs k \<longleftrightarrow> is_file fs (qseg_path dir k)
     \<and> (case contents k of
          None \<Rightarrow> is_file fs (done_path dir k)
        | Some ms \<Rightarrow> lookup fs (done_path dir k) = None \<and> lookup fs (tmp_path dir k) \<noteq> Some DirNode
            \<and> stored fs (qseg_path dir k) = segment_of ms \<and> (\<forall>m \<in> set ms. storable m))"

definition pending :: "(nat \<Rightarrow> UnknownMessage list option) \<Rightarrow> nat list \<Rightarrow> UnknownMessage list" where
  "pending contents ks = concat (map (\<lambda>k. case contents k of None \<Rightarrow> [] | Some ms \<Rightarrow> ms) ks)"

lemma pending_simps [simp]:
  "pending contents [] = []"
  "pending contents (k # ks) = (case contents k of None \<Rightarrow> [] | Some ms \<Rightarrow> ms) @ pending contents ks"
  by (simp_all add: pending_def)

lemma seg_ready_frame:
  assumes "seg_ready contents dir fs k"
    "\<And>q. q \<in> {qseg_path dir k, done_path dir k, tmp_path dir k} \<Longrightarrow> lookup fs' q = lookup fs q"
  shows "seg_ready contents dir fs' k"
  using assms by (auto simp: seg_ready_def is_file_def stored_def split: option.splits)

lemma seg_ready_tick: "seg_ready contents dir fs k \<Longrightarrow> seg_ready contents dir (tick fs) k"
  by (erule seg_ready_frame) (simp add: fs_simps)

abbreviation old_segments :: "path \<Rightarrow> nat list \<Rightarrow> quarantineSegment list" where
  "old_segments dir ks \<equiv> map (\<lambda>k. \<lparr>segSequence = k, segPath = qseg_path dir k\<rparr>) ks"

text \<open>What replaying the segments \<open>ks\<close> does to the counters, and to the file system when \<open>bs\<close> is carried
  over into the file \<open>h\<close>.\<close>

definition replay_count :: "(nat \<Rightarrow> UnknownMessage list option) \<Rightarrow> ConfigSnapshot \<Rightarrow> nat list \<Rightarrow> ReplayCounters \<Rightarrow> ReplayCounters" where
  "replay_count contents snap ks c =
     (let ms = pending contents ks in
      \<lparr>SegmentsCompleted = SegmentsCompleted c + length (filter (\<lambda>k. contents k \<noteq> None) ks),
       MessagesReplayed = MessagesReplayed c + (length ms - length (carried snap ms)),
       MessagesCarried = MessagesCarried c + length (carried snap ms),
       RecordsWritten = RecordsWritten c + length (replay_writes snap ms)\<rparr>)"

definition replay_fs :: "path \<Rightarrow> path \<Rightarrow> nat list \<Rightarrow> u8 list \<Rightarrow> FS \<Rightarrow> FS \<Rightarrow> bool" where
  "replay_fs dir h ks bs fs fs' \<longleftrightarrow>
     faults fs' = faults fs \<and> (\<forall>k \<in> set ks. is_file fs' (done_path dir k))
   \<and> lookup fs' h = Some (RegFile (stored fs h @ bs))
   \<and> (\<forall>q. q \<noteq> h \<and> (\<forall>k \<in> set ks. q \<noteq> done_path dir k \<and> q \<noteq> tmp_path dir k) \<longrightarrow> lookup fs' q = lookup fs q)"

lemma replay_count_Cons:
  "replay_count contents snap (k # ks) c = replay_count contents snap ks (replay_count contents snap [k] c)"
proof (cases "contents k")
  case (Some ms)
  then show ?thesis
    using carried_length [of snap ms] carried_length [of snap "pending contents ks"]
    by (simp add: replay_count_def Let_def)
qed (simp add: replay_count_def)

lemma replay_count_none: "pending contents ks = [] \<Longrightarrow> filter (\<lambda>k. contents k \<noteq> None) ks = [] \<Longrightarrow> replay_count contents snap ks c = c"
  by (cases c) (simp add: replay_count_def)

lemma replay_fs_Cons:
  assumes "replay_fs dir (qseg_path dir n) [k] xs fs fs1" "replay_fs dir (qseg_path dir n) ks ys fs1 fs2" "k \<notin> set ks"
  shows "replay_fs dir (qseg_path dir n) (k # ks) (xs @ ys) fs fs2"
proof -
  have "\<forall>j \<in> set ks. done_path dir k \<noteq> done_path dir j \<and> done_path dir k \<noteq> tmp_path dir j" using assms(3) by auto
  then have "lookup fs2 (done_path dir k) = lookup fs1 (done_path dir k)"
    using assms(2) by (simp add: replay_fs_def)
  then have "is_file fs2 (done_path dir k)" using assms(1) by (simp add: replay_fs_def is_file_def)
  then show ?thesis using assms(1,2) by (auto simp: replay_fs_def stored_def)
qed

lemma replay_fs_ready:
  assumes "replay_fs dir (qseg_path dir n) [k] xs fs fs'" "j \<noteq> k" "j \<noteq> n" "seg_ready contents dir fs j"
  shows "seg_ready contents dir fs' j"
  using assms by (intro seg_ready_frame [OF assms(4)]) (auto simp: replay_fs_def)

lemma replay_fs_ok:
  assumes "replay_fs (qDirectory (qoptions w)) h ks xs fs fs'" "qw_ok a w fs" "qfile w = Some h"
    "no_faults fs" "is_dir fs (qDirectory (qoptions w))"
  shows "qw_ok a (w\<lparr>qsize := n\<rparr>) fs'" "no_faults fs'" "is_dir fs' (qDirectory (qoptions w))"
proof -
  let ?dir = "qDirectory (qoptions w)"
  have h: "h = qseg_path ?dir (qsequence w)" using assms(2,3) by (auto simp: qw_ok_def quarantine_segmentPath_eq)
  then show "qw_ok a (w\<lparr>qsize := n\<rparr>) fs'"
    using assms(1,2,3) by (auto simp: qw_ok_def replay_fs_def is_file_def quarantine_segmentPath_eq)
  show "no_faults fs'" using assms(1,4) by (simp add: replay_fs_def no_faults_def)
  have "?dir \<noteq> h \<and> (\<forall>k \<in> set ks. ?dir \<noteq> done_path ?dir k \<and> ?dir \<noteq> tmp_path ?dir k)"
    by (simp add: h qseg_path_def with_suffix_def)
  then show "is_dir fs' ?dir" using assms(1,5) by (simp add: replay_fs_def is_dir_def)
qed

lemma replay_one:
  assumes "no_faults fs" "qw_ok a w fs" "qfile w = Some h" "\<not> qclosed w" "is_dir fs (qDirectory (qoptions w))"
    "k < qsequence w" "seg_ready contents (qDirectory (qoptions w)) fs k" "ms = pending contents [k]"
    "qsize w + int (length (segment_of (carried snap ms))) \<le> qRotationSize (qoptions w)"
    "run_writes dw (replay_writes snap ms) d = (es, d')" "\<forall>x \<in> set es. x = []"
  shows "\<exists>fs'. replaySegments slack (\<lambda>_. []) dw snap (\<lparr>segSequence = k, segPath = qseg_path (qDirectory (qoptions w)) k\<rparr> # ss) c w fs d
      = replaySegments slack (\<lambda>_. []) dw snap ss (replay_count contents snap [k] c)
          (w\<lparr>qsize := qsize w + int (length (segment_of (carried snap ms)))\<rparr>) fs' d'
    \<and> replay_fs (qDirectory (qoptions w)) h [k] (segment_of (carried snap ms)) fs fs'"
proof (cases "contents k")
  case None
  have f: "is_file fs (done_path (qDirectory (qoptions w)) k)" using assms(7) None by (auto simp: seg_ready_def)
  have "is_file fs h" using assms(2,3) by (auto simp: qw_ok_def)
  then have "replay_fs (qDirectory (qoptions w)) h [k] [] fs (tick fs)"
    using f by (simp add: replay_fs_def fs_simps is_file_lookup)
  moreover have "lookup fs (done_path (qDirectory (qoptions w)) k) \<noteq> None" using f by (simp add: is_file_lookup)
  ultimately show ?thesis
    using assms(6,8,10) None
    by (intro exI [of _ "tick fs"]) (simp add: quarantineSegmentComplete_ok [OF assms(1)] replay_count_none)
next
  case (Some ms')
  let ?dir = "qDirectory (qoptions w)"
  have ms: "contents k = Some ms" using assms(8) Some by simp
  have h: "h = qseg_path ?dir (qsequence w)" using assms(2,3) by (auto simp: qw_ok_def quarantine_segmentPath_eq)
  have ready: "is_file fs (qseg_path ?dir k)" "lookup fs (done_path ?dir k) = None" "lookup fs (tmp_path ?dir k) \<noteq> Some DirNode"
    "stored fs (qseg_path ?dir k) = segment_of ms" "\<forall>m \<in> set ms. storable m"
    using assms(7) ms by (auto simp: seg_ready_def)
  have tick: "no_faults (tick fs)" "is_file (tick fs) (qseg_path ?dir k)" "stored (tick fs) (qseg_path ?dir k) = segment_of ms"
    using assms(1) ready by (simp_all add: fs_simps)
  obtain fs1 where rd: "readAllFile (qseg_path ?dir k) (tick fs) = (Inr (segment_of ms), fs1)"
    and fs1: "lookup fs1 = lookup fs" "faults fs1 = faults fs"
    using readAllFile_ok [OF tick(1,2)] tick(3) by (auto simp: fs_simps fun_eq_iff)
  have entries: "readQuarantineEntries slack (qseg_path ?dir k) (tick fs) = Some (Inr ms, fs1)"
    using rd read_segment [of "\<lparr>elems = segment_of ms, spare = slack (segment_of ms)\<rparr>" "[]" ms] ready(5)
    by (simp add: readQuarantineEntries_def)
  have w1: "no_faults fs1" "qw_ok a w fs1" using assms(1,2) fs1 by (simp_all add: no_faults_def qw_ok_def is_file_def)
  define w' c' where "w' = w\<lparr>qsize := qsize w + int (length (segment_of (carried snap ms)))\<rparr>"
    and "c' = c\<lparr>MessagesReplayed := MessagesReplayed c + (length ms - length (carried snap ms)),
      MessagesCarried := MessagesCarried c + length (carried snap ms),
      RecordsWritten := RecordsWritten c + length (replay_writes snap ms)\<rparr>"
  obtain fs2 where rep: "replayEntries (\<lambda>_. []) dw snap ms c w fs1 d = Some ([], c', w', fs2, d')"
    and g: "grown h (segment_of (carried snap ms)) fs1 fs2"
    using replayEntries_ok [OF w1 assms(3,4) ready(5) assms(9,10,11), of c] by (auto simp: c'_def w'_def)
  have same: "lookup fs2 q = lookup fs q" if "q \<noteq> h" for q using g that fs1 by (simp add: grown_def)
  have "no_faults fs2" using grown_ok(2) [OF g w1(2) assms(3)] w1(1) by simp
  moreover have "is_dir fs2 ?dir" using assms(5) same [of ?dir] h by (auto simp: is_dir_def qseg_path_def)
  moreover have "lookup fs2 (done_path ?dir k) = None" "lookup fs2 (tmp_path ?dir k) \<noteq> Some DirNode"
    using same ready(2,3) h by simp_all
  ultimately obtain fs3 where mk: "markQuarantineSegmentComplete (qseg_path ?dir k) fs2 = ([], fs3)" "faults fs3 = faults fs2"
    "is_file fs3 (done_path ?dir k)" "\<forall>q. q \<notin> {done_path ?dir k, tmp_path ?dir k} \<longrightarrow> lookup fs3 q = lookup fs2 q"
    using markQuarantineSegmentComplete_ok by blast
  have step: "replaySegments slack (\<lambda>_. []) dw snap (\<lparr>segSequence = k, segPath = qseg_path ?dir k\<rparr> # ss) c w fs d
      = replaySegments slack (\<lambda>_. []) dw snap ss (c'\<lparr>SegmentsCompleted := SegmentsCompleted c' + 1\<rparr>) w' fs3 d'"
    using assms(6) ready(2) entries rep mk(1) by (simp add: quarantineSegmentComplete_ok [OF assms(1)])
  have "stored fs1 h = stored fs h" using fs1 by (simp add: stored_def)
  then have "replay_fs ?dir h [k] (segment_of (carried snap ms)) fs fs3"
    using mk g h same fs1(2) by (simp add: replay_fs_def grown_def)
  moreover have "c'\<lparr>SegmentsCompleted := SegmentsCompleted c' + 1\<rparr> = replay_count contents snap [k] c"
    using ms by (simp add: c'_def replay_count_def Let_def)
  ultimately show ?thesis using step w'_def by auto
qed

lemma replaySegments_ok:
  assumes "no_faults fs" "qw_ok a w fs" "qfile w = Some h" "\<not> qclosed w" "is_dir fs (qDirectory (qoptions w))"
    "distinct ks" "\<forall>k \<in> set ks. k < qsequence w \<and> seg_ready contents (qDirectory (qoptions w)) fs k"
    "qsize w + int (length (segment_of (carried snap (pending contents ks)))) \<le> qRotationSize (qoptions w)"
    "run_writes dw (replay_writes snap (pending contents ks)) d = (es, d')" "\<forall>x \<in> set es. x = []"
  shows "\<exists>fs'. replaySegments slack (\<lambda>_. []) dw snap (old_segments (qDirectory (qoptions w)) ks @ rest) c w fs d
      = replaySegments slack (\<lambda>_. []) dw snap rest (replay_count contents snap ks c)
          (w\<lparr>qsize := qsize w + int (length (segment_of (carried snap (pending contents ks))))\<rparr>) fs' d'
    \<and> replay_fs (qDirectory (qoptions w)) h ks (segment_of (carried snap (pending contents ks))) fs fs'"
  using assms
proof (induction ks arbitrary: c w fs d es)
  case Nil
  have "lookup fs h = Some (RegFile (stored fs h))" using Nil.prems(2,3) by (auto simp: qw_ok_def is_file_lookup)
  then show ?case using Nil.prems by (intro exI [of _ fs]) (simp add: replay_count_none replay_fs_def)
next
  case (Cons k ks)
  let ?dir = "qDirectory (qoptions w)"
  let ?ms = "pending contents [k]"
  have h: "h = qseg_path ?dir (qsequence w)" using Cons.prems(2,3) by (auto simp: qw_ok_def quarantine_segmentPath_eq)
  have split: "pending contents (k # ks) = ?ms @ pending contents ks" by simp
  obtain e1 d1 where r1: "run_writes dw (replay_writes snap ?ms) d = (e1, d1)" by (cases "run_writes dw (replay_writes snap ?ms) d")
  obtain e2 where r2: "run_writes dw (replay_writes snap (pending contents ks)) d1 = (e2, d')" "es = e1 @ e2"
    using Cons.prems(9) r1 unfolding split
    by (cases "run_writes dw (replay_writes snap (pending contents ks)) d1") (auto simp: run_writes_append)
  have fits: "qsize w + int (length (segment_of (carried snap ?ms))) \<le> qRotationSize (qoptions w)"
    using Cons.prems(8) unfolding split by simp
  define w1 where "w1 = w\<lparr>qsize := qsize w + int (length (segment_of (carried snap ?ms)))\<rparr>"
  obtain fs1 where one: "replaySegments slack (\<lambda>_. []) dw snap (old_segments ?dir (k # ks) @ rest) c w fs d
      = replaySegments slack (\<lambda>_. []) dw snap (old_segments ?dir ks @ rest) (replay_count contents snap [k] c) w1 fs1 d1"
    and f1: "replay_fs ?dir h [k] (segment_of (carried snap ?ms)) fs fs1"
    using replay_one [OF Cons.prems(1-5) _ _ refl fits r1, of slack "old_segments ?dir ks @ rest" c] Cons.prems(7,10) r2(2)
    by (auto simp: w1_def)
  note ok = replay_fs_ok [OF f1 Cons.prems(2,3,1,5)]
  have "seg_ready contents ?dir fs1 j" if "j \<in> set ks" for j
    using replay_fs_ready [OF f1 [unfolded h], of j] Cons.prems(6,7) that by auto
  then have ready: "\<forall>j \<in> set ks. j < qsequence w1 \<and> seg_ready contents ?dir fs1 j"
    using Cons.prems(7) by (simp add: w1_def)
  have dir: "qDirectory (qoptions w1) = ?dir" by (simp add: w1_def)
  have fits1: "qsize w1 + int (length (segment_of (carried snap (pending contents ks)))) \<le> qRotationSize (qoptions w1)"
    using Cons.prems(8) unfolding split by (simp add: w1_def)
  have "qw_ok a w1 fs1" using ok(1) by (simp add: w1_def)
  from Cons.IH [OF ok(2) this, of d1 e2 "replay_count contents snap [k] c", unfolded dir]
  obtain fs' where IH: "replaySegments slack (\<lambda>_. []) dw snap (old_segments ?dir ks @ rest) (replay_count contents snap [k] c) w1 fs1 d1
      = replaySegments slack (\<lambda>_. []) dw snap rest (replay_count contents snap (k # ks) c)
          (w1\<lparr>qsize := qsize w1 + int (length (segment_of (carried snap (pending contents ks))))\<rparr>) fs' d'"
    "replay_fs ?dir h ks (segment_of (carried snap (pending contents ks))) fs1 fs'"
    using Cons.prems(3,4,6,10) ok(3) ready fits1 r2 by (auto simp: w1_def replay_count_Cons [of _ _ k ks])
  have "replay_fs ?dir h (k # ks) (segment_of (carried snap (pending contents (k # ks)))) fs fs'"
    unfolding h split using replay_fs_Cons [OF f1 [unfolded h] IH(2) [unfolded h]] Cons.prems(6) by simp
  then show ?case
    unfolding one IH(1) split by (intro exI [of _ fs']) (simp add: w1_def add.assoc)
qed

lemma replaySegments_skip:
  "\<forall>s \<in> set ss. segSequence s \<ge> qsequence w \<Longrightarrow> replaySegments slack ctxErr dw snap ss c w fs d = Some ([], c, w, fs, d)"
  by (induction ss) auto

section \<open>Discovery\<close>

lemma name_parseQuarantineSegmentName:
  assumes "parseQuarantineSegmentName name = Some n"
  shows "name = quarantineSegmentName n" "1 \<le> n" "n < 10 ^ 8"
proof -
  have eleven: "length ''quarantine-'' = 11" by simp
  have pre: "take 11 name = ''quarantine-''" and suf: "drop (length name - 4) name = ''.bin''" and len: "length name = 23"
    and n: "1 \<le> n" and val: "digits_val 0 (take 8 (drop 11 name)) = Some n"
    using assms unfolding parseQuarantineSegmentName_def HasPrefix_def eleven
    by (auto simp: HasSuffix_def ParseUint_def split: if_splits option.splits)
  show "1 \<le> n" by (rule n)
  show bound: "n < 10 ^ 8" using digits_val_bound [OF val] len by simp
  then have "length (zero_padded 8 n) = 8" by (simp only: length_zero_padded_8)
  then have mid: "take 8 (drop 11 name) = zero_padded 8 n"
    using len by (intro digits_val_inj [OF _ val]) simp_all
  have "name = take 11 name @ take 8 (drop 11 name) @ drop 8 (drop 11 name)" by (simp only: append_take_drop_id)
  also have "drop 8 (drop 11 name) = ''.bin''" using suf len by simp
  finally show "name = quarantineSegmentName n" using pre mid by (simp add: quarantineSegmentName_def)
qed

text \<open>The numbers of the segments in a directory.\<close>

definition segment_numbers :: "FS \<Rightarrow> path \<Rightarrow> nat set" where
  "segment_numbers fs dir = {k. 1 \<le> k \<and> k < 10 ^ 8 \<and> is_file fs (qseg_path dir k)}"

lemma finite_segment_numbers [simp]: "finite (segment_numbers fs dir)"
  unfolding segment_numbers_def by (rule finite_subset [of _ "{..<10 ^ 8}"]) auto

lemma distinct_concat_names:
  assumes "distinct names"
  shows "distinct (map segSequence (concat (map (\<lambda>(name, isDir).
       case parseQuarantineSegmentName name of
         None \<Rightarrow> []
       | Some n \<Rightarrow> if isDir then [] else [\<lparr>segSequence = n, segPath = dir @ [name]\<rparr>]) (map (\<lambda>n. (n, g n)) names))))"
  using assms
proof (induction names)
  case (Cons x xs)
  then show ?case
    using name_parseQuarantineSegmentName(1) [of x] name_parseQuarantineSegmentName(1)
    by (auto split: option.splits if_splits) metis
qed simp

lemma discoverQuarantineSegments_ok:
  assumes "no_faults fs" "is_dir fs dir"
  shows "discoverQuarantineSegments dir fs = (Inr (old_segments dir (sorted_list_of_set (segment_numbers fs dir))), tick fs)"
proof -
  define found where "found = concat (map (\<lambda>(name, isDir).
       case parseQuarantineSegmentName name of
         None \<Rightarrow> []
       | Some n \<Rightarrow> if isDir then [] else [\<lparr>segSequence = n, segPath = dir @ [name]\<rparr>])
       (map (\<lambda>n. (n, is_dir fs (dir @ [n]))) (entries_of fs dir)))"
  have eq: "discoverQuarantineSegments dir fs = (Inr (sort_key segSequence found), tick fs)"
    using assms by (simp add: discoverQuarantineSegments_def fs_ReadDir_def found_def)
  have mem: "s \<in> set found \<longleftrightarrow> segSequence s \<in> segment_numbers fs dir \<and> segPath s = qseg_path dir (segSequence s)" for s
  proof -
    have "s \<in> set found \<longleftrightarrow> (\<exists>name \<in> set (entries_of fs dir). \<not> is_dir fs (dir @ [name])
        \<and> parseQuarantineSegmentName name = Some (segSequence s) \<and> segPath s = dir @ [name])"
      by (cases s) (auto simp: found_def split: option.splits)
    also have "\<dots> \<longleftrightarrow> segSequence s \<in> segment_numbers fs dir \<and> segPath s = qseg_path dir (segSequence s)"
      using name_parseQuarantineSegmentName parseQuarantineSegmentName_name
      by (fastforce simp: segment_numbers_def set_entries_of qseg_path_def is_dir_def is_file_def split: option.splits node.splits)
    finally show ?thesis .
  qed
  have "distinct (map segSequence found)"
    unfolding found_def by (rule distinct_concat_names) (simp add: entries_of_def)
  then have dist: "distinct (map segSequence (sort_key segSequence found))"
    by (metis distinct_map distinct_sort set_sort)
  have img: "set (map segSequence (sort_key segSequence found)) = segment_numbers fs dir"
  proof
    show "segment_numbers fs dir \<subseteq> set (map segSequence (sort_key segSequence found))"
    proof
      fix k assume "k \<in> segment_numbers fs dir"
      then have "\<lparr>segSequence = k, segPath = qseg_path dir k\<rparr> \<in> set found" by (simp add: mem)
      then show "k \<in> set (map segSequence (sort_key segSequence found))" by force
    qed
  qed (auto simp: mem)
  have seqs: "map segSequence (sort_key segSequence found) = sorted_list_of_set (segment_numbers fs dir)"
    using dist img sorted_sort_key [of segSequence found] by (metis sorted_list_of_set.idem_if_sorted_distinct)
  have "sort_key segSequence found = old_segments dir (map segSequence (sort_key segSequence found))"
    unfolding map_map by (rule map_idI [symmetric]) (auto simp: mem)
  then show ?thesis using eq seqs by simp
qed

lemma sorted_split: "sorted xs \<Longrightarrow> xs = filter (\<lambda>k. k < n) xs @ filter (\<lambda>k. \<not> k < n) xs" for n :: nat
proof (induction xs)
  case (Cons x xs)
  show ?case
  proof (cases "x < n")
    case False
    then have "\<forall>y \<in> set xs. \<not> y < n" using Cons.prems by auto
    then show ?thesis using False by simp
  qed (use Cons in simp)
qed simp

section \<open>Properties of the quarantine\<close>

lemma datagram_storable:
  assumes "DecodeDatagram s = Some (Inr m)" "t \<in> {TransportTCP, TransportUDP}"
  shows "storable \<lparr>uTimestamp = ts, uTransport = t, uMessage = m\<rparr>"
proof -
  have "datagram_verdict (elems s) = Inr m" using assms(1) by (simp add: DecodeDatagram_eq)
  from datagram_verdict_accepts [OF this] assms(2) show ?thesis unfolding storable_def by auto
qed

definition demo_unknown :: UnknownMessage where
  "demo_unknown = \<lparr>uTimestamp = 7, uTransport = TransportUDP, uMessage = canonical_message (MACAddress 2 0 0 0 0 1) [1, 21, 0, 0]\<rparr>"

lemma demo_storable: "storable demo_unknown"
  by (simp add: storable_def demo_unknown_def MaximumPayloadSize_def)

text \<open>
  C14. The quarantine loses no message it accepted. Every message the wire decoders accept can be
  encoded; a segment that holds encoded messages is read back as exactly these messages; and
  when a crash has cut the last entry anywhere, the scan finds the end of the intact ones, so
  the repair cuts off the torn entry and nothing else. No byte beyond the data plays a part.
\<close>

theorem Quarantine_entries_roundtrip:
  assumes "\<forall>m \<in> set ms. storable m"
    and "torn = [] \<or> (\<exists>k m. storable m \<and> k < length (entry_of m) \<and> torn = take k (entry_of m))"
  shows "(\<forall>m \<in> set ms. encodeQuarantineEntry m = Some (Inr (entry_of m)))
    \<and> read_from \<lparr>elems = segment_of ms, spare = sp\<rparr> 0 = Some (Inr ms)
    \<and> scanQuarantineEntries \<lparr>elems = segment_of ms @ torn, spare = sp\<rparr> = Some (Inr (length (segment_of ms)))
    \<and> (\<forall>s m ts. DecodeDatagram s = Some (Inr m) \<longrightarrow> storable \<lparr>uTimestamp = ts, uTransport = TransportUDP, uMessage = m\<rparr>)"
  using assms read_segment [of "\<lparr>elems = segment_of ms, spare = sp\<rparr>" "[]" ms]
    scan_segment [of "\<lparr>elems = segment_of ms @ torn, spare = sp\<rparr>" "[]" ms torn]
  by (auto simp: scanQuarantineEntries_def storable_encode datagram_storable)

theorem Quarantine_entries_roundtrip_witness:
  "scanQuarantineEntries \<lparr>elems = segment_of [demo_unknown, demo_unknown] @ take 31 (entry_of demo_unknown), spare = [0]\<rparr>
    = Some (Inr (length (segment_of [demo_unknown, demo_unknown])))"
proof -
  have "storable demo_unknown \<and> 31 < length (entry_of demo_unknown)" using demo_storable by simp
  then have "\<exists>k m. storable m \<and> k < length (entry_of m) \<and> take 31 (entry_of demo_unknown) = take k (entry_of m)" by blast
  then show ?thesis
    using Quarantine_entries_roundtrip [of "[demo_unknown, demo_unknown]" "take 31 (entry_of demo_unknown)" "[0]"] demo_storable
    by simp
qed

abbreviation demo_qopts :: QuarantineOptions where
  "demo_qopts \<equiv> \<lparr>qDirectory = [''q''], qRotationSize = 1000, qDirectoryMode = 493, qFileMode = 420\<rparr>"

definition demo_qwriter :: QuarantineWriter where
  "demo_qwriter = \<lparr>qoptions = demo_qopts, qfile = Some (qseg_path [''q''] 2), qsequence = 2, qsize = 0, qclosed = False\<rparr>"

definition demo_qfs :: "(nat \<Rightarrow> fault option) \<Rightarrow> FS" where
  "demo_qfs g = \<lparr>nodes = [([''q''], DirNode), (qseg_path [''q''] 2, RegFile []),
     (qseg_path [''q''] 1, RegFile (segment_of [demo_unknown]))], ops = 0, faults = g\<rparr>"

lemma demo_q_lookup:
  "lookup (demo_qfs g) (qseg_path [''q''] k) =
     (if k = 2 then Some (RegFile []) else if k = 1 then Some (RegFile (segment_of [demo_unknown])) else None)"
  "lookup (demo_qfs g) [''q''] = Some DirNode" "lookup (demo_qfs g) (done_path [''q''] k) = None"
  "lookup (demo_qfs g) (tmp_path [''q''] k) = None"
  by (auto simp: lookup_def demo_qfs_def qseg_path_def with_suffix_def quarantineSegmentName_inj marker_not_segment)

lemma demo_qw_ok: "qw_ok 2 demo_qwriter (demo_qfs g)"
  by (auto simp: qw_ok_def demo_qwriter_def demo_q_lookup quarantine_segmentPath_eq is_file_def)

text \<open>
  Whatever the disk does, a write that succeeds appends exactly the encoded message to the
  writer's segments, one that fails appends at most the beginning of it, and no other file
  changes: not the older segments, and not their markers.
\<close>

theorem WriteUnknownMessage_appends:
  assumes "qw_ok a w fs" "WriteUnknownMessage ctxErr m w fs = Some (e, w', fs')"
  shows "qw_ok a w' fs'
    \<and> (\<exists>n. qlog a w' fs' = qlog a w fs @ take n (entry_of m) \<and> (e = [] \<longrightarrow> n = length (entry_of m)))
    \<and> (\<forall>q. (\<forall>k \<ge> qsequence w. q \<noteq> qseg_path (qDirectory (qoptions w)) k) \<longrightarrow> lookup fs' q = lookup fs q)"
  using WriteUnknownMessage_log [OF assms(2,1)] by blast

theorem WriteUnknownMessage_appends_witness:
  "\<exists>w' fs'. WriteUnknownMessage [] demo_unknown demo_qwriter (demo_qfs (\<lambda>_. None)) = Some ([], w', fs')
    \<and> qlog 2 w' fs' = entry_of demo_unknown"
proof -
  have "no_faults (demo_qfs (\<lambda>_. None))" by (simp add: no_faults_def demo_qfs_def)
  then have w: "WriteUnknownMessage [] demo_unknown demo_qwriter (demo_qfs (\<lambda>_. None)) = Some ([],
      demo_qwriter\<lparr>qsize := qsize demo_qwriter + int (length (entry_of demo_unknown))\<rparr>,
      set_node (qseg_path [''q''] 2) (RegFile (stored (demo_qfs (\<lambda>_. None)) (qseg_path [''q''] 2) @ entry_of demo_unknown))
        (tick (demo_qfs (\<lambda>_. None))))"
    by (rule WriteUnknownMessage_fits [OF _ demo_qw_ok])
      (use demo_storable in \<open>simp_all add: demo_qwriter_def\<close>, simp add: demo_unknown_def)
  have "qlog 2 demo_qwriter (demo_qfs (\<lambda>_. None)) = []"
    by (simp add: qlog_def demo_qwriter_def stored_def demo_q_lookup)
  then show ?thesis using WriteUnknownMessage_appends [OF demo_qw_ok w] w by auto
qed

lemma ReplayQuarantine_run:
  assumes "no_faults fs" "qw_ok a w fs" "qfile w = Some h" "\<not> qclosed w" "is_dir fs (qDirectory (qoptions w))"
    and ks: "ks = filter (\<lambda>k. k < qsequence w) (sorted_list_of_set (segment_numbers fs (qDirectory (qoptions w))))"
    and "\<forall>k \<in> set ks. seg_ready contents (qDirectory (qoptions w)) fs k"
    and "ms = pending contents ks" "snap = registry_Snapshot reg"
    and "qsize w + int (length (segment_of (carried snap ms))) \<le> qRotationSize (qoptions w)"
    and "run_writes dw (replay_writes snap ms) d = (es, d')" "\<forall>x \<in> set es. x = []"
  shows "\<exists>fs'. ReplayQuarantine slack (\<lambda>_. []) dw reg w fs d = Some ([], replay_count contents snap ks zeroReplay,
      w\<lparr>qsize := qsize w + int (length (segment_of (carried snap ms)))\<rparr>, fs', d')
    \<and> replay_fs (qDirectory (qoptions w)) h ks (segment_of (carried snap ms)) fs fs'"
proof -
  let ?dir = "qDirectory (qoptions w)"
  let ?all = "sorted_list_of_set (segment_numbers fs ?dir)"
  let ?new = "filter (\<lambda>k. \<not> k < qsequence w) ?all"
  have split: "old_segments ?dir ?all = old_segments ?dir ks @ old_segments ?dir ?new"
    unfolding ks by (subst sorted_split [of ?all "qsequence w"]) simp_all
  have t: "no_faults (tick fs)" "qw_ok a w (tick fs)" "is_dir (tick fs) ?dir"
    using assms(1,2,5) by (auto simp: qw_ok_def fs_simps)
  have old: "\<forall>k \<in> set ks. k < qsequence w \<and> seg_ready contents ?dir (tick fs) k"
  proof
    fix k assume k: "k \<in> set ks"
    then have "seg_ready contents ?dir (tick fs) k" using assms(7) seg_ready_tick by blast
    then show "k < qsequence w \<and> seg_ready contents ?dir (tick fs) k" using k ks by simp
  qed
  have dist: "distinct ks" using ks by simp
  note run = replaySegments_ok [OF t(1,2) assms(3,4) t(3) dist old assms(10,11) [unfolded assms(8)] assms(12),
      of slack "old_segments ?dir ?new" zeroReplay, folded assms(8)]
  obtain fs' where rep: "replaySegments slack (\<lambda>_. []) dw snap (old_segments ?dir ks @ old_segments ?dir ?new) zeroReplay w (tick fs) d
      = replaySegments slack (\<lambda>_. []) dw snap (old_segments ?dir ?new) (replay_count contents snap ks zeroReplay)
          (w\<lparr>qsize := qsize w + int (length (segment_of (carried snap ms)))\<rparr>) fs' d'"
    and rf: "replay_fs ?dir h ks (segment_of (carried snap ms)) (tick fs) fs'"
    using run by (elim exE conjE)
  have "ReplayQuarantine slack (\<lambda>_. []) dw reg w fs d = Some ([], replay_count contents snap ks zeroReplay,
      w\<lparr>qsize := qsize w + int (length (segment_of (carried snap ms)))\<rparr>, fs', d')"
  proof -
    have "replaySegments slack (\<lambda>_. []) dw snap (old_segments ?dir ?new) (replay_count contents snap ks zeroReplay)
          (w\<lparr>qsize := qsize w + int (length (segment_of (carried snap ms)))\<rparr>) fs' d'
        = Some ([], replay_count contents snap ks zeroReplay, w\<lparr>qsize := qsize w + int (length (segment_of (carried snap ms)))\<rparr>, fs', d')"
      by (rule replaySegments_skip) auto
    with rep split show ?thesis
      unfolding ReplayQuarantine_def Let_def discoverQuarantineSegments_ok [OF assms(1,5)] assms(9) [symmetric]
      by simp
  qed
  moreover have "replay_fs ?dir h ks (segment_of (carried snap ms)) fs fs'"
    using rf by (simp add: replay_fs_def fs_simps)
  ultimately show ?thesis by (intro exI [of _ fs'] conjI)
qed



text \<open>One stray byte between two entries makes the scan give up: the four bytes there are not the
  magic number.\<close>

lemma scan_stray_byte:
  assumes "elems data = segment_of ms @ take 1 (entry_of x) @ entry_of y" "\<forall>m \<in> set ms. storable m"
  shows "scanQuarantineEntries data = Some (Inl [ErrInvalidQuarantineEntry])"
proof -
  let ?pre = "segment_of ms"
  have magic: "take 4 (entry_of m) = [0x47, 0x53, 0x4D, 0x51]" for m
    unfolding entry_of_fields by (simp add: le_bytes_eval cQuarantineMagic_def)
  have "take 1 (entry_of x) = [0x47]" using magic [of x] by (cases "entry_of x") auto
  moreover have "take 4 (0x47 # entry_of y) = 0x47 # take 3 (entry_of y)" by (simp add: numeral_eq_Suc)
  moreover have "take 3 (entry_of y) = [0x47, 0x53, 0x4D]"
    using arg_cong [OF magic [of y], of "take 3"] by (simp add: numeral_eq_Suc)
  ultimately have four: "take 4 (take 1 (entry_of x) @ entry_of y) = [0x47, 0x47, 0x53, 0x4D]" by simp
  have full: "elems data = ?pre @ take (1 + length (entry_of y)) (take 1 (entry_of x) @ entry_of y) @ []"
    and len: "length (take 1 (entry_of x) @ entry_of y) = 1 + length (entry_of y)"
    using assms(1) by simp_all
  obtain w where w: "go_slice data (int (length ?pre)) (int (length ?pre + 4)) = Some w" "elems w = [0x47, 0x47, 0x53, 0x4D]"
    using go_slice_at [OF full, of 0 4] len four by auto
  have "scan_from data (length ?pre) = Some (Inl [ErrInvalidQuarantineEntry])"
    by (subst scan_from.simps) (use w assms(1) in \<open>simp add: cQuarantineMagic_def\<close>)
  moreover have "scan_from data (length (pre @ segment_of us)) = scan_from data (length pre)"
    if "elems data = pre @ segment_of us @ rest" "\<forall>m \<in> set us. storable m" for pre us rest
    using that
  proof (induction us arbitrary: pre)
    case (Cons u us)
    then show ?case using Cons.IH [of "pre @ entry_of u"] scan_step [of data pre u "segment_of us @ rest"] by simp
  qed simp
  from this [of "[]" ms] assms have "scan_from data (length ?pre) = scan_from data 0" by simp
  ultimately show ?thesis by (simp add: scanQuarantineEntries_def)
qed

lemma OpenQuarantineWriter_rejects:
  assumes "no_faults fs" "segment_numbers fs (qDirectory opts) = {k}"
    "TrimSpace (path_string (qDirectory opts)) \<noteq> []" "qRotationSize opts \<ge> 34" "\<forall>q. prefix q (qDirectory opts) \<longrightarrow> \<not> is_file fs q"
    "scanQuarantineEntries \<lparr>elems = stored fs (qseg_path (qDirectory opts) k), spare = slack (stored fs (qseg_path (qDirectory opts) k))\<rparr>
      = Some (Inl e)" "e \<noteq> []"
  shows "\<exists>fs'. OpenQuarantineWriter slack opts fs = Some (Inl e, fs')"
proof -
  let ?dir = "qDirectory opts"
  obtain e1 fs1 where mk: "fs_MkdirAll ?dir fs = (e1, fs1)" by (cases "fs_MkdirAll ?dir fs")
  note m = MkdirAll_spec [OF mk]
  have e1: "e1 = []" using m(6) assms(1,5) by blast
  have fs1: "no_faults fs1" "is_dir fs1 ?dir" using m(3,5) e1 assms(1) by (simp_all add: no_faults_def)
  have "segment_numbers fs1 ?dir = {k}" using m(2) assms(2) by (simp add: segment_numbers_def)
  then have disc: "discoverQuarantineSegments ?dir fs1 = (Inr [\<lparr>segSequence = k, segPath = qseg_path ?dir k\<rparr>], tick fs1)"
    using discoverQuarantineSegments_ok [OF fs1] by simp
  have "k \<in> segment_numbers fs ?dir" using assms(2) by simp
  then have "is_file (tick fs1) (qseg_path ?dir k)" using m(2) by (simp add: segment_numbers_def fs_simps)
  then obtain fs2 where "readAllFile (qseg_path ?dir k) (tick fs1) = (Inr (stored fs (qseg_path ?dir k)), fs2)"
    using readAllFile_ok [of "tick fs1" "qseg_path ?dir k"] fs1(1) m(1) by (auto simp: fs_simps)
  then have "repairQuarantineTail slack (qseg_path ?dir k) (tick fs1) = Some (e, fs2)"
    using assms(6) by (simp add: repairQuarantineTail_def)
  then show ?thesis
    using assms(3,4,7) mk e1 disc by (simp add: OpenQuarantineWriter_def Let_def)
qed


definition demo_full :: fault where
  "demo_full = \<lparr>errno = 28, moved = 1\<rparr>"

abbreviation demo_qfs1 :: FS where
  "demo_qfs1 \<equiv> \<lparr>nodes = [([''q''], DirNode), (qseg_path [''q''] 1, RegFile (segment_of [demo_unknown]))], ops = 0,
     faults = (\<lambda>_. None)(0 := Some demo_full)\<rparr>"

abbreviation demo_qwriter1 :: QuarantineWriter where
  "demo_qwriter1 \<equiv> \<lparr>qoptions = demo_qopts, qfile = Some (qseg_path [''q''] 1), qsequence = 1, qsize = 0, qclosed = False\<rparr>"


text \<open>
  A rotation that closed the old segment but could not open the next one leaves the writer
  without a file and with size 0: the next message does not rotate again, and its write is a
  call on a nil interface, which panics.
\<close>

theorem WriteUnknownMessage_panics_after_failed_rotation:
  assumes "quarantine_rotate w fs = (e, w', fs')" "e \<noteq> []" "fst (closeSegment w fs) = []" "\<not> qclosed w" "storable m"
  shows "WriteUnknownMessage [] m w' fs'' = None"
proof -
  obtain w1 fs1 where c: "closeSegment w fs = ([], w1, fs1)" using assms(3) by (cases "closeSegment w fs") auto
  have w1: "w1 = w\<lparr>qfile := None\<rparr>" by (rule closeSegment_spec [OF c])
  have "openSegment (w\<lparr>qfile := None, qsequence := qsequence w + 1, qsize := 0\<rparr>) fs1 = (e, w', fs')"
    using assms(1) c w1 by (simp add: quarantine_rotate_def)
  from openSegment_spec(5) [OF this assms(2)] have "w' = w\<lparr>qfile := None, qsequence := qsequence w + 1, qsize := 0\<rparr>" by simp
  then show ?thesis using assms(4) storable_encode [OF assms(5)] by (simp add: WriteUnknownMessage_def)
qed

theorem WriteUnknownMessage_panics_witness:
  "let (e, w', fs') = quarantine_rotate demo_qwriter (demo_qfs ((\<lambda>_. None)(2 := Some demo_full)))
   in e = [ErrOS 28] \<and> WriteUnknownMessage [] demo_unknown w' fs' = None"
proof -
  let ?fs = "demo_qfs ((\<lambda>_. None)(2 := Some demo_full))"
  obtain e w' fs' where r: "quarantine_rotate demo_qwriter ?fs = (e, w', fs')" by (cases "quarantine_rotate demo_qwriter ?fs")
  have c: "closeSegment demo_qwriter ?fs = ([], demo_qwriter\<lparr>qfile := None\<rparr>, tick (tick ?fs))"
    by (simp add: closeSegment_def demo_qwriter_def file_Sync_def file_Close_def fault_now_def tick_def demo_qfs_def errors_Join_def)
  then have e: "e = [ErrOS 28]"
    using r by (simp add: quarantine_rotate_def openSegment_def fs_OpenFile_def fault_now_def tick_def demo_qfs_def demo_full_def)
  show ?thesis
    using WriteUnknownMessage_panics_after_failed_rotation [OF r, of demo_unknown fs'] r e c demo_storable
    by (simp add: demo_qwriter_def)
qed

end
