(* ===== verification/UdpServer.thy ===== *)
theory UdpServer
  imports Router
begin

text \<open>
  \<open>sensor-server/udp-server.go\<close>: one goroutine receives datagrams into pooled buffers and puts them on
  a bounded queue, several workers decode them and hand the messages to the router. The steps of
  these goroutines and of \<open>Close\<close> interleave freely; each step here is what a goroutine does
  between two points where it can be interrupted by the others.

  A pooled buffer comes with whatever an earlier datagram left in it: \<open>stale\<close>. A packet is returned to
  the pool after it has been processed, so nobody shares a buffer.
\<close>

type_synonym 'h MessageHandler = "Transport \<Rightarrow> i64 \<Rightarrow> Message \<Rightarrow> 'h \<Rightarrow> go_error list \<times> 'h"

record UDPServerOptions =
  WorkerCount :: int
  UQueueCapacity :: int

record UDPServerCounters =
  UDatagrams :: nat
  UMessages :: nat
  UMalformed :: nat
  UDropped :: nat

abbreviation (input) UdpMaxPacketSize :: nat where "UdpMaxPacketSize \<equiv> 1500"

record UdpPacket =
  Buf :: "u8 list"
  PN :: nat
  Remote :: string

text \<open>\<open>inHand\<close> is the packet \<open>Serve\<close> has received and not yet queued, \<open>working\<close> the packets the
  workers have taken.\<close>

record UDPServer =
  uoptions :: UDPServerOptions
  ucancelled :: bool
  connectionClosed :: bool
  uqueue :: "UdpPacket list"
  uqueueClosed :: bool
  inHand :: "UdpPacket option"
  serveDone :: bool
  working :: "UdpPacket list"
  datagrams :: nat
  umessages :: nat
  umalformed :: nat
  udropped :: nat
  uwarnings :: "go_error list list"

definition NewUDPServer :: "UDPServerOptions \<Rightarrow> go_error list + UDPServer" where
  "NewUDPServer opts =
     (if WorkerCount opts < 1 \<or> UQueueCapacity opts < 1
        then Inl [ErrText ''new UDP server: worker count and queue capacity must be positive'']
      else Inr \<lparr>uoptions = opts, ucancelled = False, connectionClosed = False, uqueue = [], uqueueClosed = False,
                inHand = None, serveDone = False, working = [], datagrams = 0, umessages = 0, umalformed = 0,
                udropped = 0, uwarnings = []\<rparr>)"

section \<open>Receiving\<close>

text \<open>\<open>ReadFrom\<close> fills the buffer and discards what does not fit.\<close>

definition ReadFrom :: "u8 list \<Rightarrow> u8 list \<Rightarrow> string \<Rightarrow> UdpPacket" where
  "ReadFrom stale data remote =
     (let n = min (length data) (length stale) in
      \<lparr>Buf = take n data @ drop n stale, PN = n, Remote = remote\<rparr>)"

definition udp_receive :: "u8 list \<Rightarrow> u8 list \<Rightarrow> string \<Rightarrow> UDPServer \<Rightarrow> UDPServer outcome" where
  "udp_receive stale data remote s =
     (if serveDone s \<or> inHand s \<noteq> None \<or> connectionClosed s \<or> length stale \<noteq> UdpMaxPacketSize then Blocked
      else Next (s\<lparr>inHand := Some (ReadFrom stale data remote), datagrams := datagrams s + 1\<rparr>))"

text \<open>The read fails: quietly after a close, with an error otherwise; \<open>Serve\<close> returns.\<close>

definition udp_read_error :: "go_error list \<Rightarrow> UDPServer \<Rightarrow> (go_error list \<times> UDPServer) outcome" where
  "udp_read_error e s =
     (if serveDone s \<or> inHand s \<noteq> None then Blocked
      else Next (if ucancelled s \<or> errors_Is e NetErrClosed then [] else e, s\<lparr>serveDone := True\<rparr>))"

text \<open>The \<open>select\<close>: a send on a closed channel is ready, and panics when it is taken.\<close>

datatype udp_select = SelSend | SelDone | SelDefault

definition udp_enqueue :: "udp_select \<Rightarrow> UDPServer \<Rightarrow> UDPServer outcome" where
  "udp_enqueue c s =
     (case inHand s of
        None \<Rightarrow> Blocked
      | Some p \<Rightarrow>
          if serveDone s then Blocked
          else (case c of
              SelSend \<Rightarrow>
                if uqueueClosed s then Panic
                else if int (length (uqueue s)) < UQueueCapacity (uoptions s)
                then Next (s\<lparr>inHand := None, uqueue := uqueue s @ [p]\<rparr>) else Blocked
            | SelDone \<Rightarrow> if ucancelled s then Next (s\<lparr>serveDone := True\<rparr>) else Blocked
            | SelDefault \<Rightarrow>
                if uqueueClosed s \<or> int (length (uqueue s)) < UQueueCapacity (uoptions s) \<or> ucancelled s then Blocked
                else Next (s\<lparr>inHand := None, udropped := udropped s + 1,
                             uwarnings := uwarnings s @ [[ErrText ''processing queue full'']]\<rparr>)))"

section \<open>Workers\<close>

definition udp_take :: "UDPServer \<Rightarrow> UDPServer outcome" where
  "udp_take s =
     (case uqueue s of
        [] \<Rightarrow> Blocked
      | p # ps \<Rightarrow>
          if int (length (working s)) < WorkerCount (uoptions s)
          then Next (s\<lparr>uqueue := ps, working := working s @ [p]\<rparr>) else Blocked)"

definition ignored :: "go_error list \<Rightarrow> bool" where
  "ignored e \<longleftrightarrow> e = [] \<or> errors_Is e ErrUnknownDevice \<or> errors_Is e ErrUnknownSensor"

definition udp_work :: "'h MessageHandler \<Rightarrow> nat \<Rightarrow> i64 \<Rightarrow> UDPServer \<Rightarrow> 'h \<Rightarrow> (UDPServer \<times> 'h) outcome" where
  "udp_work route k ts s h =
     (if k \<ge> length (working s) then Blocked
      else
        (let datagram = working s ! k;
             s = s\<lparr>working := take k (working s) @ drop (Suc k) (working s)\<rparr>
         in case go_slice (slice_of (Buf datagram)) 0 (int (PN datagram)) of
              None \<Rightarrow> Panic
            | Some window \<Rightarrow>
                (case DecodeDatagram window of
                   None \<Rightarrow> Panic
                 | Some (Inl err) \<Rightarrow>
                     Next (s\<lparr>umalformed := umalformed s + 1, uwarnings := uwarnings s @ [[err]]\<rparr>, h)
                 | Some (Inr message) \<Rightarrow>
                     (let (err, h) = route TransportUDP ts message h;
                          s = s\<lparr>umessages := umessages s + 1\<rparr>
                      in Next (if ignored err then s else s\<lparr>uwarnings := uwarnings s @ [err]\<rparr>, h)))))"

section \<open>Closing\<close>

definition udp_Close_cancel :: "UDPServer \<Rightarrow> UDPServer" where
  "udp_Close_cancel s = s\<lparr>ucancelled := True, connectionClosed := True\<rparr>"

definition udp_Close_queue :: "UDPServer \<Rightarrow> UDPServer outcome" where
  "udp_Close_queue s = (if \<not> ucancelled s \<or> uqueueClosed s then Blocked else Next (s\<lparr>uqueueClosed := True\<rparr>))"

definition udp_Close_result :: "go_error list \<Rightarrow> UDPServer \<Rightarrow> go_error list outcome" where
  "udp_Close_result cerr s =
     (if uqueueClosed s \<and> uqueue s = [] \<and> working s = []
      then Next (if errors_Is cerr NetErrClosed then [] else cerr) else Blocked)"

definition udp_Counters :: "UDPServer \<Rightarrow> UDPServerCounters" where
  "udp_Counters s = \<lparr>UDatagrams = datagrams s, UMessages = umessages s, UMalformed = umalformed s, UDropped = udropped s\<rparr>"

section \<open>Executions\<close>

datatype udp_event =
    UReceive "u8 list" "u8 list" string
  | UReadError "go_error list"
  | UEnqueue udp_select
  | UTake
  | UWork nat i64
  | UCancel
  | UCloseQueue

definition udp_step :: "'h MessageHandler \<Rightarrow> udp_event \<Rightarrow> UDPServer \<Rightarrow> 'h \<Rightarrow> (UDPServer \<times> 'h) outcome" where
  "udp_step route ev s h =
     (case ev of
        UReceive stale data remote \<Rightarrow> map_outcome (\<lambda>s. (s, h)) (udp_receive stale data remote s)
      | UReadError e \<Rightarrow> map_outcome (\<lambda>(e, s). (s, h)) (udp_read_error e s)
      | UEnqueue c \<Rightarrow> map_outcome (\<lambda>s. (s, h)) (udp_enqueue c s)
      | UTake \<Rightarrow> map_outcome (\<lambda>s. (s, h)) (udp_take s)
      | UWork k ts \<Rightarrow> udp_work route k ts s h
      | UCancel \<Rightarrow> Next (udp_Close_cancel s, h)
      | UCloseQueue \<Rightarrow> map_outcome (\<lambda>s. (s, h)) (udp_Close_queue s))"

inductive udp_exec :: "'h MessageHandler \<Rightarrow> UDPServer \<times> 'h \<Rightarrow> udp_event list \<Rightarrow> UDPServer \<times> 'h \<Rightarrow> bool"
  for route :: "'h MessageHandler" where
  udp_start: "udp_exec route st [] st"
| udp_next: "udp_exec route st evs (s, h) \<Longrightarrow> udp_step route ev s h = Next st' \<Longrightarrow> udp_exec route st (evs @ [ev]) st'"

section \<open>The invariant\<close>

text \<open>What the servers rely on from the handler: every call counts its message once. The router
  promises it.\<close>

locale counting_handler =
  fixes route :: "'h MessageHandler" and handled :: "'h \<Rightarrow> nat"
  assumes route_counts: "handled (snd (route t ts m h)) = handled h + 1"

definition router_handler :: "'d SensorDataWriter \<Rightarrow> 'q UnknownMessageWriter \<Rightarrow> (MessageRouter \<times> 'd \<times> 'q) MessageHandler" where
  "router_handler dw uw t ts m h = (case h of (r, d, q) \<Rightarrow>
     (case Route dw uw t ts m r d q of (e, r, d, q) \<Rightarrow> (e, (r, d, q))))"

interpretation rh: counting_handler "router_handler dw uw" "\<lambda>h. Messages (router_Counters (fst h))" for dw uw
proof
  fix t ts m and h :: "MessageRouter \<times> 'a \<times> 'b"
  obtain r d q where h: "h = (r, d, q)" by (cases h)
  obtain e r' d' q' where R: "Route dw uw t ts m r d q = (e, r', d', q')" by (cases "Route dw uw t ts m r d q")
  show "Messages (router_Counters (fst (snd (router_handler dw uw t ts m h)))) = Messages (router_Counters (fst h)) + 1"
    using Route_counted [OF R] R by (simp add: h router_handler_def router_Counters_def counted_def)
qed

definition packet_ok :: "UdpPacket \<Rightarrow> bool" where
  "packet_ok p \<longleftrightarrow> length (Buf p) = 1500 \<and> PN p \<le> 1500"

definition udp_inv :: "UDPServer \<Rightarrow> bool" where
  "udp_inv s \<longleftrightarrow>
     datagrams s = umessages s + umalformed s + udropped s + length (uqueue s) + length (working s)
       + (case inHand s of None \<Rightarrow> 0 | Some _ \<Rightarrow> 1)
   \<and> int (length (uqueue s)) \<le> UQueueCapacity (uoptions s) \<and> int (length (working s)) \<le> WorkerCount (uoptions s)
   \<and> (\<forall>p \<in> set (uqueue s) \<union> set (working s) \<union> set_option (inHand s). packet_ok p)
   \<and> (uqueueClosed s \<longrightarrow> ucancelled s)"

lemma udp_work_cases:
  assumes "udp_inv s" "k < length (working s)"
  shows "\<exists>v. DecodeDatagram \<lparr>elems = take (PN (working s ! k)) (Buf (working s ! k)), spare = drop (PN (working s ! k)) (Buf (working s ! k))\<rparr> = Some v
    \<and> udp_work route k ts s h = (let s = s\<lparr>working := take k (working s) @ drop (Suc k) (working s)\<rparr> in
        case v of
          Inl err \<Rightarrow> Next (s\<lparr>umalformed := umalformed s + 1, uwarnings := uwarnings s @ [[err]]\<rparr>, h)
        | Inr message \<Rightarrow>
            (let (err, h) = route TransportUDP ts message h; s = s\<lparr>umessages := umessages s + 1\<rparr>
             in Next (if ignored err then s else s\<lparr>uwarnings := uwarnings s @ [err]\<rparr>, h)))"
proof -
  let ?p = "working s ! k"
  have "packet_ok ?p" using assms by (auto simp: udp_inv_def)
  then have "go_slice (slice_of (Buf ?p)) 0 (int (PN ?p)) = Some \<lparr>elems = take (PN ?p) (Buf ?p), spare = drop (PN ?p) (Buf ?p)\<rparr>"
    using go_slice_prefix [of "PN ?p" "slice_of (Buf ?p)"] by (simp add: packet_ok_def)
  then show ?thesis
    using assms(2) by (auto simp: udp_work_def DecodeDatagram_eq Let_def split: sum.splits)
qed

lemma udp_work_no_panic:
  assumes "udp_inv s"
  shows "udp_work route k ts s h \<noteq> Panic"
proof (cases "k < length (working s)")
  case True
  from udp_work_cases [OF assms True, of route ts h] obtain v where
    v: "udp_work route k ts s h = (let s = s\<lparr>working := take k (working s) @ drop (Suc k) (working s)\<rparr> in
        case v of
          Inl err \<Rightarrow> Next (s\<lparr>umalformed := umalformed s + 1, uwarnings := uwarnings s @ [[err]]\<rparr>, h)
        | Inr message \<Rightarrow>
            (let (err, h) = route TransportUDP ts message h; s = s\<lparr>umessages := umessages s + 1\<rparr>
             in Next (if ignored err then s else s\<lparr>uwarnings := uwarnings s @ [err]\<rparr>, h)))"
    by blast
  show ?thesis unfolding v by (cases v) (simp_all add: Let_def split_beta)
qed (simp add: udp_work_def)

lemma remove_nth:
  assumes "k < length xs"
  shows "length (take k xs @ drop (Suc k) xs) = length xs - 1" "set (take k xs @ drop (Suc k) xs) \<subseteq> set xs"
  using assms by (auto dest: in_set_takeD in_set_dropD)

lemma udp_work_inv:
  assumes "udp_inv s" "udp_work route k ts s h = Next (s', h')"
  shows "udp_inv s'" "uoptions s' = uoptions s"
    "(umessages s' = umessages s \<and> h' = h) \<or> (\<exists>m. umessages s' = umessages s + 1 \<and> h' = snd (route TransportUDP ts m h))"
proof -
  have k: "k < length (working s)" using assms(2) by (auto simp: udp_work_def split: if_splits)
  obtain v where v: "udp_work route k ts s h = (let s = s\<lparr>working := take k (working s) @ drop (Suc k) (working s)\<rparr> in
        case v of
          Inl err \<Rightarrow> Next (s\<lparr>umalformed := umalformed s + 1, uwarnings := uwarnings s @ [[err]]\<rparr>, h)
        | Inr message \<Rightarrow>
            (let (err, h) = route TransportUDP ts message h; s = s\<lparr>umessages := umessages s + 1\<rparr>
             in Next (if ignored err then s else s\<lparr>uwarnings := uwarnings s @ [err]\<rparr>, h)))"
    using udp_work_cases [OF assms(1) k, of route ts h] by blast
  have out: "working s' = take k (working s) @ drop (Suc k) (working s)" "uqueue s' = uqueue s" "inHand s' = inHand s"
    "datagrams s' = datagrams s" "udropped s' = udropped s" "uoptions s' = uoptions s" "uqueueClosed s' = uqueueClosed s"
    "ucancelled s' = ucancelled s"
    "(umessages s' = umessages s \<and> umalformed s' = umalformed s + 1 \<and> h' = h)
      \<or> (\<exists>m. umessages s' = umessages s + 1 \<and> umalformed s' = umalformed s \<and> h' = snd (route TransportUDP ts m h))"
    using assms(2) unfolding v by (cases v; auto simp: Let_def split_beta split: if_splits)+
  show "uoptions s' = uoptions s" by (rule out)
  show "(umessages s' = umessages s \<and> h' = h) \<or> (\<exists>m. umessages s' = umessages s + 1 \<and> h' = snd (route TransportUDP ts m h))"
    using out(9) by blast
  have "length (working s') + 1 = length (working s)" using remove_nth(1) [OF k] out(1) k by simp
  moreover have "set (working s') \<subseteq> set (working s)" using remove_nth(2) [OF k] out(1) by simp
  ultimately show "udp_inv s'"
    using assms(1) out unfolding udp_inv_def by auto
qed

lemma udp_step_inv:
  assumes "udp_inv s" "udp_step route ev s h = Next (s', h')"
  shows "udp_inv s' \<and> uoptions s' = uoptions s \<and> ((umessages s' = umessages s \<and> h' = h)
    \<or> (\<exists>t ts m. umessages s' = umessages s + 1 \<and> h' = snd (route t ts m h)))"
proof (cases ev)
  case (UReceive stale data remote)
  then have "s' = s\<lparr>inHand := Some (ReadFrom stale data remote), datagrams := datagrams s + 1\<rparr>" "h' = h" "inHand s = None" "length stale = 1500"
    using assms(2) by (auto simp: udp_step_def udp_receive_def split: if_splits)
  then show ?thesis using assms(1) by (auto simp: udp_inv_def packet_ok_def ReadFrom_def Let_def)
next
  case (UReadError e)
  then have "s' = s\<lparr>serveDone := True\<rparr>" "h' = h"
    using assms(2) by (auto simp: udp_step_def udp_read_error_def split: if_splits)
  then show ?thesis using assms(1) by (simp add: udp_inv_def)
next
  case (UEnqueue c)
  then have "\<exists>p. inHand s = Some p \<and> h' = h \<and> (s' = s\<lparr>serveDone := True\<rparr>
      \<or> (s' = s\<lparr>inHand := None, uqueue := uqueue s @ [p]\<rparr> \<and> int (length (uqueue s)) < UQueueCapacity (uoptions s))
      \<or> s' = s\<lparr>inHand := None, udropped := udropped s + 1, uwarnings := uwarnings s @ [[ErrText ''processing queue full'']]\<rparr>)"
    using assms(2) by (cases c) (auto simp: udp_step_def udp_enqueue_def split: option.splits if_splits)
  then show ?thesis using assms(1) unfolding udp_inv_def by auto
next
  case UTake
  then obtain p ps where "uqueue s = p # ps" "int (length (working s)) < WorkerCount (uoptions s)" "h' = h"
    "s' = s\<lparr>uqueue := ps, working := working s @ [p]\<rparr>"
    using assms(2) by (auto simp: udp_step_def udp_take_def split: list.splits if_splits)
  then show ?thesis using assms(1) unfolding udp_inv_def by auto
next
  case (UWork k ts)
  then show ?thesis using assms(2) udp_work_inv [OF assms(1), of route k ts h s' h'] by (auto simp: udp_step_def)
next
  case UCancel
  then show ?thesis using assms by (auto simp: udp_step_def udp_Close_cancel_def udp_inv_def)
next
  case UCloseQueue
  then have "s' = s\<lparr>uqueueClosed := True\<rparr>" "h' = h" "ucancelled s"
    using assms(2) by (auto simp: udp_step_def udp_Close_queue_def split: if_splits)
  then show ?thesis using assms(1) by (auto simp: udp_inv_def)
qed

context counting_handler
begin

lemma udp_exec_inv:
  assumes "udp_exec route st evs st'" "udp_inv (fst st)"
  shows "udp_inv (fst st') \<and> uoptions (fst st') = uoptions (fst st)
    \<and> handled (snd st') + umessages (fst st) = handled (snd st) + umessages (fst st')"
  using assms
proof induction
  case (udp_start st)
  then show ?case by simp
next
  case (udp_next st evs s h ev st')
  obtain s' h' where st': "st' = (s', h')" by (cases st')
  have "udp_inv s" using udp_next.IH udp_next.prems by simp
  from udp_step_inv [OF this, of route ev h s' h'] udp_next.hyps(2) st' route_counts udp_next.IH udp_next.prems show ?case
    by auto
qed

end

lemma NewUDPServer_inv: "NewUDPServer opts = Inr s \<Longrightarrow> udp_inv s \<and> uoptions s = opts \<and> umessages s = 0"
  by (auto simp: NewUDPServer_def udp_inv_def split: if_splits)

section \<open>Properties of the UDP server\<close>


definition demo_uopts :: UDPServerOptions where
  "demo_uopts = \<lparr>WorkerCount = 1, UQueueCapacity = 1\<rparr>"

definition demo_udp :: UDPServer where
  "demo_udp = \<lparr>uoptions = demo_uopts, ucancelled = False, connectionClosed = False, uqueue = [], uqueueClosed = False,
     inHand = None, serveDone = False, working = [], datagrams = 0, umessages = 0, umalformed = 0, udropped = 0, uwarnings = []\<rparr>"

lemma demo_udp_new: "NewUDPServer demo_uopts = Inr demo_udp"
  by (simp add: NewUDPServer_def demo_uopts_def demo_udp_def)

abbreviation demo_packet :: UdpPacket where
  "demo_packet \<equiv> ReadFrom (replicate 1500 0) [1, 2] ''remote''"

lemma demo_udp_exec:
  "udp_exec route (demo_udp, h) [UReceive (replicate 1500 0) [1, 2] ''remote'', UCancel, UCloseQueue]
     (demo_udp\<lparr>inHand := Some demo_packet, datagrams := 1, ucancelled := True, connectionClosed := True, uqueueClosed := True\<rparr>, h)"
proof -
  have "udp_exec route (demo_udp, h) [UReceive (replicate 1500 0) [1, 2] ''remote'']
      (demo_udp\<lparr>inHand := Some demo_packet, datagrams := 1\<rparr>, h)"
    using udp_next [OF udp_start, of route "UReceive (replicate 1500 0) [1, 2] ''remote''" demo_udp h]
    by (simp add: udp_step_def udp_receive_def demo_udp_def)
  from udp_next [OF this, of UCancel]
  have "udp_exec route (demo_udp, h) [UReceive (replicate 1500 0) [1, 2] ''remote'', UCancel]
      (demo_udp\<lparr>inHand := Some demo_packet, datagrams := 1, ucancelled := True, connectionClosed := True\<rparr>, h)"
    by (simp add: udp_step_def udp_Close_cancel_def)
  from udp_next [OF this, of UCloseQueue] show ?thesis by (simp add: udp_step_def udp_Close_queue_def demo_udp_def)
qed


text \<open>
  C28. A datagram is understood exactly when it fits the 1500-byte buffers: an encoded message of up to
  1500 bytes is decoded unchanged, whatever the buffer held before; a longer one is cut by
  \<open>ReadFrom\<close> and rejected with \<open>ErrDatagramSize\<close>, although the protocol allows payloads of 8 KiB.
\<close>

theorem UDP_datagram_limit:
  assumes "EncodeMessage t mac payload = Some (Inr bytes)" "length stale = 1500"
  shows "\<exists>window. go_slice (slice_of (Buf (ReadFrom stale bytes remote))) 0 (int (PN (ReadFrom stale bytes remote))) = Some window
    \<and> DecodeDatagram window = Some (if length bytes \<le> UdpMaxPacketSize then Inr (canonical_message mac payload)
        else Inl ErrDatagramSize)"
proof -
  let ?p = "ReadFrom stale bytes remote"
  have enc: "length payload \<le> MaximumPayloadSize" "length payload mod 4 = 0" "bytes = headerBytesOf MessageTypeSensorData mac payload @ payload"
    using assms(1) by (auto simp: EncodeMessage_eq split: if_splits)
  have w: "go_slice (slice_of (Buf ?p)) 0 (int (PN ?p)) = Some \<lparr>elems = take 1500 bytes, spare = drop (PN ?p) (Buf ?p)\<rparr>"
    using go_slice_prefix [of "PN ?p" "slice_of (Buf ?p)"] assms(2) by (simp add: ReadFrom_def Let_def min_def)
  have "datagram_verdict (take 1500 bytes) = (if length bytes \<le> 1500 then Inr (canonical_message mac payload) else Inl ErrDatagramSize)"
  proof (cases "length bytes \<le> 1500")
    case True
    then show ?thesis using datagram_verdict_encoded [OF enc(1,2)] enc(3) by simp
  next
    case False
    then have "length payload > 1484" using enc(3) by simp
    moreover have "header_at (headerBytesOf MessageTypeSensorData mac payload) = Header (canonical_message mac payload)"
      by (simp add: headerBytesOf_def header_at_fields canonical_message_def)
    ultimately show ?thesis
      using False enc(1,3) unat_length16 [OF enc(1)] by (simp add: datagram_verdict_def Let_def canonical_message_def)
  qed
  then show ?thesis using w by (simp add: DecodeDatagram_eq)
qed

theorem UDP_datagram_limit_witness:
  "\<exists>bytes window. EncodeMessage MessageTypeSensorData zeroMAC (replicate 1488 0) = Some (Inr bytes)
    \<and> go_slice (slice_of (Buf (ReadFrom (replicate 1500 7) bytes ''r''))) 0 (int (PN (ReadFrom (replicate 1500 7) bytes ''r''))) = Some window
    \<and> DecodeDatagram window = Some (Inl ErrDatagramSize)"
proof -
  obtain bytes where b: "EncodeMessage MessageTypeSensorData zeroMAC (replicate 1488 0) = Some (Inr bytes)" "length bytes = 1504"
    by (simp add: EncodeMessage_eq MaximumPayloadSize_def)
  then show ?thesis using UDP_datagram_limit [OF b(1), of "replicate 1500 7" "''r''"] by auto
qed


end
