(* ===== verification/SampleRing.thy ===== *)
theory SampleRing
  imports Prelude
begin

text \<open>
  \<open>plugins/http/sample-ring.go\<close>: the ring buffer that keeps the most recent samples of a sensor.
  \<^term>\<open>None\<close> is the panic of an index out of range, which a ring of capacity 0 would raise.
  The locale \<open>sample_history\<close> is what the monitoring state relies on: a bounded history that forgets
  its oldest samples. The ring implements it.
\<close>

record Sample =
  sTimestamp :: i64
  sValue :: i32

record sampleRing =
  samples :: "Sample list"
  rnext :: int
  rcount :: int

definition newSampleRing :: "nat \<Rightarrow> sampleRing" where
  "newSampleRing capacity =
     \<lparr>samples = replicate capacity \<lparr>sTimestamp = 0, sValue = 0\<rparr>, rnext = 0, rcount = 0\<rparr>"

definition ring_Append :: "Sample \<Rightarrow> sampleRing \<Rightarrow> sampleRing option" where
  "ring_Append sample ring =
     (if rnext ring < 0 \<or> rnext ring \<ge> int (length (samples ring)) then None
      else Some \<lparr>samples = (samples ring)[nat (rnext ring) := sample],
                 rnext = (rnext ring + 1) mod int (length (samples ring)),
                 rcount = (if rcount ring < int (length (samples ring)) then rcount ring + 1 else rcount ring)\<rparr>)"

definition ring_Snapshot :: "sampleRing \<Rightarrow> Sample list" where
  "ring_Snapshot ring =
     (let start = rnext ring - rcount ring;
          start = (if start < 0 then start + int (length (samples ring)) else start)
      in map (\<lambda>index. samples ring ! nat ((start + int index) mod int (length (samples ring)))) [0..<nat (rcount ring)])"

section \<open>A history of bounded length\<close>

text \<open>The last \<open>n\<close> elements of a list.\<close>

definition lastn :: "nat \<Rightarrow> 'a list \<Rightarrow> 'a list" where
  "lastn n xs = drop (length xs - n) xs"

lemma lastn_Nil [simp]: "lastn n [] = []"
  by (simp add: lastn_def)

lemma length_lastn: "length (lastn n xs) = min n (length xs)"
  by (auto simp: lastn_def)

lemma lastn_snoc_lastn: "lastn n (lastn n xs @ [x]) = lastn n (xs @ [x])"
  by (cases "length xs < n") (auto simp: lastn_def Suc_diff_le not_less)

locale sample_history =
  fixes capacity :: nat
    and new_history :: 'r
    and append_sample :: "Sample \<Rightarrow> 'r \<Rightarrow> 'r option"
    and contents :: "'r \<Rightarrow> Sample list"
    and ok :: "'r \<Rightarrow> bool"
  assumes new_ok: "ok new_history"
    and new_contents: "contents new_history = []"
    and append_ok: "ok r \<Longrightarrow> \<exists>r'. append_sample x r = Some r' \<and> ok r' \<and> contents r' = lastn capacity (contents r @ [x])"
begin

text \<open>Any number of samples, from a new history on.\<close>

primrec append_all :: "Sample list \<Rightarrow> 'r \<Rightarrow> 'r option" where
  "append_all [] r = Some r"
| "append_all (x # xs) r = (case append_sample x r of None \<Rightarrow> None | Some r' \<Rightarrow> append_all xs r')"

lemma append_all_contents:
  assumes "ok r" "contents r = lastn capacity ys"
  shows "\<exists>r'. append_all xs r = Some r' \<and> ok r' \<and> contents r' = lastn capacity (ys @ xs)"
  using assms
proof (induction xs arbitrary: r ys)
  case (Cons x xs)
  obtain r1 where r1: "append_sample x r = Some r1" "ok r1" "contents r1 = lastn capacity (contents r @ [x])"
    using append_ok [OF Cons.prems(1)] by blast
  then have "contents r1 = lastn capacity (ys @ [x])" using Cons.prems(2) by (simp add: lastn_snoc_lastn)
  from Cons.IH [OF r1(2) this] r1(1) show ?case by simp
qed simp

lemma append_all_new:
  "\<exists>r'. append_all xs new_history = Some r' \<and> contents r' = lastn capacity xs"
  using append_all_contents [OF new_ok, of "[]" xs] new_contents by auto

end

section \<open>The ring implements it\<close>

definition ring_ok :: "nat \<Rightarrow> sampleRing \<Rightarrow> bool" where
  "ring_ok cap r \<longleftrightarrow> length (samples r) = cap \<and> 0 < cap \<and> 0 \<le> rnext r \<and> rnext r < int cap
     \<and> 0 \<le> rcount r \<and> rcount r \<le> int cap \<and> (rcount r < int cap \<longrightarrow> rnext r = rcount r)"

lemma ring_Snapshot_part:
  assumes "ring_ok cap r" "rcount r < int cap"
  shows "ring_Snapshot r = take (nat (rcount r)) (samples r)"
proof (rule nth_equalityI)
  show "length (ring_Snapshot r) = length (take (nat (rcount r)) (samples r))"
    using assms by (auto simp: ring_Snapshot_def ring_ok_def)
  fix i assume "i < length (ring_Snapshot r)"
  then have "int i < rcount r" by (simp add: ring_Snapshot_def Let_def)
  then show "ring_Snapshot r ! i = take (nat (rcount r)) (samples r) ! i"
    using assms by (simp add: ring_Snapshot_def ring_ok_def nat_mod_distrib)
qed

lemma ring_Snapshot_full:
  assumes "ring_ok cap r" "rcount r = int cap" "i < cap"
  shows "length (ring_Snapshot r) = cap" "ring_Snapshot r ! i = samples r ! ((nat (rnext r) + i) mod cap)"
  using assms by (auto simp: ring_Snapshot_def ring_ok_def nat_mod_distrib nat_add_distrib)

lemma ring_Append_eq:
  assumes "ring_ok cap r"
  shows "ring_Append x r = Some \<lparr>samples = (samples r)[nat (rnext r) := x], rnext = (rnext r + 1) mod int cap,
    rcount = (if rcount r < int cap then rcount r + 1 else rcount r)\<rparr>"
  using assms by (auto simp: ring_Append_def ring_ok_def)

lemma ring_Append_ok:
  assumes "ring_ok cap r" "ring_Append x r = Some r'"
  shows "ring_ok cap r'"
proof -
  have r: "length (samples r) = cap" "0 < cap" "0 \<le> rnext r" "rnext r < int cap" "0 \<le> rcount r" "rcount r \<le> int cap"
    "rcount r < int cap \<longrightarrow> rnext r = rcount r" using assms(1) by (auto simp: ring_ok_def)
  have r': "samples r' = (samples r)[nat (rnext r) := x]" "rnext r' = (rnext r + 1) mod int cap"
    "rcount r' = (if rcount r < int cap then rcount r + 1 else rcount r)"
    using assms ring_Append_eq [OF assms(1), of x] by auto
  have "rcount r' < int cap \<longrightarrow> rnext r' = rcount r'"
    using r r'(2,3) by auto
  then show ?thesis using r r' by (auto simp: ring_ok_def)
qed

lemma ring_Append_Snapshot:
  assumes "ring_ok cap r" "ring_Append x r = Some r'"
  shows "ring_Snapshot r' = lastn cap (ring_Snapshot r @ [x])"
proof -
  have r: "length (samples r) = cap" "0 < cap" "0 \<le> rnext r" "rnext r < int cap" "0 \<le> rcount r" "rcount r \<le> int cap"
    "rcount r < int cap \<longrightarrow> rnext r = rcount r" using assms(1) by (auto simp: ring_ok_def)
  have r': "samples r' = (samples r)[nat (rnext r) := x]" "rnext r' = (rnext r + 1) mod int cap"
    "rcount r' = (if rcount r < int cap then rcount r + 1 else rcount r)"
    using assms ring_Append_eq [OF assms(1), of x] by auto
  note ok' = ring_Append_ok [OF assms]
  show ?thesis
  proof (cases "rcount r < int cap")
    case True
    define c where "c = nat (rcount r)"
    have c: "c < cap" "nat (rnext r) = c" using True r by (auto simp: c_def)
    have old: "ring_Snapshot r = take c (samples r)" using ring_Snapshot_part [OF assms(1) True] by (simp add: c_def)
    have keep: "lastn cap (ring_Snapshot r @ [x]) = take c (samples r) @ [x]"
      using old c r(1) by (simp add: lastn_def)
    have upd: "take (Suc c) (samples r') = take c (samples r) @ [x]"
      using c r(1) r'(1) by (simp add: take_Suc_conv_app_nth)
    have "ring_Snapshot r' = take (Suc c) (samples r')"
    proof (cases "rcount r' < int cap")
      case True
      then show ?thesis using ring_Snapshot_part [OF ok' True] r'(3) \<open>rcount r < int cap\<close> r(5) by (simp add: c_def nat_add_distrib)
    next
      case False
      then have full: "rcount r' = int cap" "Suc c = cap" using r'(3) \<open>rcount r < int cap\<close> r(5) by (auto simp: c_def)
      have "rcount r + 1 = int cap" using full(2) r(5) by (simp add: c_def)
      then have "rnext r' = 0" using r'(2) r(7) \<open>rcount r < int cap\<close> by simp
      then show ?thesis
        using ring_Snapshot_full(1) [OF ok' full(1), of 0] ring_Snapshot_full(2) [OF ok' full(1)] full(2) r(1,2) r'(1)
        by (intro nth_equalityI) simp_all
    qed
    then show ?thesis using keep upd by simp
  next
    case False
    then have full: "rcount r = int cap" "rcount r' = int cap" using r(6) r'(3) by auto
    define k where "k = nat (rnext r)"
    have k: "k < cap" "nat (rnext r') = Suc k mod cap" using r r'(2) by (auto simp: k_def nat_mod_distrib nat_add_distrib)
    have len: "length (ring_Snapshot r) = cap" using ring_Snapshot_full(1) [OF assms(1) full(1) r(2)] .
    show ?thesis
    proof (rule nth_equalityI)
      show "length (ring_Snapshot r') = length (lastn cap (ring_Snapshot r @ [x]))"
        using ring_Snapshot_full(1) [OF ok' full(2) r(2)] len by (simp add: length_lastn)
      fix i assume "i < length (ring_Snapshot r')"
      then have i: "i < cap" using ring_Snapshot_full(1) [OF ok' full(2) r(2)] by simp
      have new: "ring_Snapshot r' ! i = (samples r)[k := x] ! ((Suc k + i) mod cap)"
        using ring_Snapshot_full(2) [OF ok' full(2) i] k(2) r'(1) by (simp add: k_def mod_add_left_eq)
      have spec: "lastn cap (ring_Snapshot r @ [x]) ! i = (ring_Snapshot r @ [x]) ! Suc i"
        unfolding lastn_def using len i by (simp add: nth_append)
      show "ring_Snapshot r' ! i = lastn cap (ring_Snapshot r @ [x]) ! i"
      proof (cases "Suc i < cap")
        case True
        have "(Suc k + i) mod cap \<noteq> k" using k(1) True by (simp add: mod_if) arith
        then show ?thesis
          using new spec True len ring_Snapshot_full(2) [OF assms(1) full(1) True] by (simp add: nth_append k_def)
      next
        case False
        then have "Suc i = cap" using i by simp
        then have "(Suc k + i) mod cap = k" using k(1) by (metis add_Suc add_Suc_right mod_add_self2 mod_less)
        then show ?thesis using new spec \<open>Suc i = cap\<close> len k(1) r(1) by (simp add: nth_append)
      qed
    qed
  qed
qed

interpretation ring: sample_history "Suc n" "newSampleRing (Suc n)" ring_Append ring_Snapshot "ring_ok (Suc n)" for n
proof unfold_locales
  show "ring_ok (Suc n) (newSampleRing (Suc n))" by (simp add: ring_ok_def newSampleRing_def)
  show "ring_Snapshot (newSampleRing (Suc n)) = []" by (simp add: ring_Snapshot_def newSampleRing_def)
  fix r x assume "ring_ok (Suc n) r"
  then show "\<exists>r'. ring_Append x r = Some r' \<and> ring_ok (Suc n) r' \<and> ring_Snapshot r' = lastn (Suc n) (ring_Snapshot r @ [x])"
    using ring_Append_eq ring_Append_ok ring_Append_Snapshot by blast
qed

end
