(* ===== verification/Monitoring.thy ===== *)
theory Monitoring
  imports Router SampleRing
begin

text \<open>
  \<open>plugins/http/config.go\<close>, \<open>events.go\<close> and \<open>monitor-state.go\<close>: the state the HTTP plugin shows. It
  hears of every reading, connection and disconnection through callbacks and keeps, per device
  and sensor, the latest value, a warning and a bounded history; changes are published to
  subscribers.

  Go maps are association lists without duplicate keys; every list built from one is sorted, as in
  the code. A subscriber's channel is the list of its waiting events. The JSON encoding of an
  event is left out: the data of an event is the value that is encoded.
\<close>

section \<open>Configuration\<close>

abbreviation (input) DefaultHistoryCapacity :: int where "DefaultHistoryCapacity \<equiv> 1000"

record HttpConfig =
  hEnabled :: bool
  hAddress :: string
  hHistoryCapacity :: int

definition http_Validate :: "HttpConfig \<Rightarrow> go_error list" where
  "http_Validate config =
     (if SplitHostPort (hAddress config) = None then [ErrText ''HTTP plugin address'']
      else if hHistoryCapacity config < 1 \<or> hHistoryCapacity config > 100000
        then [ErrText ''HTTP plugin history_capacity must be between 1 and 100000'']
      else [])"

definition http_ensureJSONEnd :: "json_rest \<Rightarrow> go_error list" where
  "http_ensureJSONEnd r =
     (case r of
        RestEOF \<Rightarrow> []
      | RestValue \<Rightarrow> [ErrText ''decode HTTP plugin config: multiple JSON values'']
      | RestError e \<Rightarrow> e)"

definition http_LoadConfig :: "(go_error list + HttpConfig) option \<Rightarrow> json_rest \<Rightarrow> go_error list + HttpConfig" where
  "http_LoadConfig decoded rest =
     (case decoded of
        None \<Rightarrow> Inl [ErrText ''load HTTP plugin config: nil reader'']
      | Some (Inl e) \<Rightarrow> Inl e
      | Some (Inr config) \<Rightarrow>
          (let e = http_ensureJSONEnd rest in
           if e \<noteq> [] then Inl e
           else
             (let config = config\<lparr>hAddress := (if hAddress config = [] then '':8080'' else hAddress config)\<rparr>;
                  config = config\<lparr>hHistoryCapacity := (if hHistoryCapacity config = 0 then DefaultHistoryCapacity
                                                       else hHistoryCapacity config)\<rparr>;
                  e = http_Validate config
              in if e \<noteq> [] then Inl e else Inr config)))"

section \<open>Events\<close>

record SensorObservationEvent =
  soMAC :: string
  soFloor :: string
  soRoom :: string
  soTransport :: string
  soSensorType :: string
  soUnit :: string
  soSample :: Sample
  soWarning :: string

record DeviceConnectionEvent =
  dcoMAC :: string
  dcoConnectionID :: u64
  dcoConnected :: bool

datatype event_data = ObservationData SensorObservationEvent | ConnectionData DeviceConnectionEvent

record Event =
  evName :: string
  evData :: event_data

abbreviation (input) eventQueueCapacity :: nat where "eventQueueCapacity \<equiv> 32"

record eventHub =
  nextID :: u64
  subscribers :: "(u64 \<times> Event list) list"

definition newEventHub :: eventHub where
  "newEventHub = \<lparr>nextID = 0, subscribers = []\<rparr>"

definition hub_Subscribe :: "eventHub \<Rightarrow> u64 \<times> eventHub" where
  "hub_Subscribe hub =
     (let n = nextID hub + 1 in (n, \<lparr>nextID = n, subscribers = AList.update n [] (subscribers hub)\<rparr>))"

definition hub_Unsubscribe :: "u64 \<Rightarrow> eventHub \<Rightarrow> eventHub" where
  "hub_Unsubscribe n hub = hub\<lparr>subscribers := AList.delete n (subscribers hub)\<rparr>"

text \<open>The \<open>select\<close> with \<open>default\<close>: a full channel loses the event, and nobody waits.\<close>

definition hub_Publish :: "string \<Rightarrow> event_data \<Rightarrow> eventHub \<Rightarrow> eventHub" where
  "hub_Publish name value hub =
     hub\<lparr>subscribers := map (\<lambda>(n, events).
       (n, if length events < eventQueueCapacity then events @ [\<lparr>evName = name, evData = value\<rparr>] else events)) (subscribers hub)\<rparr>"

section \<open>State\<close>

record sensorState =
  definition_of :: SensorDefinition
  seen :: bool
  latest :: Sample
  warning :: string
  history :: sampleRing

record deviceState =
  dsMAC :: MACAddress
  dsFloor :: string
  dsRoom :: string
  dsTransport :: Transport
  connectionID :: u64
  connected :: bool
  lastSeenAt :: i64
  sensors :: "(SensorType \<times> sensorState) list"

record MonitoringState =
  historyCapacity :: int
  devices :: "(MACAddress \<times> deviceState) list"
  events :: eventHub

definition NewMonitoringState :: "HttpConfig \<Rightarrow> go_error list + MonitoringState" where
  "NewMonitoringState config =
     (let e = http_Validate config in
      if e \<noteq> [] then Inl e
      else Inr \<lparr>historyCapacity = hHistoryCapacity config, devices = [], events = newEventHub\<rparr>)"

text \<open>\<open>%d\<close> for a signed number.\<close>

definition int_decimal :: "int \<Rightarrow> string" where
  "int_decimal v = (if v < 0 then CHR ''-'' # decimal (nat (- v)) else decimal (nat v))"

definition transportName :: "Transport \<Rightarrow> string" where
  "transportName t = (if t = TransportTCP then ''tcp'' else if t = TransportUDP then ''udp'' else ''unknown'')"

definition thresholdWarning :: "SensorType \<Rightarrow> i32 \<Rightarrow> string" where
  "thresholdWarning sensorType v =
     (case map_of SensorTypeValueRanges sensorType of
        None \<Rightarrow> []
      | Some threshold \<Rightarrow>
          if sint v < RangeMin threshold
          then SensorType_String sensorType @ '' value '' @ int_decimal (sint v) @ '' is below minimum '' @ int_decimal (RangeMin threshold)
          else if sint v > RangeMax threshold
          then SensorType_String sensorType @ '' value '' @ int_decimal (sint v) @ '' is above maximum '' @ int_decimal (RangeMax threshold)
          else [])"

text \<open>\<open>device\<close>: the entry of a device, made when there is none; the callers store it back.\<close>

definition state_device :: "MACAddress \<Rightarrow> string \<Rightarrow> string \<Rightarrow> MonitoringState \<Rightarrow> deviceState" where
  "state_device mac floor room state =
     (let device = (case map_of (devices state) mac of
            None \<Rightarrow> \<lparr>dsMAC = mac, dsFloor = [], dsRoom = [], dsTransport = TransportUnknown, connectionID = 0,
                     connected = False, lastSeenAt = 0, sensors = []\<rparr>
          | Some device \<Rightarrow> device);
          device = (if floor \<noteq> [] then device\<lparr>dsFloor := floor\<rparr> else device)
      in if room \<noteq> [] then device\<lparr>dsRoom := room\<rparr> else device)"

definition put_device :: "MACAddress \<Rightarrow> deviceState \<Rightarrow> MonitoringState \<Rightarrow> MonitoringState" where
  "put_device mac device state = state\<lparr>devices := AList.update mac device (devices state)\<rparr>"

definition publish :: "string \<Rightarrow> event_data \<Rightarrow> MonitoringState \<Rightarrow> MonitoringState" where
  "publish name value state = state\<lparr>events := hub_Publish name value (events state)\<rparr>"

definition OnSensorObservation :: "SensorObservation \<Rightarrow> MonitoringState \<Rightarrow> MonitoringState option" where
  "OnSensorObservation ob state =
     (let device = state_device (oMAC ob) (FloorType_String (oFloor ob)) (RoomType_String (oRoom ob)) state;
          device = device\<lparr>dsTransport := oTransport ob, lastSeenAt := oTimestamp ob\<rparr>;
          sensor = (case map_of (sensors device) (oSensorType ob) of
              None \<Rightarrow> \<lparr>definition_of = \<lparr>sdType = oSensorType ob, sdUnit = oUnitType ob\<rparr>, seen = False,
                       latest = \<lparr>sTimestamp = 0, sValue = 0\<rparr>, warning = [],
                       history = newSampleRing (nat (historyCapacity state))\<rparr>
            | Some sensor \<Rightarrow> sensor);
          current = \<lparr>sTimestamp = oTimestamp ob, sValue = oValue ob\<rparr>
      in case ring_Append current (history sensor) of
           None \<Rightarrow> None
         | Some ring \<Rightarrow>
             (let sensor = sensor\<lparr>seen := True, latest := current, history := ring,
                                  warning := thresholdWarning (oSensorType ob) (oValue ob)\<rparr>;
                  device = device\<lparr>sensors := AList.update (oSensorType ob) sensor (sensors device)\<rparr>;
                  event = \<lparr>soMAC = formatMAC (oMAC ob), soFloor = FloorType_String (oFloor ob),
                           soRoom = RoomType_String (oRoom ob), soTransport = transportName (oTransport ob),
                           soSensorType = SensorType_String (oSensorType ob), soUnit = UnitType_String (oUnitType ob),
                           soSample = current, soWarning = warning sensor\<rparr>
              in Some (publish ''sensor_observation'' (ObservationData event) (put_device (oMAC ob) device state))))"

definition OnDeviceConnected :: "u64 \<Rightarrow> MACAddress \<Rightarrow> MonitoringState \<Rightarrow> MonitoringState" where
  "OnDeviceConnected n mac state =
     (let device = state_device mac [] [] state;
          changed = (\<not> connected device);
          state = put_device mac (device\<lparr>connectionID := n, connected := True, dsTransport := TransportTCP\<rparr>) state
      in if changed
         then publish ''device_connected'' (ConnectionData \<lparr>dcoMAC = formatMAC mac, dcoConnectionID = n, dcoConnected = True\<rparr>) state
         else state)"

definition OnDeviceDisconnected :: "u64 \<Rightarrow> MACAddress \<Rightarrow> MonitoringState \<Rightarrow> MonitoringState" where
  "OnDeviceDisconnected n mac state =
     (case map_of (devices state) mac of
        None \<Rightarrow> state
      | Some device \<Rightarrow>
          if connected device \<and> connectionID device = n
          then publish ''device_disconnected''
                 (ConnectionData \<lparr>dcoMAC = formatMAC mac, dcoConnectionID = n, dcoConnected = False\<rparr>)
                 (put_device mac (device\<lparr>connected := False, connectionID := 0\<rparr>) state)
          else state)"

definition state_Subscribe :: "MonitoringState \<Rightarrow> u64 \<times> MonitoringState" where
  "state_Subscribe state = (let (n, hub) = hub_Subscribe (events state) in (n, state\<lparr>events := hub\<rparr>))"

definition Readings :: "MACAddress \<Rightarrow> SensorType \<Rightarrow> MonitoringState \<Rightarrow> Sample list option" where
  "Readings mac sensorID state =
     (case map_of (devices state) mac of
        None \<Rightarrow> None
      | Some device \<Rightarrow>
          (case map_of (sensors device) sensorID of
             None \<Rightarrow> None
           | Some sensor \<Rightarrow> Some (ring_Snapshot (history sensor))))"

section \<open>Reports\<close>

record SensorSnapshot =
  ssID :: u16
  ssType :: string
  ssUnit :: string
  ssSeen :: bool
  ssCurrent :: "Sample option"
  ssWarning :: string
  ssSampleCount :: int

record DeviceSnapshot =
  snMAC :: string
  snFloor :: string
  snRoom :: string
  snTransport :: string
  snConnected :: bool
  snLastSeenAt :: i64
  snObservedSensors :: nat
  snWarnings :: "string list"
  snSensors :: "SensorSnapshot list"

record RoomSnapshot =
  rsName :: string
  rsDeviceCount :: nat
  rsConnectedDevices :: nat
  rsWarningCount :: nat

definition sensor_snapshot :: "SensorType \<times> sensorState \<Rightarrow> SensorSnapshot" where
  "sensor_snapshot x = (case x of (t, sensor) \<Rightarrow>
     \<lparr>ssID = ucast t, ssType = (case map_of SensorTypeNames t of None \<Rightarrow> [] | Some name \<Rightarrow> name),
      ssUnit = UnitType_String (sdUnit (definition_of sensor)), ssSeen = seen sensor,
      ssCurrent = (if seen sensor then Some (latest sensor) else None), ssWarning = warning sensor,
      ssSampleCount = rcount (history sensor)\<rparr>)"

definition snapshotDevice :: "MACAddress \<Rightarrow> string \<Rightarrow> string \<Rightarrow> bool \<Rightarrow> MonitoringState \<Rightarrow> DeviceSnapshot" where
  "snapshotDevice mac floor room includeSensors state =
     (let result = \<lparr>snMAC = formatMAC mac, snFloor = floor, snRoom = room, snTransport = [], snConnected = False,
                    snLastSeenAt = 0, snObservedSensors = 0, snWarnings = [], snSensors = []\<rparr>;
          device = map_of (devices state) mac;
          result = (case device of
              None \<Rightarrow> result
            | Some device \<Rightarrow>
                result\<lparr>snTransport := transportName (dsTransport device), snConnected := connected device,
                       snLastSeenAt := lastSeenAt device,
                       snObservedSensors := length (filter (\<lambda>(t, sensor). seen sensor) (sensors device)),
                       snWarnings := concat (map (\<lambda>(t, sensor). if warning sensor \<noteq> [] then [warning sensor] else []) (sensors device))\<rparr>);
          result = result\<lparr>snWarnings := sort (snWarnings result)\<rparr>
      in if \<not> includeSensors then result
         else case device of
             None \<Rightarrow> result
           | Some device \<Rightarrow> result\<lparr>snSensors := sort_key ssID (map sensor_snapshot (sensors device))\<rparr>)"

definition state_Devices :: "ConfigSnapshot \<Rightarrow> MonitoringState \<Rightarrow> DeviceSnapshot list" where
  "state_Devices snapshot state =
     sort_key snMAC (map (\<lambda>configuredDevice.
       snapshotDevice (case ParseMACAddress (dcMAC configuredDevice) of Inl _ \<Rightarrow> zeroMAC | Inr mac \<Rightarrow> mac)
         (dcFloor configuredDevice) (dcRoom configuredDevice) False state) (cDevices (snapshot_Config snapshot)))"

definition state_Device :: "ConfigSnapshot \<Rightarrow> MACAddress \<Rightarrow> MonitoringState \<Rightarrow> DeviceSnapshot option" where
  "state_Device snapshot mac state =
     (case snapshot_Device snapshot mac of
        None \<Rightarrow> None
      | Some configuredDevice \<Rightarrow>
          Some (snapshotDevice mac (FloorType_String (devFloor configuredDevice)) (RoomType_String (devRoom configuredDevice)) True state))"

definition add_to_room :: "DeviceSnapshot \<Rightarrow> (string \<times> RoomSnapshot) list \<Rightarrow> (string \<times> RoomSnapshot) list" where
  "add_to_room device rooms =
     (let room = (case map_of rooms (snRoom device) of
            None \<Rightarrow> \<lparr>rsName = snRoom device, rsDeviceCount = 0, rsConnectedDevices = 0, rsWarningCount = 0\<rparr>
          | Some room \<Rightarrow> room)
      in AList.update (snRoom device)
           (room\<lparr>rsDeviceCount := rsDeviceCount room + 1,
                 rsConnectedDevices := rsConnectedDevices room + (if snConnected device then 1 else 0),
                 rsWarningCount := rsWarningCount room + length (snWarnings device)\<rparr>) rooms)"

definition state_Rooms :: "ConfigSnapshot \<Rightarrow> MonitoringState \<Rightarrow> RoomSnapshot list" where
  "state_Rooms snapshot state =
     sort_key rsName (map snd (fold add_to_room (state_Devices snapshot state) []))"

section \<open>Sequences of calls\<close>

text \<open>The mutex makes the calls follow one another. \<open>Received\<close> is a subscriber taking an event from its
  channel.\<close>

datatype monitor_call =
    Observed SensorObservation
  | Connected u64 MACAddress
  | Disconnected u64 MACAddress
  | Subscribed
  | Unsubscribed u64
  | Received u64

definition monitor_step :: "monitor_call \<Rightarrow> MonitoringState \<Rightarrow> MonitoringState option" where
  "monitor_step c st =
     (case c of
        Observed ob \<Rightarrow> OnSensorObservation ob st
      | Connected n mac \<Rightarrow> Some (OnDeviceConnected n mac st)
      | Disconnected n mac \<Rightarrow> Some (OnDeviceDisconnected n mac st)
      | Subscribed \<Rightarrow> Some (snd (state_Subscribe st))
      | Unsubscribed n \<Rightarrow> Some (st\<lparr>events := hub_Unsubscribe n (events st)\<rparr>)
      | Received n \<Rightarrow> Some (st\<lparr>events := (events st)\<lparr>subscribers :=
          AList.map_entry n tl (subscribers (events st))\<rparr>\<rparr>))"

fun monitor_run :: "monitor_call list \<Rightarrow> MonitoringState \<Rightarrow> MonitoringState option" where
  "monitor_run [] st = Some st"
| "monitor_run (c # cs) st = (case monitor_step c st of None \<Rightarrow> None | Some st' \<Rightarrow> monitor_run cs st')"

lemma monitor_run_append:
  "monitor_run (xs @ ys) st = (case monitor_run xs st of None \<Rightarrow> None | Some st' \<Rightarrow> monitor_run ys st')"
  by (induction xs arbitrary: st) (auto split: option.splits)

text \<open>The invariant: every history is a ring of the configured capacity, and no channel is
  overfull.\<close>

definition mon_ok :: "nat \<Rightarrow> MonitoringState \<Rightarrow> bool" where
  "mon_ok n st \<longleftrightarrow> historyCapacity st = int (Suc n)
     \<and> (\<forall>mac device t sensor. map_of (devices st) mac = Some device \<longrightarrow> map_of (sensors device) t = Some sensor
          \<longrightarrow> ring_ok (Suc n) (history sensor))
     \<and> (\<forall>x \<in> set (subscribers (events st)). length (snd x) \<le> 32)"

lemma hub_bounds:
  assumes "\<forall>x \<in> set (subscribers hub). length (snd x) \<le> 32"
  shows "\<forall>x \<in> set (subscribers (hub_Publish name v hub)). length (snd x) \<le> 32"
    "\<forall>x \<in> set (subscribers (hub_Unsubscribe n hub)). length (snd x) \<le> 32"
    "\<forall>x \<in> set (subscribers (snd (hub_Subscribe hub))). length (snd x) \<le> 32"
    "\<forall>x \<in> set (AList.map_entry n tl (subscribers hub)). length (snd x) \<le> 32"
proof -
  show "\<forall>x \<in> set (subscribers (hub_Publish name v hub)). length (snd x) \<le> 32"
    using assms by (auto simp: hub_Publish_def)
  show "\<forall>x \<in> set (subscribers (hub_Unsubscribe n hub)). length (snd x) \<le> 32"
    using assms by (auto simp: hub_Unsubscribe_def AList.delete_eq)
  have upd: "set (AList.update k [] al) \<subseteq> insert (k, []) (set al)" for k :: u64 and al :: "(u64 \<times> Event list) list"
    by (induction al) auto
  show "\<forall>x \<in> set (subscribers (snd (hub_Subscribe hub))). length (snd x) \<le> 32"
    using assms upd by (fastforce simp: hub_Subscribe_def Let_def)
  have entry: "x \<in> set (AList.map_entry n tl al) \<Longrightarrow> \<exists>y \<in> set al. snd x = snd y \<or> snd x = tl (snd y)" for x and al :: "(u64 \<times> Event list) list"
    by (induction al) (auto split: if_splits)
  show "\<forall>x \<in> set (AList.map_entry n tl (subscribers hub)). length (snd x) \<le> 32"
  proof
    fix x assume "x \<in> set (AList.map_entry n tl (subscribers hub))"
    then obtain y where y: "y \<in> set (subscribers hub)" "snd x = snd y \<or> snd x = tl (snd y)" using entry by blast
    then have "length (snd y) \<le> 32" using assms by blast
    then show "length (snd x) \<le> 32" using y(2) by auto
  qed
qed

lemma publish_simps [simp]:
  "devices (publish name v st) = devices st" "historyCapacity (publish name v st) = historyCapacity st"
  "events (publish name v st) = hub_Publish name v (events st)"
  "devices (put_device mac d st) = AList.update mac d (devices st)" "historyCapacity (put_device mac d st) = historyCapacity st"
  "events (put_device mac d st) = events st"
  by (simp_all add: publish_def put_device_def)

lemma state_device_keeps:
  "sensors (state_device mac floor room st) = (case map_of (devices st) mac of None \<Rightarrow> [] | Some d \<Rightarrow> sensors d)"
  "connected (state_device mac floor room st) = (case map_of (devices st) mac of None \<Rightarrow> False | Some d \<Rightarrow> connected d)"
  "connectionID (state_device mac floor room st) = (case map_of (devices st) mac of None \<Rightarrow> 0 | Some d \<Rightarrow> connectionID d)"
  by (simp_all add: state_device_def Let_def split: option.splits)

abbreviation samples_of :: "'a list option \<Rightarrow> 'a list" where
  "samples_of r \<equiv> (case r of None \<Rightarrow> [] | Some xs \<Rightarrow> xs)"

lemma OnSensorObservation_spec:
  assumes "mon_ok n st"
  shows "\<exists>st'. OnSensorObservation ob st = Some st' \<and> mon_ok n st'
    \<and> (\<forall>mac t. Readings mac t st' = (if mac = oMAC ob \<and> t = oSensorType ob
          then Some (lastn (Suc n) (samples_of (Readings mac t st) @ [\<lparr>sTimestamp = oTimestamp ob, sValue = oValue ob\<rparr>]))
          else Readings mac t st))"
proof -
  let ?x = "\<lparr>sTimestamp = oTimestamp ob, sValue = oValue ob\<rparr>" and ?t = "oSensorType ob" and ?mac = "oMAC ob"
  define device where "device = (state_device ?mac (FloorType_String (oFloor ob)) (RoomType_String (oRoom ob)) st)
    \<lparr>dsTransport := oTransport ob, lastSeenAt := oTimestamp ob\<rparr>"
  have ds: "sensors device = (case map_of (devices st) ?mac of None \<Rightarrow> [] | Some d \<Rightarrow> sensors d)"
    by (simp add: device_def state_device_keeps)
  define sensor where "sensor = (case map_of (sensors device) ?t of
      None \<Rightarrow> \<lparr>definition_of = \<lparr>sdType = ?t, sdUnit = oUnitType ob\<rparr>, seen = False,
               latest = \<lparr>sTimestamp = 0, sValue = 0\<rparr>, warning = [], history = newSampleRing (nat (historyCapacity st))\<rparr>
    | Some sensor \<Rightarrow> sensor)"
  have cap: "historyCapacity st = int (Suc n)" using assms by (simp add: mon_ok_def)
  have ncap: "nat (historyCapacity st) = Suc n" unfolding cap by (rule nat_int)
  have ok: "ring_ok (Suc n) (history sensor)" "ring_Snapshot (history sensor) = samples_of (Readings ?mac ?t st)"
  proof -
    show "ring_ok (Suc n) (history sensor)"
      using assms ncap ring.new_ok [of n] ds by (auto simp: sensor_def mon_ok_def split: option.splits)
    show "ring_Snapshot (history sensor) = samples_of (Readings ?mac ?t st)"
      using ncap ring.new_contents [of n] ds by (auto simp: sensor_def Readings_def split: option.splits)
  qed
  obtain r where r: "ring_Append ?x (history sensor) = Some r" "ring_ok (Suc n) r"
    "ring_Snapshot r = lastn (Suc n) (ring_Snapshot (history sensor) @ [?x])"
    using ring.append_ok [OF ok(1)] by blast
  define sensor' where "sensor' = sensor\<lparr>seen := True, latest := ?x, history := r, warning := thresholdWarning ?t (oValue ob)\<rparr>"
  define device' where "device' = device\<lparr>sensors := AList.update ?t sensor' (sensors device)\<rparr>"
  define st' where "st' = publish ''sensor_observation'' (ObservationData \<lparr>soMAC = formatMAC ?mac,
      soFloor = FloorType_String (oFloor ob), soRoom = RoomType_String (oRoom ob), soTransport = transportName (oTransport ob),
      soSensorType = SensorType_String ?t, soUnit = UnitType_String (oUnitType ob), soSample = ?x, soWarning = warning sensor'\<rparr>)
      (put_device ?mac device' st)"
  have step: "OnSensorObservation ob st = Some st'"
    unfolding OnSensorObservation_def Let_def device_def [symmetric] sensor_def [symmetric] r(1) option.case
    by (simp add: st'_def device'_def sensor'_def)
  have devs: "map_of (devices st') m = (if m = ?mac then Some device' else map_of (devices st) m)" for m
    by (simp add: st'_def update_conv')
  have sens: "map_of (sensors device') t = (if t = ?t then Some sensor' else map_of (sensors device) t)" for t
    by (simp add: device'_def update_conv')
  have rings: "ring_ok (Suc n) (history s)" if "map_of (devices st') m = Some d" "map_of (sensors d) t = Some s" for m d t s
  proof (cases "m = ?mac")
    case True
    then show ?thesis
      using that devs sens r(2) ds assms by (auto simp: sensor'_def mon_ok_def split: if_splits option.splits)
  next
    case False
    then show ?thesis using that devs assms by (auto simp: mon_ok_def)
  qed
  have "\<forall>x \<in> set (subscribers (events st')). length (snd x) \<le> 32"
    using assms hub_bounds(1) [of "events st"] by (simp add: st'_def mon_ok_def)
  then have "mon_ok n st'" using rings cap by (simp add: mon_ok_def st'_def)
  moreover have "Readings m t st' = (if m = ?mac \<and> t = ?t
      then Some (lastn (Suc n) (samples_of (Readings m t st) @ [?x])) else Readings m t st)" for m t
    using devs [of m] sens [of t] r(3) ok(2) ds by (auto simp: Readings_def sensor'_def split: option.splits)
  ultimately show ?thesis using step by blast
qed

text \<open>Which connection the state takes a device to be on, and the specification: the latest connection
  counts, and only its own end ends it.\<close>

definition shown_connection :: "MonitoringState \<Rightarrow> MACAddress \<rightharpoonup> u64" where
  "shown_connection st mac =
     (case map_of (devices st) mac of None \<Rightarrow> None | Some d \<Rightarrow> if connected d then Some (connectionID d) else None)"

definition connection_step :: "monitor_call \<Rightarrow> (MACAddress \<rightharpoonup> u64) \<Rightarrow> (MACAddress \<rightharpoonup> u64)" where
  "connection_step c m =
     (case c of
        Connected n mac \<Rightarrow> m(mac \<mapsto> n)
      | Disconnected n mac \<Rightarrow> if m mac = Some n then m(mac := None) else m
      | _ \<Rightarrow> m)"

definition observed_samples :: "MACAddress \<Rightarrow> SensorType \<Rightarrow> monitor_call list \<Rightarrow> Sample list" where
  "observed_samples mac t cs = concat (map (\<lambda>c. case c of
     Observed ob \<Rightarrow> if oMAC ob = mac \<and> oSensorType ob = t then [\<lparr>sTimestamp = oTimestamp ob, sValue = oValue ob\<rparr>] else []
   | _ \<Rightarrow> []) cs)"

lemma OnSensorObservation_connection:
  assumes "OnSensorObservation ob st = Some st'"
  shows "shown_connection st' = shown_connection st"
proof -
  obtain d where d: "devices st' = AList.update (oMAC ob) d (devices st)"
    "connected d = connected (state_device (oMAC ob) (FloorType_String (oFloor ob)) (RoomType_String (oRoom ob)) st)"
    "connectionID d = connectionID (state_device (oMAC ob) (FloorType_String (oFloor ob)) (RoomType_String (oRoom ob)) st)"
    using assms by (auto simp: OnSensorObservation_def Let_def split: option.splits)
  then show ?thesis
    by (auto simp: shown_connection_def fun_eq_iff update_conv' state_device_keeps split: option.splits)
qed

lemma OnDeviceConnected_spec:
  assumes "mon_ok n st"
  shows "mon_ok n (OnDeviceConnected k mac st)" "Readings m t (OnDeviceConnected k mac st) = Readings m t st"
    "shown_connection (OnDeviceConnected k mac st) = (shown_connection st)(mac \<mapsto> k)"
proof -
  define d where "d = (state_device mac [] [] st)\<lparr>connectionID := k, connected := True, dsTransport := TransportTCP\<rparr>"
  have devs: "devices (OnDeviceConnected k mac st) = AList.update mac d (devices st)"
    by (simp add: OnDeviceConnected_def Let_def d_def)
  have "\<forall>x \<in> set (subscribers (events (OnDeviceConnected k mac st))). length (snd x) \<le> 32"
    using assms hub_bounds(1) [of "events st"] by (simp add: OnDeviceConnected_def Let_def mon_ok_def)
  moreover have "sensors d = (case map_of (devices st) mac of None \<Rightarrow> [] | Some d \<Rightarrow> sensors d)"
    by (simp add: d_def state_device_keeps)
  moreover have "historyCapacity (OnDeviceConnected k mac st) = historyCapacity st" by (simp add: OnDeviceConnected_def Let_def)
  ultimately show "mon_ok n (OnDeviceConnected k mac st)" "Readings m t (OnDeviceConnected k mac st) = Readings m t st"
    using assms by (auto simp: mon_ok_def Readings_def devs update_conv' split: option.splits if_splits)
  show "shown_connection (OnDeviceConnected k mac st) = (shown_connection st)(mac \<mapsto> k)"
    by (auto simp: shown_connection_def devs update_conv' fun_eq_iff d_def)
qed

lemma OnDeviceDisconnected_spec:
  assumes "mon_ok n st"
  shows "mon_ok n (OnDeviceDisconnected k mac st)" "Readings m t (OnDeviceDisconnected k mac st) = Readings m t st"
    "shown_connection (OnDeviceDisconnected k mac st) = (if shown_connection st mac = Some k then (shown_connection st)(mac := None) else shown_connection st)"
proof -
  have hub: "\<forall>x \<in> set (subscribers (events (OnDeviceDisconnected k mac st))). length (snd x) \<le> 32"
    using assms hub_bounds(1) [of "events st"] by (auto simp: OnDeviceDisconnected_def mon_ok_def split: option.splits)
  show "mon_ok n (OnDeviceDisconnected k mac st)"
    using assms hub by (auto simp: OnDeviceDisconnected_def mon_ok_def update_conv' split: option.splits if_splits)
  show "Readings m t (OnDeviceDisconnected k mac st) = Readings m t st"
    by (auto simp: OnDeviceDisconnected_def Readings_def update_conv' split: option.splits)
  show "shown_connection (OnDeviceDisconnected k mac st) = (if shown_connection st mac = Some k then (shown_connection st)(mac := None) else shown_connection st)"
    by (auto simp: OnDeviceDisconnected_def shown_connection_def fun_eq_iff update_conv' split: option.splits)
qed

lemma events_update:
  "Readings m t (st\<lparr>events := hub\<rparr>) = Readings m t st" "shown_connection (st\<lparr>events := hub\<rparr>) = shown_connection st"
  "mon_ok n st \<Longrightarrow> \<forall>x \<in> set (subscribers hub). length (snd x) \<le> 32 \<Longrightarrow> mon_ok n (st\<lparr>events := hub\<rparr>)"
  by (simp_all add: Readings_def shown_connection_def fun_eq_iff mon_ok_def)

lemma observed_samples_one:
  "observed_samples mac t [Observed ob] =
     (if oMAC ob = mac \<and> oSensorType ob = t then [\<lparr>sTimestamp = oTimestamp ob, sValue = oValue ob\<rparr>] else [])"
  "observed_samples mac t [Connected k m] = []" "observed_samples mac t [Disconnected k m] = []"
  "observed_samples mac t [Subscribed] = []" "observed_samples mac t [Unsubscribed k] = []" "observed_samples mac t [Received k] = []"
  by (simp_all add: observed_samples_def)

lemma monitor_step_spec:
  assumes "mon_ok n st"
  shows "\<exists>st'. monitor_step c st = Some st' \<and> mon_ok n st' \<and> shown_connection st' = connection_step c (shown_connection st)
    \<and> (\<forall>mac t. Readings mac t st' = (case observed_samples mac t [c] of [] \<Rightarrow> Readings mac t st
          | x # _ \<Rightarrow> Some (lastn (Suc n) (samples_of (Readings mac t st) @ [x]))))"
proof -
  have hub: "\<forall>x \<in> set (subscribers (events st)). length (snd x) \<le> 32" using assms by (simp add: mon_ok_def)
  show ?thesis
  proof (cases c)
    case (Observed ob)
    obtain st' where st': "OnSensorObservation ob st = Some st'" "mon_ok n st'"
      "\<And>mac t. Readings mac t st' = (if mac = oMAC ob \<and> t = oSensorType ob
          then Some (lastn (Suc n) (samples_of (Readings mac t st) @ [\<lparr>sTimestamp = oTimestamp ob, sValue = oValue ob\<rparr>]))
          else Readings mac t st)"
      using OnSensorObservation_spec [OF assms, of ob] by blast
    have "shown_connection st' = shown_connection st" using st'(1) by (rule OnSensorObservation_connection)
    then show ?thesis
      using st' by (intro exI [of _ st']) (auto simp: Observed monitor_step_def connection_step_def observed_samples_one)
  next
    case (Connected k mac)
    show ?thesis
      using OnDeviceConnected_spec [OF assms] by (simp add: Connected monitor_step_def connection_step_def observed_samples_one)
  next
    case (Disconnected k mac)
    show ?thesis
      using OnDeviceDisconnected_spec [OF assms] by (simp add: Disconnected monitor_step_def connection_step_def observed_samples_one)
  next
    case Subscribed
    show ?thesis
      using events_update(3) [OF assms hub_bounds(3) [OF hub]]
      by (simp add: Subscribed monitor_step_def connection_step_def observed_samples_one state_Subscribe_def split_beta events_update(1,2))
  next
    case (Unsubscribed k)
    show ?thesis
      using events_update(3) [OF assms hub_bounds(2) [OF hub]]
      by (simp add: Unsubscribed monitor_step_def connection_step_def observed_samples_one events_update(1,2))
  next
    case (Received k)
    show ?thesis
      using events_update(3) [OF assms, of "(events st)\<lparr>subscribers := AList.map_entry k tl (subscribers (events st))\<rparr>"] hub_bounds(4) [OF hub]
      by (simp add: Received monitor_step_def connection_step_def observed_samples_one events_update(1,2))
  qed
qed

lemma monitor_run_spec:
  assumes "mon_ok n st0" "\<And>mac t. Readings mac t st0 = None"
  shows "\<exists>st. monitor_run cs st0 = Some st \<and> mon_ok n st \<and> shown_connection st = fold connection_step cs (shown_connection st0)
    \<and> (\<forall>mac t. Readings mac t st = (if observed_samples mac t cs = [] then None else Some (lastn (Suc n) (observed_samples mac t cs))))"
proof (induction cs rule: rev_induct)
  case Nil
  then show ?case using assms by (simp add: observed_samples_def)
next
  case (snoc c cs)
  then obtain st where st: "monitor_run cs st0 = Some st" "mon_ok n st" "shown_connection st = fold connection_step cs (shown_connection st0)"
    "\<And>mac t. Readings mac t st = (if observed_samples mac t cs = [] then None else Some (lastn (Suc n) (observed_samples mac t cs)))"
    by blast
  obtain st' where st': "monitor_step c st = Some st'" "mon_ok n st'" "shown_connection st' = connection_step c (shown_connection st)"
    "\<And>mac t. Readings mac t st' = (case observed_samples mac t [c] of [] \<Rightarrow> Readings mac t st
      | x # _ \<Rightarrow> Some (lastn (Suc n) (samples_of (Readings mac t st) @ [x])))"
    using monitor_step_spec [OF st(2)] by blast
  have app: "observed_samples mac t (cs @ [c]) = observed_samples mac t cs @ observed_samples mac t [c]"
    and one: "length (observed_samples mac t [c]) \<le> 1" for mac t
    by (auto simp: observed_samples_def split: monitor_call.splits)
  have "Readings mac t st' = (if observed_samples mac t (cs @ [c]) = [] then None else Some (lastn (Suc n) (observed_samples mac t (cs @ [c]))))" for mac t
    using one [of mac t] lastn_snoc_lastn [of "Suc n" "observed_samples mac t cs"] unfolding st'(4) app st(4)
    by (cases "observed_samples mac t [c]") auto
  then show ?case using st st' by (intro exI [of _ st']) (simp add: monitor_run_append)
qed

lemma NewMonitoringState_ok:
  assumes "NewMonitoringState config = Inr st0"
  shows "\<exists>n. hHistoryCapacity config = int (Suc n) \<and> mon_ok n st0 \<and> (\<forall>mac t. Readings mac t st0 = None) \<and> shown_connection st0 = Map.empty"
proof -
  have v: "1 \<le> hHistoryCapacity config" and st0: "st0 = \<lparr>historyCapacity = hHistoryCapacity config, devices = [], events = newEventHub\<rparr>"
    using assms by (auto simp: NewMonitoringState_def http_Validate_def Let_def split: if_splits)
  define n where "n = nat (hHistoryCapacity config - 1)"
  have "hHistoryCapacity config = int (Suc n)" using v by (simp add: n_def)
  then show ?thesis by (intro exI [of _ n]) (simp add: st0 mon_ok_def newEventHub_def Readings_def shown_connection_def fun_eq_iff)
qed

section \<open>Properties of the monitoring state\<close>

text \<open>
  C16. The history the monitoring plugin reports is right for every sequence of callbacks: no call
  ever panics, and the readings of a sensor are its most recent observations, oldest first, as
  many as the configured capacity; a sensor never observed has none. Every subscriber has at
  most 32 events waiting.
\<close>

theorem Readings_are_latest:
  assumes "NewMonitoringState config = Inr st0"
  shows "\<exists>st. monitor_run cs st0 = Some st
    \<and> (\<forall>mac t. Readings mac t st = (if observed_samples mac t cs = [] then None
          else Some (lastn (nat (hHistoryCapacity config)) (observed_samples mac t cs))))
    \<and> (\<forall>x \<in> set (subscribers (events st)). length (snd x) \<le> 32)"
proof -
  obtain n where n: "hHistoryCapacity config = int (Suc n)" "mon_ok n st0" "\<And>mac t. Readings mac t st0 = None"
    using NewMonitoringState_ok [OF assms] by blast
  from monitor_run_spec [OF n(2,3), of cs] show ?thesis unfolding n(1) nat_int mon_ok_def by blast
qed

definition demo_http :: HttpConfig where
  "demo_http = \<lparr>hEnabled = True, hAddress = '':8080'', hHistoryCapacity = 2\<rparr>"

definition demo_observation :: "i32 \<Rightarrow> SensorObservation" where
  "demo_observation v = \<lparr>oMAC = MACAddress 2 0 0 0 0 1, oFloor = FLOOR_FIRST, oRoom = ROOM_LIVING, oTransport = TransportUDP,
     oSensorType = SENSOR_ID_TEMPERATURE, oUnitType = 1, oTimestamp = 5, oValue = v\<rparr>"

lemma demo_http_new: "NewMonitoringState demo_http = Inr \<lparr>historyCapacity = 2, devices = [], events = newEventHub\<rparr>"
proof -
  have "SplitHostPort '':8080'' = Some ([], ''8080'')" by code_simp
  then show ?thesis by (simp add: NewMonitoringState_def http_Validate_def demo_http_def)
qed

theorem Readings_are_latest_witness:
  "\<exists>st. monitor_run [Observed (demo_observation 1), Observed (demo_observation 2), Observed (demo_observation 3)]
        \<lparr>historyCapacity = 2, devices = [], events = newEventHub\<rparr> = Some st
    \<and> Readings (MACAddress 2 0 0 0 0 1) SENSOR_ID_TEMPERATURE st = Some [\<lparr>sTimestamp = 5, sValue = 2\<rparr>, \<lparr>sTimestamp = 5, sValue = 3\<rparr>]"
proof -
  let ?cs = "[Observed (demo_observation 1), Observed (demo_observation 2), Observed (demo_observation 3)]"
  have "observed_samples (MACAddress 2 0 0 0 0 1) SENSOR_ID_TEMPERATURE ?cs
      = [\<lparr>sTimestamp = 5, sValue = 1\<rparr>, \<lparr>sTimestamp = 5, sValue = 2\<rparr>, \<lparr>sTimestamp = 5, sValue = 3\<rparr>]"
    by (simp add: observed_samples_def demo_observation_def)
  then show ?thesis
    using Readings_are_latest [OF demo_http_new, of ?cs] by (fastforce simp: lastn_def demo_http_def)
qed

text \<open>
  C17. The plugin's idea of which devices are connected refines the specification \<open>connection_step\<close> for
  every interleaving of callbacks: a device is on the connection that reported it last, and the
  end of an older connection, arriving late, does not make a reconnected device appear
  disconnected; the reports of a device show exactly this.
\<close>

theorem Connections_follow_latest:
  assumes "NewMonitoringState config = Inr st0" "monitor_run cs st0 = Some st"
  shows "shown_connection st = fold connection_step cs Map.empty
    \<and> (\<forall>mac floor room b. snConnected (snapshotDevice mac floor room b st) \<longleftrightarrow> mac \<in> dom (fold connection_step cs Map.empty))"
proof -
  obtain n where "mon_ok n st0" "\<And>mac t. Readings mac t st0 = None" "shown_connection st0 = Map.empty"
    using NewMonitoringState_ok [OF assms(1)] by blast
  with monitor_run_spec [of n st0 cs] assms(2) have c: "shown_connection st = fold connection_step cs Map.empty" by auto
  have "snConnected (snapshotDevice mac floor room b st) \<longleftrightarrow> shown_connection st mac \<noteq> None" for mac floor room b
    by (auto simp: snapshotDevice_def Let_def shown_connection_def split: option.splits)
  then show ?thesis using c by (simp add: dom_def)
qed

theorem Connections_follow_latest_witness:
  "\<exists>st. monitor_run [Connected 1 zeroMAC, Connected 2 zeroMAC, Disconnected 1 zeroMAC]
        \<lparr>historyCapacity = 2, devices = [], events = newEventHub\<rparr> = Some st \<and> shown_connection st = [zeroMAC \<mapsto> 2]"
proof -
  let ?cs = "[Connected 1 zeroMAC, Connected 2 zeroMAC, Disconnected 1 zeroMAC]"
  let ?st = "\<lparr>historyCapacity = 2, devices = [], events = newEventHub\<rparr> :: MonitoringState"
  obtain st where st: "monitor_run ?cs ?st = Some st" by (simp add: monitor_step_def)
  have "fold connection_step ?cs Map.empty = [zeroMAC \<mapsto> 2]" by (simp add: connection_step_def fun_eq_iff)
  then show ?thesis using Connections_follow_latest [OF demo_http_new st] st by auto
qed

end
