(* ===== verification/TcpServer.thy ===== *)
theory TcpServer
  imports UdpServer Monitoring "HOL-Library.AList"
begin

text \<open>
  \<open>sensor-server/tcp-server.go\<close>: \<open>Serve\<close> accepts connections up to a limit, one goroutine per connection reads
  messages, binds the connection to the first MAC address it sees and routes the messages; a second
  connection of the same device replaces the first. \<open>Close\<close> cancels, closes the listener and the registered
  connections, and waits.

  The goroutines share \<open>tcpConnection\<close> objects through pointers, so the model has an explicit store:
  \<open>objects\<close> holds every object ever made, a pointer is a position in it, and \<open>connections\<close> and \<open>byMAC\<close>
  map to pointers. Each step is what a goroutine does between two points where another one can observe
  it: a section under the mutex, a callback, a read. The phase of an object says where its goroutine is.

  A network connection is a \<open>Reader\<close>: the bytes its peer will have sent, in the pieces they arrive in, and
  the error that ends them. Closing a connection makes every later read fail with \<open>net.ErrClosed\<close>.
  The callbacks are logged in the order they are made.
\<close>

section \<open>State\<close>

record TCPServerOptions =
  MaximumConnections :: int
  PayloadDeadline :: int \<comment> \<open>nanoseconds\<close>

record TCPServerCounters =
  TActiveConnections :: u64
  TTotalConnections :: nat
  TRejected :: nat
  TMessages :: nat
  TMalformed :: nat
  TMACMismatches :: nat

datatype conn_phase =
    Registering | Registered
  | Serving | Handling Message | Binding Message "nat option" | Routing Message
  | Ending | Removed | Finished

record tcpConnection =
  cid :: u64
  conn :: Reader
  remote :: string
  cmac :: MACAddress
  bound :: bool
  phase :: conn_phase

datatype tcp_callback =
    CbConnection u64 string
  | CbDisconnection u64 MACAddress string
  | CbDeviceConnected u64 MACAddress
  | CbDeviceDisconnected u64 MACAddress

datatype serve_phase = AtAccept | Accepted Reader string | Starting nat | Returned

record TCPServer =
  toptions :: TCPServerOptions
  tctxDone :: bool
  listenerClosed :: bool
  closeSwept :: bool
  limit :: nat
  objects :: "tcpConnection list"
  connections :: "(u64 \<times> nat) list"
  byMAC :: "(MACAddress \<times> nat) list"
  nextID :: u64
  waitGroup :: nat
  serving :: serve_phase
  tactive :: u64
  ttotal :: nat
  trejected :: nat
  tmessages :: nat
  tmalformed :: nat
  tmacMismatch :: nat
  twarnings :: "go_error list list"
  callbacks :: "tcp_callback list"

abbreviation (input) Second :: int where "Second \<equiv> 1000000000"
abbreviation (input) Minute :: int where "Minute \<equiv> 60000000000"

definition NewTCPServer :: "TCPServerOptions \<Rightarrow> go_error list + TCPServer" where
  "NewTCPServer opts =
     (if MaximumConnections opts < 1
        then Inl [ErrText ''new TCP server: maximum connections must be positive'']
      else if PayloadDeadline opts < Second \<or> PayloadDeadline opts > Minute
        then Inl [ErrText ''new TCP server: payload deadline must be between 1s and 1m'']
      else Inr \<lparr>toptions = opts, tctxDone = False, listenerClosed = False, closeSwept = False, limit = 0,
                objects = [], connections = [], byMAC = [], nextID = 0, waitGroup = 0, serving = AtAccept,
                tactive = 0, ttotal = 0, trejected = 0, tmessages = 0, tmalformed = 0, tmacMismatch = 0,
                twarnings = [], callbacks = []\<rparr>)"

definition closed_reader :: Reader where
  "closed_reader = \<lparr>chunks = [], failure = NetErrClosed\<rparr>"

definition close_conn :: "nat \<Rightarrow> tcpConnection list \<Rightarrow> tcpConnection list" where
  "close_conn p objs = objs[p := (objs ! p)\<lparr>conn := closed_reader\<rparr>]"

section \<open>Reading a message\<close>

text \<open>The flag is \<open>structural\<close>: the next frame boundary is unknown. \<open>deadlineErr\<close> is what \<open>SetReadDeadline\<close>
  returns.\<close>

definition tcp_readMessage :: "go_error option \<Rightarrow> Reader \<Rightarrow> ((go_error + Message) \<times> bool \<times> Reader) option" where
  "tcp_readMessage deadlineErr connection =
     (case io_ReadFull MessageHeaderSize connection of
        (Inl err, connection) \<Rightarrow> Some (Inl err, True, connection)
      | (Inr headerBytes, connection) \<Rightarrow> do {
          hdr \<leftarrow> DecodeHeader (slice_of headerBytes);
          (case hdr of
             Inl err \<Rightarrow> Some (Inl err, True, connection)
           | Inr header \<Rightarrow>
               (case (if PayloadLength header > 0 then deadlineErr else None) of
                  Some err \<Rightarrow> Some (Inl err, True, connection)
                | None \<Rightarrow>
                    (case io_ReadFull (unat (PayloadLength header)) connection of
                       (Inl readErr, connection) \<Rightarrow> Some (Inl readErr, True, connection)
                     | (Inr payload, connection) \<Rightarrow> do {
                         message \<leftarrow> DecodeMessage header (slice_of payload);
                         Some (message, False, connection) }))) })"

section \<open>Accepting\<close>

definition tcp_accept :: "Reader \<Rightarrow> string \<Rightarrow> TCPServer \<Rightarrow> TCPServer outcome" where
  "tcp_accept connection addr s =
     (if serving s \<noteq> AtAccept \<or> listenerClosed s then Blocked
      else Next (s\<lparr>serving := Accepted connection addr\<rparr>))"

definition tcp_accept_error :: "go_error list \<Rightarrow> TCPServer \<Rightarrow> (go_error list \<times> TCPServer) outcome" where
  "tcp_accept_error err s =
     (if serving s \<noteq> AtAccept then Blocked
      else Next (if tctxDone s \<or> errors_Is err NetErrClosed then [] else err, s\<lparr>serving := Returned\<rparr>))"

text \<open>\<open>startConnection\<close> up to the lock: the non-blocking send on \<open>limit\<close>, the next number and the new object;
  when the limit is reached \<open>Serve\<close> counts, warns and closes the connection.\<close>

definition startConnection_acquire :: "TCPServer \<Rightarrow> TCPServer outcome" where
  "startConnection_acquire s =
     (case serving s of
        Accepted connection addr \<Rightarrow>
          if int (limit s) < MaximumConnections (toptions s)
          then (let i = nextID s + 1;
                    tracked = \<lparr>cid = i, conn = connection, remote = addr, cmac = zeroMAC, bound = False, phase = Registering\<rparr>
                in Next (s\<lparr>limit := limit s + 1, nextID := i, objects := objects s @ [tracked],
                           serving := Starting (length (objects s))\<rparr>))
          else Next (s\<lparr>trejected := trejected s + 1,
                       twarnings := twarnings s @ [[ErrText ''connection limit reached'']], serving := AtAccept\<rparr>)
      | _ \<Rightarrow> Blocked)"

definition startConnection_register :: "TCPServer \<Rightarrow> TCPServer outcome" where
  "startConnection_register s =
     (case serving s of
        Starting p \<Rightarrow>
          if phase (objects s ! p) = Registering
          then Next (s\<lparr>connections := AList.update (cid (objects s ! p)) p (connections s),
                       objects := (objects s)[p := (objects s ! p)\<lparr>phase := Registered\<rparr>]\<rparr>)
          else Blocked
      | _ \<Rightarrow> Blocked)"

definition startConnection_launch :: "TCPServer \<Rightarrow> TCPServer outcome" where
  "startConnection_launch s =
     (case serving s of
        Starting p \<Rightarrow>
          if phase (objects s ! p) = Registered
          then Next (s\<lparr>tactive := tactive s + 1, ttotal := ttotal s + 1,
                       callbacks := callbacks s @ [CbConnection (cid (objects s ! p)) (remote (objects s ! p))],
                       waitGroup := waitGroup s + 1,
                       objects := (objects s)[p := (objects s ! p)\<lparr>phase := Serving\<rparr>], serving := AtAccept\<rparr>)
          else Blocked
      | _ \<Rightarrow> Blocked)"

section \<open>Serving a connection\<close>

definition set_phase :: "nat \<Rightarrow> conn_phase \<Rightarrow> TCPServer \<Rightarrow> TCPServer" where
  "set_phase p ph s = s\<lparr>objects := (objects s)[p := (objects s ! p)\<lparr>phase := ph\<rparr>]\<rparr>"

definition at_phase :: "TCPServer \<Rightarrow> nat \<Rightarrow> conn_phase \<Rightarrow> bool" where
  "at_phase s p ph \<longleftrightarrow> p < length (objects s) \<and> phase (objects s ! p) = ph"

definition serve_read :: "nat \<Rightarrow> go_error option \<Rightarrow> TCPServer \<Rightarrow> TCPServer outcome" where
  "serve_read p deadlineErr s =
     (if \<not> at_phase s p Serving then Blocked
      else case tcp_readMessage deadlineErr (conn (objects s ! p)) of
          None \<Rightarrow> Panic
        | Some (result, structural, connection) \<Rightarrow>
            (let s = s\<lparr>objects := (objects s)[p := (objects s ! p)\<lparr>conn := connection\<rparr>]\<rparr> in
             case result of
               Inl err \<Rightarrow>
                 if tctxDone s \<or> err = EOF \<or> err = NetErrClosed then Next (set_phase p Ending s)
                 else (let s = s\<lparr>tmalformed := tmalformed s + 1, twarnings := twarnings s @ [[err]]\<rparr>
                       in Next (set_phase p (if structural then Ending else Serving) s))
             | Inr message \<Rightarrow> Next (set_phase p (Handling message) s)))"

text \<open>\<open>bindConnection\<close>: the part under the mutex, and the callback with the closing of the connection that
  is replaced.\<close>

definition bindConnection_lock :: "nat \<Rightarrow> Message \<Rightarrow> TCPServer \<Rightarrow> TCPServer" where
  "bindConnection_lock p message s =
     (let mac = MAC (Header message); previous = map_of (byMAC s) mac in
      s\<lparr>objects := (objects s)[p := (objects s ! p)\<lparr>cmac := mac, bound := True, phase := Binding message previous\<rparr>],
        byMAC := AList.update mac p (byMAC s)\<rparr>)"

definition bindConnection_callback :: "nat \<Rightarrow> TCPServer \<Rightarrow> TCPServer outcome" where
  "bindConnection_callback p s =
     (if p \<ge> length (objects s) then Blocked
      else case phase (objects s ! p) of
          Binding message previous \<Rightarrow>
            (let s = s\<lparr>callbacks := callbacks s @ [CbDeviceConnected (cid (objects s ! p)) (cmac (objects s ! p))]\<rparr>;
                 s = (case previous of
                        None \<Rightarrow> s
                      | Some q \<Rightarrow> if q \<noteq> p then s\<lparr>objects := close_conn q (objects s)\<rparr> else s)
             in Next (set_phase p (Routing message) s))
        | _ \<Rightarrow> Blocked)"

definition serve_handle :: "nat \<Rightarrow> TCPServer \<Rightarrow> TCPServer outcome" where
  "serve_handle p s =
     (if p \<ge> length (objects s) then Blocked
      else case phase (objects s ! p) of
          Handling message \<Rightarrow>
            if \<not> bound (objects s ! p) then Next (bindConnection_lock p message s)
            else if cmac (objects s ! p) \<noteq> MAC (Header message)
              then Next (set_phase p Serving
                     (s\<lparr>tmacMismatch := tmacMismatch s + 1, twarnings := twarnings s @ [[ErrText ''MAC mismatch'']]\<rparr>))
            else Next (set_phase p (Routing message) s)
        | _ \<Rightarrow> Blocked)"

definition serve_route :: "'h MessageHandler \<Rightarrow> nat \<Rightarrow> i64 \<Rightarrow> TCPServer \<Rightarrow> 'h \<Rightarrow> (TCPServer \<times> 'h) outcome" where
  "serve_route route p timestamp s h =
     (if p \<ge> length (objects s) then Blocked
      else case phase (objects s ! p) of
          Routing message \<Rightarrow>
            (let s = s\<lparr>tmessages := tmessages s + 1\<rparr>;
                 (err, h) = route TransportTCP timestamp message h;
                 s = (if ignored err then s else s\<lparr>twarnings := twarnings s @ [err]\<rparr>)
             in Next (set_phase p Serving s, h))
        | _ \<Rightarrow> Blocked)"

definition removeConnection :: "nat \<Rightarrow> TCPServer \<Rightarrow> TCPServer" where
  "removeConnection p s =
     (let c = objects s ! p; s = s\<lparr>connections := AList.delete (cid c) (connections s)\<rparr> in
      if map_of (byMAC s) (cmac c) = Some p then s\<lparr>byMAC := AList.delete (cmac c) (byMAC s)\<rparr> else s)"

text \<open>The deferred function: \<open>^uint64(0)\<close> is added to count one connection less.\<close>

definition serve_end :: "nat \<Rightarrow> TCPServer \<Rightarrow> TCPServer outcome" where
  "serve_end p s =
     (if \<not> at_phase s p Ending then Blocked
      else Next (set_phase p Removed (removeConnection p (s\<lparr>objects := close_conn p (objects s)\<rparr>))))"

definition serve_finish :: "nat \<Rightarrow> TCPServer \<Rightarrow> TCPServer outcome" where
  "serve_finish p s =
     (if \<not> at_phase s p Removed \<or> limit s = 0 then Blocked
      else
        (let c = objects s ! p in
         Next (set_phase p Finished
           (s\<lparr>limit := limit s - 1, tactive := tactive s + NOT 0,
              callbacks := callbacks s @ (if bound c then [CbDeviceDisconnected (cid c) (cmac c)] else [])
                @ [CbDisconnection (cid c) (cmac c) (remote c)],
              waitGroup := waitGroup s - 1\<rparr>))))"

section \<open>Closing\<close>

definition tcp_Close_cancel :: "TCPServer \<Rightarrow> TCPServer" where
  "tcp_Close_cancel s = s\<lparr>tctxDone := True, listenerClosed := True\<rparr>"

definition tcp_Close_sweep :: "TCPServer \<Rightarrow> TCPServer outcome" where
  "tcp_Close_sweep s =
     (if \<not> tctxDone s \<or> closeSwept s then Blocked
      else Next (s\<lparr>objects := fold close_conn (map snd (connections s)) (objects s), closeSwept := True\<rparr>))"

definition tcp_Close_result :: "go_error list \<Rightarrow> TCPServer \<Rightarrow> go_error list outcome" where
  "tcp_Close_result cerr s =
     (if closeSwept s \<and> waitGroup s = 0 then Next (if errors_Is cerr NetErrClosed then [] else cerr) else Blocked)"

definition tcp_Counters :: "TCPServer \<Rightarrow> TCPServerCounters" where
  "tcp_Counters s = \<lparr>TActiveConnections = tactive s, TTotalConnections = ttotal s, TRejected = trejected s,
     TMessages = tmessages s, TMalformed = tmalformed s, TMACMismatches = tmacMismatch s\<rparr>"

section \<open>Executions\<close>

datatype tcp_event =
    TAccept Reader string
  | TAcceptError "go_error list"
  | TAcquire | TRegister | TLaunch
  | TRead nat "go_error option"
  | THandle nat
  | TBound nat
  | TRoute nat i64
  | TEnd nat
  | TFinish nat
  | TCancel | TSweep

definition tcp_step :: "'h MessageHandler \<Rightarrow> tcp_event \<Rightarrow> TCPServer \<Rightarrow> 'h \<Rightarrow> (TCPServer \<times> 'h) outcome" where
  "tcp_step route ev s h =
     (case ev of
        TRoute p ts \<Rightarrow> serve_route route p ts s h
      | _ \<Rightarrow> map_outcome (\<lambda>s. (s, h)) (case ev of
          TAccept connection addr \<Rightarrow> tcp_accept connection addr s
        | TAcceptError e \<Rightarrow> map_outcome snd (tcp_accept_error e s)
        | TAcquire \<Rightarrow> startConnection_acquire s
        | TRegister \<Rightarrow> startConnection_register s
        | TLaunch \<Rightarrow> startConnection_launch s
        | TRead p e \<Rightarrow> serve_read p e s
        | THandle p \<Rightarrow> serve_handle p s
        | TBound p \<Rightarrow> bindConnection_callback p s
        | TEnd p \<Rightarrow> serve_end p s
        | TFinish p \<Rightarrow> serve_finish p s
        | TCancel \<Rightarrow> Next (tcp_Close_cancel s)
        | TSweep \<Rightarrow> tcp_Close_sweep s))"

inductive tcp_exec :: "'h MessageHandler \<Rightarrow> TCPServer \<times> 'h \<Rightarrow> tcp_event list \<Rightarrow> TCPServer \<times> 'h \<Rightarrow> bool"
  for route :: "'h MessageHandler" where
  tcp_start: "tcp_exec route st [] st"
| tcp_next: "tcp_exec route st evs (s, h) \<Longrightarrow> tcp_step route ev s h = Next st' \<Longrightarrow> tcp_exec route st (evs @ [ev]) st'"

section \<open>The invariant\<close>

text \<open>Which phases hold a token of \<open>limit\<close>, have a running goroutine, are in \<open>connections\<close>, and come before
  the goroutine.\<close>

definition holds_token :: "conn_phase \<Rightarrow> bool" where "holds_token ph \<longleftrightarrow> ph \<noteq> Finished"
definition starting :: "conn_phase \<Rightarrow> bool" where "starting ph \<longleftrightarrow> ph = Registering \<or> ph = Registered"
definition running :: "conn_phase \<Rightarrow> bool" where "running ph \<longleftrightarrow> \<not> starting ph \<and> ph \<noteq> Finished"
definition listed :: "conn_phase \<Rightarrow> bool" where "listed ph \<longleftrightarrow> ph \<noteq> Registering \<and> ph \<noteq> Removed \<and> ph \<noteq> Finished"
definition binding :: "conn_phase \<Rightarrow> bool" where "binding ph \<longleftrightarrow> (case ph of Binding _ _ \<Rightarrow> True | _ \<Rightarrow> False)"

lemmas phase_defs = holds_token_def starting_def running_def listed_def binding_def

definition tally :: "(conn_phase \<Rightarrow> bool) \<Rightarrow> tcpConnection list \<Rightarrow> nat" where
  "tally P objs = length (filter P (map phase objs))"

definition cb_conn :: "tcp_callback \<Rightarrow> u64" where
  "cb_conn cb = (case cb of CbConnection i _ \<Rightarrow> i | CbDisconnection i _ _ \<Rightarrow> i | CbDeviceConnected i _ \<Rightarrow> i
     | CbDeviceDisconnected i _ \<Rightarrow> i)"

text \<open>The callbacks a connection has made, from its state alone.\<close>

definition trace :: "tcpConnection \<Rightarrow> tcp_callback list" where
  "trace c = (if starting (phase c) then [] else [CbConnection (cid c) (remote c)])
     @ (if bound c \<and> \<not> binding (phase c) then [CbDeviceConnected (cid c) (cmac c)] else [])
     @ (if phase c = Finished
        then (if bound c then [CbDeviceDisconnected (cid c) (cmac c)] else []) @ [CbDisconnection (cid c) (cmac c) (remote c)]
        else [])"

definition count_inv :: "TCPServer \<Rightarrow> bool" where
  "count_inv s \<longleftrightarrow> limit s = tally holds_token (objects s) \<and> int (limit s) \<le> MaximumConnections (toptions s)
     \<and> waitGroup s = tally running (objects s) \<and> tactive s = of_nat (tally running (objects s))"

definition serve_inv :: "TCPServer \<Rightarrow> bool" where
  "serve_inv s \<longleftrightarrow> (\<forall>p < length (objects s). starting (phase (objects s ! p)) \<longleftrightarrow> serving s = Starting p)
     \<and> (\<forall>p. serving s = Starting p \<longrightarrow> p < length (objects s))
     \<and> (\<forall>p < length (objects s). (starting (phase (objects s ! p)) \<longrightarrow> \<not> bound (objects s ! p))
          \<and> (binding (phase (objects s ! p)) \<longrightarrow> bound (objects s ! p)))"

definition conn_inv :: "TCPServer \<Rightarrow> bool" where
  "conn_inv s \<longleftrightarrow> nextID s = of_nat (length (objects s))
     \<and> (\<forall>p < length (objects s). cid (objects s ! p) = of_nat (p + 1))
     \<and> (\<forall>i p. map_of (connections s) i = Some p \<longleftrightarrow>
          p < length (objects s) \<and> cid (objects s ! p) = i \<and> listed (phase (objects s ! p)))"

definition mac_inv :: "TCPServer \<Rightarrow> bool" where
  "mac_inv s \<longleftrightarrow> (\<forall>m p. map_of (byMAC s) m = Some p \<longrightarrow>
     p < length (objects s) \<and> bound (objects s ! p) \<and> cmac (objects s ! p) = m \<and> listed (phase (objects s ! p)))"

definition trace_inv :: "TCPServer \<Rightarrow> bool" where
  "trace_inv s \<longleftrightarrow> (\<forall>p < length (objects s).
     filter (\<lambda>cb. cb_conn cb = cid (objects s ! p)) (callbacks s) = trace (objects s ! p))
   \<and> (\<forall>cb \<in> set (callbacks s). cb_conn cb \<in> cid ` set (objects s))"

definition tcp_inv :: "TCPServer \<Rightarrow> bool" where
  "tcp_inv s \<longleftrightarrow> count_inv s \<and> serve_inv s \<and> conn_inv s \<and> mac_inv s \<and> trace_inv s"

lemmas tcp_inv_defs = tcp_inv_def count_inv_def serve_inv_def conn_inv_def mac_inv_def trace_inv_def

text \<open>Numbers identify objects as long as fewer than \<open>2^64\<close> connections have been made.\<close>

lemma cid_unique:
  assumes "conn_inv s" "length (objects s) < 2 ^ 64" "p < length (objects s)" "q < length (objects s)"
    "cid (objects s ! p) = cid (objects s ! q)"
  shows "p = q"
proof -
  have "(of_nat (p + 1) :: u64) = of_nat (q + 1)" using assms by (simp add: conn_inv_def)
  moreover have "p + 1 < 2 ^ 64" "q + 1 < 2 ^ 64" using assms(2-4) by simp_all
  ultimately have "p + 1 = q + 1" by (simp add: word_of_nat_eq_iff take_bit_nat_eq_self)
  then show ?thesis by simp
qed

text \<open>The invariant looks neither at the network connections nor at which part of its loop a
  goroutine is in.\<close>

definition norm :: "conn_phase \<Rightarrow> conn_phase" where
  "norm ph = (case ph of Handling _ \<Rightarrow> Serving | Routing _ \<Rightarrow> Serving | Ending \<Rightarrow> Serving | _ \<Rightarrow> ph)"

lemma norm_simps [simp]:
  "holds_token (norm ph) = holds_token ph" "starting (norm ph) = starting ph" "running (norm ph) = running ph"
  "listed (norm ph) = listed ph" "binding (norm ph) = binding ph" "norm ph = Finished \<longleftrightarrow> ph = Finished"
  by (cases ph; simp add: norm_def phase_defs)+

definition strip :: "tcpConnection \<Rightarrow> tcpConnection" where
  "strip c = c\<lparr>conn := closed_reader, phase := norm (phase c)\<rparr>"

lemma strip_simps [simp]:
  "phase (strip c) = norm (phase c)" "cid (strip c) = cid c" "bound (strip c) = bound c" "cmac (strip c) = cmac c"
  "remote (strip c) = remote c" "trace (strip c) = trace c" "strip (c\<lparr>conn := x\<rparr>) = strip c"
  by (simp_all add: strip_def trace_def)

lemma strip_phase: "norm ph = norm (phase c) \<Longrightarrow> strip (c\<lparr>phase := ph\<rparr>) = strip c"
  by (cases c) (simp add: strip_def)

lemma strip_eqD:
  assumes "map strip xs = map strip ys"
  shows "length xs = length ys" "(\<And>ph. P (norm ph) = P ph) \<Longrightarrow> tally P xs = tally P ys" "cid ` set xs = cid ` set ys"
    "i < length ys \<Longrightarrow> starting (phase (xs ! i)) = starting (phase (ys ! i)) \<and> listed (phase (xs ! i)) = listed (phase (ys ! i))
      \<and> binding (phase (xs ! i)) = binding (phase (ys ! i))
      \<and> cid (xs ! i) = cid (ys ! i) \<and> bound (xs ! i) = bound (ys ! i)
      \<and> cmac (xs ! i) = cmac (ys ! i) \<and> trace (xs ! i) = trace (ys ! i)"
proof -
  show len: "length xs = length ys" using assms by (rule map_eq_imp_length_eq)
  have via: "map f xs = map f ys" if "\<And>c. f (strip c) = f c" for f :: "tcpConnection \<Rightarrow> 'b"
    using arg_cong [OF assms, of "map f"] that by (simp add: comp_def)
  show "tally P xs = tally P ys" if "\<And>ph. P (norm ph) = P ph"
  proof -
    have "map (\<lambda>c. P (phase c)) xs = map (\<lambda>c. P (phase c)) ys" by (rule via) (simp add: that)
    then have "length (filter id (map (\<lambda>c. P (phase c)) xs)) = length (filter id (map (\<lambda>c. P (phase c)) ys))"
      by (simp only:)
    then show ?thesis by (simp add: tally_def filter_map comp_def)
  qed
  show "cid ` set xs = cid ` set ys" using arg_cong [OF via [of cid], of set] by simp
  assume i: "i < length ys"
  have at: "f (xs ! i) = f (ys ! i)" if "\<And>c. f (strip c) = f c" for f :: "tcpConnection \<Rightarrow> 'b"
    using arg_cong [OF via [of f], of "\<lambda>zs. zs ! i"] that i len by simp
  show "starting (phase (xs ! i)) = starting (phase (ys ! i)) \<and> listed (phase (xs ! i)) = listed (phase (ys ! i))
      \<and> binding (phase (xs ! i)) = binding (phase (ys ! i))
      \<and> cid (xs ! i) = cid (ys ! i) \<and> bound (xs ! i) = bound (ys ! i)
      \<and> cmac (xs ! i) = cmac (ys ! i) \<and> trace (xs ! i) = trace (ys ! i)"
    using at [of "\<lambda>c. starting (phase c)"] at [of "\<lambda>c. listed (phase c)"] at [of "\<lambda>c. binding (phase c)"]
      at [of cid] at [of bound] at [of cmac] at [of trace] by simp
qed

lemma strip_close_conn [simp]: "map strip (close_conn q objs) = map strip objs"
proof (rule nth_equalityI)
  fix i
  assume "i < length (map strip (close_conn q objs))"
  then show "map strip (close_conn q objs) ! i = map strip objs ! i"
    by (cases "q = i") (simp_all add: close_conn_def)
qed (simp add: close_conn_def)

lemma strip_fold_close [simp]: "map strip (fold close_conn qs objs) = map strip objs"
  by (induction qs arbitrary: objs) simp_all

lemma strip_update_same: "strip c = strip (objs ! p) \<Longrightarrow> map strip (objs[p := c]) = map strip objs"
  by (metis list_update_id map_update)

lemma tcp_inv_cong:
  assumes "tcp_inv s" "map strip (objects s') = map strip (objects s)"
    "toptions s' = toptions s" "limit s' = limit s" "connections s' = connections s" "byMAC s' = byMAC s"
    "nextID s' = nextID s" "waitGroup s' = waitGroup s" "serving s' = serving s" "tactive s' = tactive s"
    "callbacks s' = callbacks s"
  shows "tcp_inv s'"
proof -
  note eq = strip_eqD [OF assms(2)]
  have "count_inv s'" using assms by (simp add: tcp_inv_defs eq)
  moreover have "serve_inv s'" using assms eq(4) by (simp add: tcp_inv_def serve_inv_def eq(1))
  moreover have "conn_inv s'" using assms eq(4) by (auto simp: tcp_inv_def conn_inv_def eq(1))
  moreover have "mac_inv s'" using assms eq(4) by (auto simp: tcp_inv_def mac_inv_def eq(1))
  moreover have "trace_inv s'" using assms eq(4) by (auto simp: tcp_inv_def trace_inv_def eq(1,3))
  ultimately show ?thesis by (simp add: tcp_inv_def)
qed

lemma tally_update:
  assumes "p < length objs"
  shows "tally P (objs[p := c]) + of_bool (P (phase (objs ! p))) = tally P objs + of_bool (P (phase c))"
proof -
  have split: "tally P (xs @ x # ys) = tally P xs + of_bool (P (phase x)) + tally P ys" for xs x ys
    by (simp add: tally_def)
  have "tally P objs = tally P (take p objs @ objs ! p # drop (Suc p) objs)"
    using id_take_nth_drop [OF assms] by simp
  moreover have "objs[p := c] = take p objs @ c # drop (Suc p) objs" using assms by (rule upd_conv_take_nth_drop)
  ultimately have "tally P (objs[p := c]) = tally P (take p objs) + of_bool (P (phase c)) + tally P (drop (Suc p) objs)"
    "tally P objs = tally P (take p objs) + of_bool (P (phase (objs ! p))) + tally P (drop (Suc p) objs)"
    by (simp_all only: split)
  then show ?thesis by simp
qed

lemma tally_append: "tally P (xs @ [c]) = tally P xs + of_bool (P (phase c))"
  by (simp add: tally_def)

text \<open>Steps inside the loop of a goroutine.\<close>

lemma serve_read_shape:
  assumes "serve_read p e s = Next s'"
  shows "p < length (objects s) \<and> phase (objects s ! p) = Serving
    \<and> (\<exists>nc a w ph. s' = set_phase p ph (s\<lparr>objects := (objects s)[p := (objects s ! p)\<lparr>conn := nc\<rparr>], tmalformed := a, twarnings := w\<rparr>)
      \<and> norm ph = Serving)"
proof -
  have p: "p < length (objects s)" "phase (objects s ! p) = Serving"
    using assms by (auto simp: serve_read_def at_phase_def split: if_splits)
  obtain r st nc where r: "tcp_readMessage e (conn (objects s ! p)) = Some (r, st, nc)"
    using assms p by (auto simp: serve_read_def at_phase_def split: option.splits)
  note eval = assms [unfolded serve_read_def] p r
  let ?s = "\<lambda>a w. s\<lparr>objects := (objects s)[p := (objects s ! p)\<lparr>conn := nc\<rparr>], tmalformed := a, twarnings := w\<rparr>"
  have "\<exists>a w ph. s' = set_phase p ph (?s a w) \<and> norm ph = Serving"
  proof (cases r)
    case (Inr m)
    then have "s' = set_phase p (Handling m) (?s (tmalformed s) (twarnings s))"
      using eval by (simp add: at_phase_def Let_def)
    moreover have "norm (Handling m) = Serving" by (simp add: norm_def)
    ultimately show ?thesis by (intro exI conjI)
  next
    case (Inl err)
    show ?thesis
    proof (cases "tctxDone s \<or> err = EOF \<or> err = NetErrClosed")
      case True
      then have "s' = set_phase p Ending (?s (tmalformed s) (twarnings s))"
        using eval Inl by (simp add: at_phase_def Let_def)
      moreover have "norm Ending = Serving" by (simp add: norm_def)
      ultimately show ?thesis by (intro exI conjI)
    next
      case False
      then have "s' = set_phase p (if st then Ending else Serving) (?s (tmalformed s + 1) (twarnings s @ [[err]]))"
        using eval Inl by (simp add: at_phase_def Let_def)
      moreover have "norm (if st then Ending else Serving) = Serving" by (simp add: norm_def)
      ultimately show ?thesis by (intro exI conjI)
    qed
  qed
  with p show ?thesis by (intro conjI) (assumption | elim exE conjE | intro exI conjI)+
qed

lemma set_phase_inv:
  assumes "tcp_inv s" "norm ph = norm (phase (objects s ! p))"
  shows "tcp_inv (set_phase p ph s)"
  using assms by (intro tcp_inv_cong [OF assms(1)]) (simp_all add: set_phase_def strip_update_same strip_phase)

lemma serve_read_inv:
  assumes "tcp_inv s" "serve_read p e s = Next s'"
  shows "tcp_inv s'"
proof -
  from serve_read_shape [OF assms(2)] obtain nc a w ph where p: "p < length (objects s)" "phase (objects s ! p) = Serving"
    and s': "s' = set_phase p ph (s\<lparr>objects := (objects s)[p := (objects s ! p)\<lparr>conn := nc\<rparr>], tmalformed := a, twarnings := w\<rparr>)"
    and ph: "norm ph = Serving" by (elim exE conjE)
  have "tcp_inv (s\<lparr>objects := (objects s)[p := (objects s ! p)\<lparr>conn := nc\<rparr>], tmalformed := a, twarnings := w\<rparr>)"
    by (rule tcp_inv_cong [OF assms(1)]) (simp_all add: strip_update_same)
  then show ?thesis unfolding s' using p ph by (intro set_phase_inv) (simp_all add: norm_def)
qed

lemma serve_route_inv:
  assumes "tcp_inv s" "serve_route route p ts s h = Next (s', h')"
  shows "tcp_inv s' \<and> tmessages s' = tmessages s + 1 \<and> (\<exists>m. h' = snd (route TransportTCP ts m h))"
proof -
  obtain m where m: "phase (objects s ! p) = Routing m"
    using assms(2) by (auto simp: serve_route_def split: if_splits conn_phase.splits)
  obtain w where "s' = set_phase p Serving (s\<lparr>tmessages := tmessages s + 1, twarnings := w\<rparr>)" "h' = snd (route TransportTCP ts m h)"
  proof (cases "ignored (fst (route TransportTCP ts m h))")
    case True
    then show thesis using assms(2) m that [of "twarnings s"]
      by (auto simp: serve_route_def Let_def split_beta split: if_splits)
  next
    case False
    then show thesis using assms(2) m that [of "twarnings s @ [fst (route TransportTCP ts m h)]"]
      by (auto simp: serve_route_def Let_def split_beta split: if_splits)
  qed
  moreover have "tcp_inv (s\<lparr>tmessages := tmessages s + 1, twarnings := w\<rparr>)" by (rule tcp_inv_cong [OF assms(1)]) simp_all
  ultimately show ?thesis
    using set_phase_inv [of "s\<lparr>tmessages := tmessages s + 1, twarnings := w\<rparr>" Serving p] m
    by (auto simp: norm_def set_phase_def)
qed

text \<open>Steps that change one object: how each part of the invariant follows.\<close>

lemma count_update:
  assumes "count_inv s" "p < length (objects s)" "objects s' = (objects s)[p := c]" "toptions s' = toptions s"
    and "limit s' + of_bool (holds_token (phase (objects s ! p))) = limit s + of_bool (holds_token (phase c))"
    and "waitGroup s' + of_bool (running (phase (objects s ! p))) = waitGroup s + of_bool (running (phase c))"
    and "tactive s' + of_bool (running (phase (objects s ! p))) = tactive s + of_bool (running (phase c))"
    and "holds_token (phase c) \<longrightarrow> holds_token (phase (objects s ! p))"
  shows "count_inv s'"
proof -
  note t = tally_update [OF assms(2), of _ c]
  have "limit s' = tally holds_token (objects s')"
    using assms(1,5) t [of holds_token] by (simp add: assms(3) count_inv_def)
  moreover have "int (limit s') \<le> MaximumConnections (toptions s')"
    using assms(1,5,8) by (auto simp: assms(4) count_inv_def of_bool_def split: if_splits)
  moreover have wg: "waitGroup s' = tally running (objects s')"
    using assms(1,6) t [of running] by (simp add: assms(3) count_inv_def)
  moreover have "tactive s' = of_nat (waitGroup s')"
  proof -
    have "(of_nat (waitGroup s' + of_bool (running (phase (objects s ! p)))) :: u64) = of_nat (waitGroup s + of_bool (running (phase c)))"
      by (simp only: assms(6))
    then have "of_nat (waitGroup s') + of_bool (running (phase (objects s ! p))) = tactive s + of_bool (running (phase c))"
      using assms(1) by (simp add: count_inv_def)
    then show ?thesis using assms(7) by (metis add_right_cancel)
  qed
  ultimately show ?thesis by (simp add: count_inv_def)
qed

lemma serve_update:
  assumes "serve_inv s" "p < length (objects s)" "objects s' = (objects s)[p := c]"
    and "starting (phase c) \<longleftrightarrow> serving s' = Starting p" "starting (phase c) \<longrightarrow> \<not> bound c" "binding (phase c) \<longrightarrow> bound c"
    and "\<And>q. q \<noteq> p \<Longrightarrow> serving s' = Starting q \<longleftrightarrow> serving s = Starting q"
  shows "serve_inv s'"
proof -
  have "q < length (objects s)" if "serving s' = Starting q" for q
    using assms(1,2) assms(7) [of q] that by (cases "q = p") (auto simp: serve_inv_def)
  then show ?thesis using assms by (auto simp: serve_inv_def nth_list_update)
qed

lemma connections_at:
  assumes "conn_inv s" "length (objects s) < 2 ^ 64" "p < length (objects s)"
  shows "map_of (connections s) (cid (objects s ! p)) = (if listed (phase (objects s ! p)) then Some p else None)"
proof (cases "map_of (connections s) (cid (objects s ! p))")
  case None
  moreover have "map_of (connections s) (cid (objects s ! p)) = Some p" if "listed (phase (objects s ! p))"
    using assms(1,3) that unfolding conn_inv_def by blast
  ultimately show ?thesis by auto
next
  case (Some q)
  then have q: "q < length (objects s)" "cid (objects s ! q) = cid (objects s ! p)" "listed (phase (objects s ! q))"
    using assms(1) by (simp_all add: conn_inv_def)
  then have "q = p" using cid_unique [OF assms(1,2) q(1) assms(3)] by simp
  then show ?thesis using Some q(3) by simp
qed

lemma conn_update:
  assumes "conn_inv s" "length (objects s) < 2 ^ 64" "p < length (objects s)" "objects s' = (objects s)[p := c]"
    "nextID s' = nextID s" "cid c = cid (objects s ! p)"
    and "map_of (connections s') = (map_of (connections s))(cid c := (if listed (phase c) then Some p else None))"
  shows "conn_inv s'"
proof -
  have "map_of (connections s') i = Some q \<longleftrightarrow>
      q < length (objects s') \<and> cid (objects s' ! q) = i \<and> listed (phase (objects s' ! q))" for i q
  proof (cases "q = p")
    case True
    have "\<not> map_of (connections s) i = Some p" if "i \<noteq> cid c"
      using assms(1,6) that by (auto simp: conn_inv_def)
    then show ?thesis using True assms(3,4,6) by (auto simp: assms(7))
  next
    case False
    have "\<not> (q < length (objects s) \<and> cid (objects s ! q) = cid c)"
      using False cid_unique [OF assms(1,2) _ assms(3), of q] assms(6) by auto
    then show ?thesis using False assms(1,4) by (auto simp: assms(7) conn_inv_def)
  qed
  then show ?thesis using assms by (auto simp: conn_inv_def nth_list_update)
qed

lemma mac_update:
  assumes "mac_inv s" "p < length (objects s)" "objects s' = (objects s)[p := c]"
    and "\<And>m q. q \<noteq> p \<Longrightarrow> map_of (byMAC s') m = Some q \<Longrightarrow> map_of (byMAC s) m = Some q"
    and "\<And>m. map_of (byMAC s') m = Some p \<Longrightarrow> bound c \<and> cmac c = m \<and> listed (phase c)"
  shows "mac_inv s'"
  unfolding mac_inv_def
proof (intro allI impI)
  fix m q
  assume q: "map_of (byMAC s') m = Some q"
  show "q < length (objects s') \<and> bound (objects s' ! q) \<and> cmac (objects s' ! q) = m \<and> listed (phase (objects s' ! q))"
  proof (cases "q = p")
    case True
    then show ?thesis using assms(2,3,5) q by simp
  next
    case False
    then show ?thesis using assms(1,3) assms(4) [OF False q] by (simp add: mac_inv_def)
  qed
qed

lemma trace_update:
  assumes "conn_inv s" "trace_inv s" "length (objects s) < 2 ^ 64" "p < length (objects s)" "objects s' = (objects s)[p := c]"
    "cid c = cid (objects s ! p)" "callbacks s' = callbacks s @ cbs"
    and "\<And>cb. cb \<in> set cbs \<Longrightarrow> cb_conn cb = cid c" "trace c = trace (objects s ! p) @ cbs"
  shows "trace_inv s'"
proof -
  have "filter (\<lambda>cb. cb_conn cb = cid (objects s' ! q)) (callbacks s') = trace (objects s' ! q)" if q: "q < length (objects s')" for q
  proof (cases "q = p")
    case True
    then show ?thesis using assms(2,4-9) by (simp add: trace_inv_def)
  next
    case False
    then have "cid (objects s ! q) \<noteq> cid c"
      using cid_unique [OF assms(1,3), of q p] q assms(4-6) by auto
    then have "filter (\<lambda>cb. cb_conn cb = cid (objects s ! q)) cbs = []"
      using assms(8) by (auto simp: filter_empty_conv)
    then show ?thesis using False q assms(2,5,7) by (simp add: trace_inv_def)
  qed
  moreover have "cid ` set (objects s') = cid ` set (objects s)"
  proof -
    have "map cid (objects s') = map cid (objects s)"
      using assms(4-6) by (metis list_update_id map_update)
    then show ?thesis by (metis list.set_map)
  qed
  moreover have "cid c \<in> cid ` set (objects s)" using assms(4,6) by simp
  ultimately show ?thesis using assms(2,7,8) by (auto simp: trace_inv_def)
qed

text \<open>The steps of \<open>startConnection\<close>.\<close>

lemma startConnection_acquire_inv:
  assumes "tcp_inv s" "length (objects s') < 2 ^ 64" "startConnection_acquire s = Next s'"
  shows "tcp_inv s'"
proof -
  obtain nc addr where acc: "serving s = Accepted nc addr"
    using assms(3) by (auto simp: startConnection_acquire_def split: serve_phase.splits)
  let ?c = "\<lparr>cid = nextID s + 1, conn = nc, remote = addr, cmac = zeroMAC, bound = False, phase = Registering\<rparr>"
  show ?thesis
  proof (cases "int (limit s) < MaximumConnections (toptions s)")
    case True
    let ?s = "s\<lparr>limit := limit s + 1, nextID := nextID s + 1, objects := objects s @ [?c], serving := Starting (length (objects s))\<rparr>"
    have s': "s' = ?s" using assms(3) acc True by (simp add: startConnection_acquire_def Let_def)
    have inv: "count_inv s" "serve_inv s" "conn_inv s" "mac_inv s" "trace_inv s" using assms(1) by (simp_all add: tcp_inv_def)
    have "count_inv ?s" using inv(1) True by (simp add: count_inv_def tally_append holds_token_def running_def starting_def)
    moreover have "serve_inv ?s"
      using inv(2) acc by (auto simp: serve_inv_def nth_append less_Suc_eq starting_def binding_def)
    moreover have "conn_inv ?s"
      using inv(3) by (auto simp: conn_inv_def nth_append less_Suc_eq listed_def)
    moreover have "mac_inv ?s" using inv(4) by (auto simp: mac_inv_def nth_append less_Suc_eq)
    moreover have "trace_inv ?s"
    proof -
      have "cid ?c \<notin> cid ` set (objects s)"
      proof
        assume "cid ?c \<in> cid ` set (objects s)"
        then obtain q where q: "q < length (objects s)" "cid (objects s ! q) = cid ?c" by (auto simp: in_set_conv_nth)
        then have "(of_nat (q + 1) :: u64) = of_nat (length (objects s) + 1)" using inv(3) by (simp add: conn_inv_def add.commute)
        moreover have "q + 1 < 2 ^ 64" "length (objects s) + 1 < 2 ^ 64" using assms(2) q(1) s' by simp_all
        ultimately have "q + 1 = length (objects s) + 1" by (simp add: word_of_nat_eq_iff take_bit_nat_eq_self)
        then show False using q(1) by simp
      qed
      moreover have "\<forall>cb \<in> set (callbacks s). cb_conn cb \<in> cid ` set (objects s)" using inv(5) by (simp add: trace_inv_def)
      ultimately have "filter (\<lambda>cb. cb_conn cb = cid ?c) (callbacks s) = []" by (intro filter_False) (metis (no_types))
      then show ?thesis
        using inv(5) by (auto simp: trace_inv_def nth_append less_Suc_eq trace_def starting_def)
    qed
    ultimately show ?thesis by (simp add: tcp_inv_def s')
  next
    case False
    then have "s' = s\<lparr>trejected := trejected s + 1, twarnings := twarnings s @ [[ErrText ''connection limit reached'']], serving := AtAccept\<rparr>"
      using assms(3) acc by (simp add: startConnection_acquire_def)
    then show ?thesis using assms(1) acc by (auto simp: tcp_inv_defs)
  qed
qed

lemma startConnection_register_inv:
  assumes "tcp_inv s" "length (objects s) < 2 ^ 64" "startConnection_register s = Next s'"
  shows "tcp_inv s'"
proof -
  obtain p where p: "serving s = Starting p" "phase (objects s ! p) = Registering"
    and s': "s' = s\<lparr>connections := AList.update (cid (objects s ! p)) p (connections s),
                    objects := (objects s)[p := (objects s ! p)\<lparr>phase := Registered\<rparr>]\<rparr>"
    using assms(3) by (auto simp: startConnection_register_def split: serve_phase.splits if_splits)
  have inv: "count_inv s" "serve_inv s" "conn_inv s" "mac_inv s" "trace_inv s" using assms(1) by (simp_all add: tcp_inv_def)
  have len: "p < length (objects s)" and unb: "\<not> bound (objects s ! p)"
    using inv(2) p by (auto simp: serve_inv_def starting_def)
  let ?c = "(objects s ! p)\<lparr>phase := Registered\<rparr>"
  have obj: "objects s' = (objects s)[p := ?c]" by (simp add: s')
  have "count_inv s'" by (rule count_update [OF inv(1) len obj]) (simp_all add: s' p phase_defs)
  moreover have "serve_inv s'" by (rule serve_update [OF inv(2) len obj]) (simp_all add: s' p unb phase_defs)
  moreover have "conn_inv s'" by (rule conn_update [OF inv(3) assms(2) len obj]) (simp_all add: s' update_conv' phase_defs)
  moreover have "mac_inv s'"
    by (rule mac_update [OF inv(4) len obj]) (use inv(4) unb in \<open>auto simp: s' mac_inv_def\<close>)
  moreover have "trace_inv s'"
    by (rule trace_update [OF inv(3,5) assms(2) len obj, of "[]"]) (simp_all add: s' p trace_def starting_def binding_def unb)
  ultimately show ?thesis by (simp add: tcp_inv_def)
qed

lemma startConnection_launch_inv:
  assumes "tcp_inv s" "length (objects s) < 2 ^ 64" "startConnection_launch s = Next s'"
  shows "tcp_inv s'"
proof -
  obtain p where p: "serving s = Starting p" "phase (objects s ! p) = Registered"
    and s': "s' = s\<lparr>tactive := tactive s + 1, ttotal := ttotal s + 1,
                    callbacks := callbacks s @ [CbConnection (cid (objects s ! p)) (remote (objects s ! p))],
                    waitGroup := waitGroup s + 1,
                    objects := (objects s)[p := (objects s ! p)\<lparr>phase := Serving\<rparr>], serving := AtAccept\<rparr>"
    using assms(3) by (auto simp: startConnection_launch_def split: serve_phase.splits if_splits)
  have inv: "count_inv s" "serve_inv s" "conn_inv s" "mac_inv s" "trace_inv s" using assms(1) by (simp_all add: tcp_inv_def)
  have len: "p < length (objects s)" and unb: "\<not> bound (objects s ! p)"
    using inv(2) p by (auto simp: serve_inv_def starting_def)
  let ?c = "(objects s ! p)\<lparr>phase := Serving\<rparr>"
  have obj: "objects s' = (objects s)[p := ?c]" by (simp add: s')
  have "map_of (connections s) (cid (objects s ! p)) = Some p"
    using connections_at [OF inv(3) assms(2) len] p by (simp add: listed_def)
  then have cs: "map_of (connections s') = (map_of (connections s))(cid ?c := (if listed (phase ?c) then Some p else None))"
    by (auto simp: s' listed_def)
  have "count_inv s'" by (rule count_update [OF inv(1) len obj]) (simp_all add: s' p phase_defs)
  moreover have "serve_inv s'" by (rule serve_update [OF inv(2) len obj]) (simp_all add: s' p unb phase_defs)
  moreover have "conn_inv s'" by (rule conn_update [OF inv(3) assms(2) len obj _ _ cs]) (simp_all add: s')
  moreover have "mac_inv s'"
    by (rule mac_update [OF inv(4) len obj]) (use inv(4) unb in \<open>auto simp: s' mac_inv_def\<close>)
  moreover have "trace_inv s'"
    by (rule trace_update [OF inv(3,5) assms(2) len obj, of "[CbConnection (cid (objects s ! p)) (remote (objects s ! p))]"])
      (simp_all add: s' p trace_def starting_def binding_def unb cb_conn_def)
  ultimately show ?thesis by (simp add: tcp_inv_def)
qed

text \<open>Binding and the end of a goroutine.\<close>

lemma bindConnection_lock_inv:
  assumes "tcp_inv s" "length (objects s) < 2 ^ 64" "p < length (objects s)" "phase (objects s ! p) = Handling m" "\<not> bound (objects s ! p)"
  shows "tcp_inv (bindConnection_lock p m s)"
proof -
  let ?s = "bindConnection_lock p m s" and ?mac = "MAC (Header m)"
  let ?c = "(objects s ! p)\<lparr>cmac := ?mac, bound := True, phase := Binding m (map_of (byMAC s) ?mac)\<rparr>"
  have inv: "count_inv s" "serve_inv s" "conn_inv s" "mac_inv s" "trace_inv s" using assms(1) by (simp_all add: tcp_inv_def)
  have obj: "objects ?s = (objects s)[p := ?c]" by (simp add: bindConnection_lock_def Let_def)
  have ns: "serving s \<noteq> Starting p" using inv(2) assms(3,4) by (auto simp: serve_inv_def starting_def)
  have "map_of (connections s) (cid (objects s ! p)) = Some p"
    using connections_at [OF inv(3) assms(2,3)] assms(4) by (simp add: listed_def)
  then have cs: "map_of (connections ?s) = (map_of (connections s))(cid ?c := (if listed (phase ?c) then Some p else None))"
    by (auto simp: bindConnection_lock_def Let_def listed_def)
  have np: "map_of (byMAC s) k \<noteq> Some p" for k using inv(4) assms(5) by (auto simp: mac_inv_def)
  have "count_inv ?s"
    by (rule count_update [OF inv(1) assms(3) obj]) (simp_all add: assms(4) bindConnection_lock_def Let_def phase_defs)
  moreover have "serve_inv ?s"
    by (rule serve_update [OF inv(2) assms(3) obj]) (simp_all add: ns bindConnection_lock_def Let_def phase_defs)
  moreover have "conn_inv ?s"
    by (rule conn_update [OF inv(3) assms(2,3) obj _ _ cs]) (simp_all add: bindConnection_lock_def Let_def)
  moreover have "mac_inv ?s"
    by (rule mac_update [OF inv(4) assms(3) obj])
      (auto simp: bindConnection_lock_def Let_def update_conv' np listed_def split: if_splits)
  moreover have "trace_inv ?s"
    by (rule trace_update [OF inv(3,5) assms(2,3) obj, of "[]"])
      (simp_all add: assms(4,5) trace_def starting_def binding_def bindConnection_lock_def Let_def)
  ultimately show ?thesis by (simp add: tcp_inv_def)
qed

lemma serve_handle_inv:
  assumes "tcp_inv s" "length (objects s) < 2 ^ 64" "serve_handle p s = Next s'"
  shows "tcp_inv s'"
proof -
  obtain m where m: "p < length (objects s)" "phase (objects s ! p) = Handling m"
    using assms(3) by (auto simp: serve_handle_def split: if_splits conn_phase.splits)
  consider "\<not> bound (objects s ! p)" "s' = bindConnection_lock p m s"
    | "s' = set_phase p Serving (s\<lparr>tmacMismatch := tmacMismatch s + 1, twarnings := twarnings s @ [[ErrText ''MAC mismatch'']]\<rparr>)"
    | "s' = set_phase p (Routing m) s"
    using assms(3) m by (auto simp: serve_handle_def split: if_splits)
  then show ?thesis
  proof cases
    case 1
    then show ?thesis using bindConnection_lock_inv [OF assms(1,2) m] by simp
  next
    case 2
    have "tcp_inv (s\<lparr>tmacMismatch := tmacMismatch s + 1, twarnings := twarnings s @ [[ErrText ''MAC mismatch'']]\<rparr>)"
      by (rule tcp_inv_cong [OF assms(1)]) simp_all
    then show ?thesis unfolding 2 by (rule set_phase_inv) (simp add: m norm_def)
  next
    case 3
    show ?thesis unfolding 3 by (rule set_phase_inv [OF assms(1)]) (simp add: m norm_def)
  qed
qed

lemma bindConnection_callback_inv:
  assumes "tcp_inv s" "length (objects s) < 2 ^ 64" "bindConnection_callback p s = Next s'"
  shows "tcp_inv s'"
proof -
  obtain m prev where p: "p < length (objects s)" "phase (objects s ! p) = Binding m prev"
    using assms(3) by (auto simp: bindConnection_callback_def split: if_splits conn_phase.splits)
  have inv: "count_inv s" "serve_inv s" "conn_inv s" "mac_inv s" "trace_inv s" using assms(1) by (simp_all add: tcp_inv_def)
  have b: "bound (objects s ! p)" using inv(2) p by (simp add: serve_inv_def binding_def)
  let ?cb = "CbDeviceConnected (cid (objects s ! p)) (cmac (objects s ! p))" and ?c = "(objects s ! p)\<lparr>phase := Routing m\<rparr>"
  let ?s = "s\<lparr>callbacks := callbacks s @ [?cb], objects := (objects s)[p := ?c]\<rparr>"
  have obj: "objects ?s = (objects s)[p := ?c]" by simp
  have ns: "serving s \<noteq> Starting p" using inv(2) p by (auto simp: serve_inv_def starting_def)
  have "map_of (connections s) (cid (objects s ! p)) = Some p"
    using connections_at [OF inv(3) assms(2) p(1)] p(2) by (simp add: listed_def)
  then have cs: "map_of (connections ?s) = (map_of (connections s))(cid ?c := (if listed (phase ?c) then Some p else None))"
    by (auto simp: listed_def)
  have "count_inv ?s" by (rule count_update [OF inv(1) p(1) obj]) (simp_all add: p phase_defs)
  moreover have "serve_inv ?s" by (rule serve_update [OF inv(2) p(1) obj]) (simp_all add: ns phase_defs)
  moreover have "conn_inv ?s" by (rule conn_update [OF inv(3) assms(2) p(1) obj _ _ cs]) simp_all
  moreover have "mac_inv ?s"
    by (rule mac_update [OF inv(4) p(1) obj]) (use inv(4) p in \<open>auto simp: mac_inv_def listed_def\<close>)
  moreover have "trace_inv ?s"
    by (rule trace_update [OF inv(3,5) assms(2) p(1) obj, of "[?cb]"]) (simp_all add: p b trace_def starting_def binding_def cb_conn_def)
  ultimately have good: "tcp_inv ?s" by (simp add: tcp_inv_def)
  define objs where "objs = (case prev of None \<Rightarrow> objects s | Some q \<Rightarrow> if q \<noteq> p then close_conn q (objects s) else objects s)"
  have s': "s' = s\<lparr>callbacks := callbacks s @ [?cb], objects := objs[p := (objs ! p)\<lparr>phase := Routing m\<rparr>]\<rparr>"
    using assms(3) p by (auto simp: bindConnection_callback_def set_phase_def objs_def Let_def split: option.splits)
  have "map strip objs = map strip (objects s)" by (simp add: objs_def split: option.splits)
  moreover have "objs ! p = objects s ! p" by (auto simp: objs_def close_conn_def split: option.splits)
  ultimately have "map strip (objs[p := (objs ! p)\<lparr>phase := Routing m\<rparr>]) = map strip ((objects s)[p := ?c])"
    by (simp add: map_update)
  then show ?thesis unfolding s' by (intro tcp_inv_cong [OF good]) simp_all
qed

lemma serve_end_inv:
  assumes "tcp_inv s" "length (objects s) < 2 ^ 64" "serve_end p s = Next s'"
  shows "tcp_inv s'"
proof -
  have p: "p < length (objects s)" "phase (objects s ! p) = Ending"
    using assms(3) by (auto simp: serve_end_def at_phase_def split: if_splits)
  have inv: "count_inv s" "serve_inv s" "conn_inv s" "mac_inv s" "trace_inv s" using assms(1) by (simp_all add: tcp_inv_def)
  let ?c = "(objects s ! p)\<lparr>conn := closed_reader, phase := Removed\<rparr>"
  have s': "objects s' = (objects s)[p := ?c]" "connections s' = AList.delete (cid (objects s ! p)) (connections s)"
    "byMAC s' = (if map_of (byMAC s) (cmac (objects s ! p)) = Some p then AList.delete (cmac (objects s ! p)) (byMAC s) else byMAC s)"
    "toptions s' = toptions s" "limit s' = limit s" "waitGroup s' = waitGroup s" "tactive s' = tactive s"
    "nextID s' = nextID s" "serving s' = serving s" "callbacks s' = callbacks s"
    using assms(3) p by (auto simp: serve_end_def at_phase_def set_phase_def removeConnection_def close_conn_def Let_def)
  have ns: "serving s \<noteq> Starting p" using inv(2) p by (auto simp: serve_inv_def starting_def)
  have macs: "map_of (byMAC s) k = Some q \<and> q \<noteq> p" if k: "map_of (byMAC s') k = Some q" for k q
  proof -
    have old: "map_of (byMAC s) k = Some q" "map_of (byMAC s) (cmac (objects s ! p)) = Some p \<Longrightarrow> k \<noteq> cmac (objects s ! p)"
      using k by (auto simp: s'(3) delete_conv' split: if_splits)
    moreover have "cmac (objects s ! p) = k" if "q = p" using inv(4) old(1) that by (simp add: mac_inv_def)
    ultimately show ?thesis by blast
  qed
  have "count_inv s'" by (rule count_update [OF inv(1) p(1) s'(1)]) (simp_all add: p s' phase_defs)
  moreover have "serve_inv s'" by (rule serve_update [OF inv(2) p(1) s'(1)]) (simp_all add: ns s' phase_defs)
  moreover have "conn_inv s'"
    by (rule conn_update [OF inv(3) assms(2) p(1) s'(1)]) (simp_all add: s' delete_conv' listed_def)
  moreover have "mac_inv s'" using macs by (intro mac_update [OF inv(4) p(1) s'(1)]) blast+
  moreover have "trace_inv s'"
    by (rule trace_update [OF inv(3,5) assms(2) p(1) s'(1), of "[]"]) (simp_all add: p s' trace_def starting_def binding_def)
  ultimately show ?thesis by (simp add: tcp_inv_def)
qed

lemma serve_finish_inv:
  assumes "tcp_inv s" "length (objects s) < 2 ^ 64" "serve_finish p s = Next s'"
  shows "tcp_inv s'"
proof -
  have p: "p < length (objects s)" "phase (objects s ! p) = Removed" and l: "0 < limit s"
    using assms(3) by (auto simp: serve_finish_def at_phase_def split: if_splits)
  have inv: "count_inv s" "serve_inv s" "conn_inv s" "mac_inv s" "trace_inv s" using assms(1) by (simp_all add: tcp_inv_def)
  let ?o = "objects s ! p"
  let ?c = "?o\<lparr>phase := Finished\<rparr>"
  let ?cbs = "(if bound ?o then [CbDeviceDisconnected (cid ?o) (cmac ?o)] else []) @ [CbDisconnection (cid ?o) (cmac ?o) (remote ?o)]"
  have s': "s' = s\<lparr>limit := limit s - 1, tactive := tactive s + NOT 0, callbacks := callbacks s @ ?cbs,
      waitGroup := waitGroup s - 1, objects := (objects s)[p := ?c]\<rparr>"
    using assms(3) p l by (simp add: serve_finish_def at_phase_def set_phase_def Let_def)
  have obj: "objects s' = (objects s)[p := ?c]" by (simp add: s')
  have ns: "serving s \<noteq> Starting p" using inv(2) p by (auto simp: serve_inv_def starting_def)
  have "waitGroup s + of_bool (running Finished) = tally running (objects s)" using inv(1) by (simp add: count_inv_def running_def)
  then have w: "0 < waitGroup s"
    using tally_update [OF p(1), of running ?c] p(2) by (simp add: running_def starting_def)
  have cs: "map_of (connections s') = (map_of (connections s))(cid ?c := (if listed (phase ?c) then Some p else None))"
    using connections_at [OF inv(3) assms(2) p(1)] p(2) by (auto simp: s' listed_def)
  have "count_inv s'" by (rule count_update [OF inv(1) p(1) obj]) (use l w in \<open>simp_all add: s' p phase_defs\<close>)
  moreover have "serve_inv s'" by (rule serve_update [OF inv(2) p(1) obj]) (simp_all add: ns s' phase_defs)
  moreover have "conn_inv s'" by (rule conn_update [OF inv(3) assms(2) p(1) obj _ _ cs]) (simp_all add: s')
  moreover have "mac_inv s'"
    by (rule mac_update [OF inv(4) p(1) obj]) (use inv(4) p in \<open>auto simp: s' mac_inv_def listed_def\<close>)
  moreover have "trace_inv s'"
    by (rule trace_update [OF inv(3,5) assms(2) p(1) obj, of ?cbs]) (auto simp: p s' trace_def starting_def binding_def cb_conn_def)
  ultimately show ?thesis by (simp add: tcp_inv_def)
qed

lemma map_outcome_Next: "map_outcome f x = Next y \<longleftrightarrow> (\<exists>z. x = Next z \<and> y = f z)"
  by (cases x) auto

lemmas tcp_ops = tcp_accept_def tcp_accept_error_def startConnection_acquire_def startConnection_register_def
  startConnection_launch_def serve_handle_def bindConnection_lock_def bindConnection_callback_def serve_end_def
  removeConnection_def serve_finish_def set_phase_def close_conn_def Let_def

lemma length_fold_close [simp]: "length (fold close_conn qs objs) = length objs"
  using strip_eqD(1) [OF strip_fold_close] .

text \<open>Objects are never given up, and only \<open>serve_route\<close> calls the handler.\<close>

lemma tcp_step_frame:
  assumes "tcp_step route ev s h = Next (s', h')"
  shows "length (objects s) \<le> length (objects s') \<and> toptions s' = toptions s
    \<and> ((tmessages s' = tmessages s \<and> h' = h) \<or> (\<exists>ts m. tmessages s' = tmessages s + 1 \<and> h' = snd (route TransportTCP ts m h)))"
proof (cases ev)
  case (TRead p e)
  then have "serve_read p e s = Next s'" "h' = h" using assms by (auto simp: tcp_step_def map_outcome_Next)
  with serve_read_shape [OF this(1)] show ?thesis by (auto simp: set_phase_def)
next
  case (TRoute p ts)
  then show ?thesis using assms
    by (auto simp: tcp_step_def serve_route_def set_phase_def Let_def split_beta split: conn_phase.splits if_splits)
qed (use assms in \<open>auto simp: tcp_step_def map_outcome_Next tcp_ops tcp_Close_cancel_def tcp_Close_sweep_def
       split: if_splits serve_phase.splits conn_phase.splits option.splits\<close>)

lemma tcp_step_inv:
  assumes "tcp_inv s" "tcp_step route ev s h = Next (s', h')" "length (objects s') < 2 ^ 64"
  shows "tcp_inv s'"
proof -
  have len: "length (objects s) < 2 ^ 64" using tcp_step_frame [OF assms(2)] assms(3) by simp
  note op = assms(2) [unfolded tcp_step_def]
  show ?thesis
  proof (cases ev)
    case (TAccept nc addr)
    then have "s' = s\<lparr>serving := Accepted nc addr\<rparr>" "serving s = AtAccept"
      using op by (auto simp: tcp_accept_def split: if_splits)
    then show ?thesis using assms(1) by (auto simp: tcp_inv_defs)
  next
    case (TAcceptError e)
    then have "s' = s\<lparr>serving := Returned\<rparr>" "serving s = AtAccept"
      using op by (auto simp: tcp_accept_error_def split: if_splits)
    then show ?thesis using assms(1) by (auto simp: tcp_inv_defs)
  next
    case TAcquire
    then have "startConnection_acquire s = Next s'" using op by (auto simp: map_outcome_Next)
    then show ?thesis using startConnection_acquire_inv [OF assms(1) assms(3)] by simp
  next
    case TRegister
    then show ?thesis using op startConnection_register_inv [OF assms(1) len] by (auto simp: map_outcome_Next)
  next
    case TLaunch
    then show ?thesis using op startConnection_launch_inv [OF assms(1) len] by (auto simp: map_outcome_Next)
  next
    case (TRead p e)
    then show ?thesis using op serve_read_inv [OF assms(1)] by (auto simp: map_outcome_Next)
  next
    case (THandle p)
    then show ?thesis using op serve_handle_inv [OF assms(1) len] by (auto simp: map_outcome_Next)
  next
    case (TBound p)
    then show ?thesis using op bindConnection_callback_inv [OF assms(1) len] by (auto simp: map_outcome_Next)
  next
    case (TRoute p ts)
    then show ?thesis using op serve_route_inv [OF assms(1), of route p ts h s' h'] by simp
  next
    case (TEnd p)
    then show ?thesis using op serve_end_inv [OF assms(1) len] by (auto simp: map_outcome_Next)
  next
    case (TFinish p)
    then show ?thesis using op serve_finish_inv [OF assms(1) len] by (auto simp: map_outcome_Next)
  next
    case TCancel
    then have s': "s' = s\<lparr>tctxDone := True, listenerClosed := True\<rparr>" using op by (auto simp: tcp_Close_cancel_def)
    show ?thesis unfolding s' by (rule tcp_inv_cong [OF assms(1)]) simp_all
  next
    case TSweep
    then have s': "s' = s\<lparr>objects := fold close_conn (map snd (connections s)) (objects s), closeSwept := True\<rparr>"
      using op by (auto simp: tcp_Close_sweep_def split: if_splits)
    show ?thesis unfolding s' by (rule tcp_inv_cong [OF assms(1)]) simp_all
  qed
qed

context counting_handler
begin

lemma tcp_exec_inv:
  assumes "tcp_exec route st evs st'" "tcp_inv (fst st)" "length (objects (fst st')) < 2 ^ 64"
  shows "tcp_inv (fst st') \<and> toptions (fst st') = toptions (fst st)
    \<and> handled (snd st') + tmessages (fst st) = handled (snd st) + tmessages (fst st')"
  using assms
proof induction
  case (tcp_start st)
  then show ?case by simp
next
  case (tcp_next st evs s h ev st')
  obtain s' h' where st': "st' = (s', h')" by (cases st')
  note frame = tcp_step_frame [OF tcp_next.hyps(2) [unfolded st']]
  have IH: "tcp_inv s" "toptions s = toptions (fst st)" "handled h + tmessages (fst st) = handled (snd st) + tmessages s"
    using tcp_next.IH tcp_next.prems st' frame by auto
  have "tcp_inv s'" using tcp_step_inv [OF IH(1) tcp_next.hyps(2) [unfolded st']] tcp_next.prems st' by simp
  then show ?case using frame IH route_counts st'
    by auto
qed

end

section \<open>Reading: equivalence and frames\<close>

lemma tcp_readMessage_ReadMessage:
  "map_option (\<lambda>(result, structural, c). (result, c)) (tcp_readMessage None c) = ReadMessage c"
  by (auto simp: tcp_readMessage_def ReadMessage_def split: prod.splits sum.splits option.splits Option.bind_splits)

lemma tcp_readMessage_header:
  assumes "length hb = 16" "stream c = hb @ rest"
  obtains c1 where "stream c1 = rest" "failure c1 = failure c"
    "tcp_readMessage e c = (case DecodeHeader (slice_of hb) of
        None \<Rightarrow> None
      | Some (Inl err) \<Rightarrow> Some (Inl err, True, c1)
      | Some (Inr header) \<Rightarrow>
          (case (if PayloadLength header > 0 then e else None) of
             Some err \<Rightarrow> Some (Inl err, True, c1)
           | None \<Rightarrow>
               (case io_ReadFull (unat (PayloadLength header)) c1 of
                  (Inl readErr, c2) \<Rightarrow> Some (Inl readErr, True, c2)
                | (Inr payload, c2) \<Rightarrow> map_option (\<lambda>m. (m, False, c2)) (DecodeMessage header (slice_of payload)))))"
proof
  let ?c1 = "snd (io_ReadFull MessageHeaderSize c)"
  show "stream ?c1 = rest" "failure ?c1 = failure c"
    using io_ReadFull_rest [of MessageHeaderSize c] assms by (simp_all add: MessageHeaderSize_def)
  have "io_ReadFull MessageHeaderSize c = (Inr hb, ?c1)"
    using io_ReadFull_eq [of MessageHeaderSize c] assms by (cases "io_ReadFull MessageHeaderSize c") (simp add: MessageHeaderSize_def)
  then show "tcp_readMessage e c = (case DecodeHeader (slice_of hb) of
        None \<Rightarrow> None
      | Some (Inl err) \<Rightarrow> Some (Inl err, True, ?c1)
      | Some (Inr header) \<Rightarrow>
          (case (if PayloadLength header > 0 then e else None) of
             Some err \<Rightarrow> Some (Inl err, True, ?c1)
           | None \<Rightarrow>
               (case io_ReadFull (unat (PayloadLength header)) ?c1 of
                  (Inl readErr, c2) \<Rightarrow> Some (Inl readErr, True, c2)
                | (Inr payload, c2) \<Rightarrow> map_option (\<lambda>m. (m, False, c2)) (DecodeMessage header (slice_of payload)))))"
    unfolding tcp_readMessage_def
    by (auto split: option.splits sum.splits prod.splits if_splits Option.bind_splits)
qed



section \<open>Properties of the TCP server\<close>

lemma NewTCPServer_inv: "NewTCPServer opts = Inr s \<Longrightarrow> tcp_inv s \<and> toptions s = opts \<and> tmessages s = 0"
  by (auto simp: NewTCPServer_def tcp_inv_defs tally_def split: if_splits)


text \<open>Executions from a list of events.\<close>

primrec tcp_run :: "'h MessageHandler \<Rightarrow> tcp_event list \<Rightarrow> TCPServer \<times> 'h \<Rightarrow> (TCPServer \<times> 'h) outcome" where
  "tcp_run route [] st = Next st"
| "tcp_run route (ev # evs) st = (case tcp_step route ev (fst st) (snd st) of Next st' \<Rightarrow> tcp_run route evs st' | x \<Rightarrow> x)"

lemma tcp_exec_append: "tcp_exec route st evs st' \<Longrightarrow> tcp_run route evs' st' = Next st'' \<Longrightarrow> tcp_exec route st (evs @ evs') st''"
proof (induction evs' arbitrary: evs st')
  case (Cons ev evs')
  obtain st1 where "tcp_step route ev (fst st') (snd st') = Next st1" "tcp_run route evs' st1 = Next st''"
    using Cons.prems(2) by (auto split: outcome.splits)
  then show ?case using Cons.IH [of "evs @ [ev]" st1] tcp_next [of route st evs "fst st'" "snd st'" ev st1] Cons.prems(1) by simp
qed simp

lemmas tcp_run_exec = tcp_exec_append [OF tcp_start, simplified]

definition demo_topts :: TCPServerOptions where
  "demo_topts = \<lparr>MaximumConnections = 2, PayloadDeadline = 5000000000\<rparr>"

definition demo_tcp :: TCPServer where
  "demo_tcp = \<lparr>toptions = demo_topts, tctxDone = False, listenerClosed = False, closeSwept = False, limit = 0,
     objects = [], connections = [], byMAC = [], nextID = 0, waitGroup = 0, serving = AtAccept,
     tactive = 0, ttotal = 0, trejected = 0, tmessages = 0, tmalformed = 0, tmacMismatch = 0,
     twarnings = [], callbacks = []\<rparr>"

lemma demo_tcp_new: "NewTCPServer demo_topts = Inr demo_tcp"
  by (simp add: NewTCPServer_def demo_topts_def demo_tcp_def)

text \<open>A connection on which one message without readings arrives, and then nothing more.\<close>

definition demo_reader :: Reader where
  "demo_reader = \<lparr>chunks = [headerBytesOf MessageTypeSensorData zeroMAC []], failure = EOF\<rparr>"

abbreviation "demo_keepalive \<equiv> canonical_message zeroMAC []"
abbreviation "demo_rest \<equiv> \<lparr>chunks = [], failure = EOF\<rparr>"

lemma demo_read: "tcp_readMessage e demo_reader = Some (Inr demo_keepalive, False, demo_rest)"
proof -
  let ?hb = "headerBytesOf MessageTypeSensorData zeroMAC []"
  have hd: "DecodeHeader (slice_of ?hb) = Some (Inr (Header demo_keepalive))" "PayloadLength (Header demo_keepalive) = 0"
    by (simp_all add: DecodeHeader_eq header_at_fields headerBytesOf_def MaximumPayloadSize_def canonical_message_def)
  have full: "io_ReadFull MessageHeaderSize demo_reader = (Inr ?hb, demo_rest)"
    by (simp add: io_ReadFull_def demo_reader_def MessageHeaderSize_def gather.simps)
  have "DecodeMessage (Header demo_keepalive) (slice_of []) = Some (Inr demo_keepalive)"
    by (simp add: DecodeMessage_eq) (simp add: canonical_message_def)
  then show ?thesis
    unfolding tcp_readMessage_def full by (simp add: hd io_ReadFull_def gather.simps)
qed

lemmas tcp_eval = tcp_step_def map_outcome_Next tcp_ops demo_read at_phase_def serve_read_def serve_route_def tcp_Close_cancel_def tcp_Close_sweep_def

lemma demo_tcp_accept:
  "tcp_exec route (demo_tcp, h) [TAccept demo_reader ''a'', TAcquire, TRegister, TLaunch]
     (demo_tcp\<lparr>limit := 1, nextID := 1, tactive := 1, ttotal := 1, waitGroup := 1, connections := [(1, 0)],
        objects := [\<lparr>cid = 1, conn = demo_reader, remote = ''a'', cmac = zeroMAC, bound = False, phase = Serving\<rparr>],
        callbacks := [CbConnection 1 ''a'']\<rparr>, h)"
  by (rule tcp_run_exec) (simp add: demo_tcp_def demo_topts_def tcp_eval)


section \<open>Races\<close>

lemma phase_close_conn [simp]: "p < length objs \<Longrightarrow> phase (close_conn q objs ! p) = phase (objs ! p)"
  by (cases "q = p") (simp_all add: close_conn_def)

lemma length_close_conn [simp]: "length (close_conn q objs) = length objs"
  by (simp add: close_conn_def)

lemma phase_fold_close [simp]: "p < length objs \<Longrightarrow> phase (fold close_conn qs objs ! p) = phase (objs ! p)"
  by (induction qs arbitrary: objs) simp_all

lemma serving_update: "phase (xs ! p) = Serving \<Longrightarrow> phase (xs ! q) \<noteq> Serving \<Longrightarrow> phase (xs[q := c] ! p) = Serving"
  by (cases "q = p") auto

text \<open>Only its own goroutine, by reading, moves a connection that waits for its peer.\<close>

lemma tcp_step_keeps_serving:
  assumes "tcp_step route ev s h = Next (s', h')" "p < length (objects s)" "phase (objects s ! p) = Serving" "\<And>e. ev \<noteq> TRead p e"
  shows "p < length (objects s') \<and> phase (objects s' ! p) = Serving"
proof (cases ev)
  case (TRead q e)
  then have "q \<noteq> p" "serve_read q e s = Next s'" using assms(1,4) by (auto simp: tcp_step_def map_outcome_Next)
  with serve_read_shape [OF this(2)] show ?thesis using assms(2,3) by (auto simp: set_phase_def)
next
  case (TRoute q ts)
  then have "\<exists>m. phase (objects s ! q) = Routing m" "objects s' = (objects s)[q := (objects s ! q)\<lparr>phase := Serving\<rparr>]"
    using assms(1) by (auto simp: tcp_step_def serve_route_def set_phase_def Let_def split_beta split: conn_phase.splits if_splits)
  then show ?thesis using assms(2,3) by (cases "q = p") auto
next
  case (TBound q)
  then have op: "bindConnection_callback q s = Next s'" using assms(1) by (auto simp: tcp_step_def map_outcome_Next)
  then have "q \<noteq> p" using assms(3) by (auto simp: bindConnection_callback_def split: if_splits)
  then show ?thesis using op assms(2,3)
    by (auto simp: bindConnection_callback_def set_phase_def Let_def split: if_splits conn_phase.splits option.splits)
next
  case (TEnd q)
  then have op: "serve_end q s = Next s'" "q \<noteq> p" using assms(1,3) by (auto simp: tcp_step_def map_outcome_Next serve_end_def at_phase_def split: if_splits)
  then show ?thesis using assms(2,3)
    by (auto simp: serve_end_def set_phase_def removeConnection_def Let_def split: if_splits)
qed (use assms in \<open>auto simp: tcp_step_def map_outcome_Next tcp_accept_def tcp_accept_error_def startConnection_acquire_def
       startConnection_register_def startConnection_launch_def serve_handle_def bindConnection_lock_def serve_finish_def at_phase_def
       set_phase_def Let_def tcp_Close_cancel_def tcp_Close_sweep_def nth_append intro!: serving_update
       split: if_splits serve_phase.splits conn_phase.splits\<close>)

lemma tcp_exec_keeps_serving:
  assumes "tcp_exec route st evs st'" "p < length (objects (fst st))" "phase (objects (fst st) ! p) = Serving"
    "\<And>e. TRead p e \<notin> set evs"
  shows "p < length (objects (fst st')) \<and> phase (objects (fst st') ! p) = Serving"
  using assms
proof induction
  case (tcp_next st evs s h ev st')
  obtain s' h' where st': "st' = (s', h')" by (cases st')
  show ?case using tcp_step_keeps_serving [OF tcp_next.hyps(2) [unfolded st']] tcp_next.IH tcp_next.prems st' by auto
qed simp

lemma running_waits:
  assumes "tcp_inv s" "p < length (objects s)" "phase (objects s ! p) = Serving"
  shows "waitGroup s \<noteq> 0"
proof -
  have "phase (objects s ! p) \<in> set (filter running (map phase (objects s)))"
    using assms(2,3) nth_mem [OF assms(2)] by (auto simp: running_def starting_def intro!: image_eqI [of _ phase "objects s ! p"])
  then have "tally running (objects s) \<noteq> 0" unfolding tally_def by (metis length_0_conv empty_iff list.set(1))
  then show ?thesis using assms(1) by (simp add: tcp_inv_defs)
qed



text \<open>How \<open>main.go\<close> connects the server's callbacks to the monitoring plugin.\<close>

definition monitor_calls :: "tcp_callback list \<Rightarrow> monitor_call list" where
  "monitor_calls cbs = concat (map (\<lambda>cb. case cb of
       CbDeviceConnected n mac \<Rightarrow> [Connected n mac]
     | CbDeviceDisconnected n mac \<Rightarrow> [Disconnected n mac]
     | _ \<Rightarrow> []) cbs)"

definition demo_rebind :: "tcp_event list" where
  "demo_rebind = [TAccept demo_reader ''a'', TAcquire, TRegister, TLaunch, TRead 0 None, THandle 0,
     TAccept demo_reader ''b'', TAcquire, TRegister, TLaunch, TRead 1 None, THandle 1,
     TBound 1, TBound 0, TRoute 0 0, TRoute 1 0, TRead 0 None, TEnd 0, TFinish 0]"

lemma closed_read: "tcp_readMessage e closed_reader = Some (Inl NetErrClosed, True, closed_reader)"
  by (simp add: tcp_readMessage_def closed_reader_def io_ReadFull_def gather.simps MessageHeaderSize_def)

lemma demo_rebind_run:
  "tcp_run (\<lambda>t ts m h. ([], h)) demo_rebind (demo_tcp, h) =
     Next (demo_tcp\<lparr>limit := 1, nextID := 2, tactive := 1, ttotal := 2, tmessages := 2, waitGroup := 1, connections := [(2, 1)],
        byMAC := [(zeroMAC, 1)],
        objects := [\<lparr>cid = 1, conn = closed_reader, remote = ''a'', cmac = zeroMAC, bound = True, phase = Finished\<rparr>,
          \<lparr>cid = 2, conn = demo_rest, remote = ''b'', cmac = zeroMAC, bound = True, phase = Serving\<rparr>],
        callbacks := [CbConnection 1 ''a'', CbConnection 2 ''b'', CbDeviceConnected 2 zeroMAC, CbDeviceConnected 1 zeroMAC,
          CbDeviceDisconnected 1 zeroMAC, CbDisconnection 1 zeroMAC ''a'']\<rparr>, h)"
  by (simp add: demo_rebind_def demo_tcp_def demo_topts_def tcp_eval closed_read ignored_def)

text \<open>
  C21. The monitoring plugin can lose a connected device. A device reconnects while its first connection
  is still being bound; because \<open>bindConnection\<close> reports to the plugin after it has released the mutex,
  the reports of the two connections can arrive in the other order, and when the replaced
  connection ends, the plugin shows the device as disconnected, although the TCP server has its new
  connection registered under its address and serves it.
\<close>

theorem TCP_monitor_race:
  "\<exists>s. tcp_exec (\<lambda>t ts m h. ([], h)) (demo_tcp, h) demo_rebind (s, h)
    \<and> map_of (byMAC s) zeroMAC = Some 1 \<and> phase (objects s ! 1) = Serving \<and> conn (objects s ! 1) \<noteq> closed_reader
    \<and> (\<exists>st. monitor_run (monitor_calls (callbacks s)) \<lparr>historyCapacity = 2, devices = [], events = newEventHub\<rparr> = Some st
         \<and> shown_connection st zeroMAC = None)"
proof -
  note x = tcp_run_exec [OF demo_rebind_run [of h]]
  have "\<exists>st. monitor_run [Connected 2 zeroMAC, Connected 1 zeroMAC, Disconnected 1 zeroMAC]
      \<lparr>historyCapacity = 2, devices = [], events = newEventHub\<rparr> = Some st \<and> shown_connection st zeroMAC = None"
    using monitor_run_spec [of 1 "\<lparr>historyCapacity = 2, devices = [], events = newEventHub\<rparr>"
        "[Connected 2 zeroMAC, Connected 1 zeroMAC, Disconnected 1 zeroMAC]"] NewMonitoringState_ok [OF demo_http_new]
    by (auto simp: connection_step_def demo_http_def)
  then obtain st where "monitor_run [Connected 2 zeroMAC, Connected 1 zeroMAC, Disconnected 1 zeroMAC]
      \<lparr>historyCapacity = 2, devices = [], events = newEventHub\<rparr> = Some st" "shown_connection st zeroMAC = None" by blast
  then show ?thesis
    by (intro exI conjI) (rule x, simp_all add: closed_reader_def monitor_calls_def del: monitor_run.simps)
qed

end
