(* ===== verification/Server.thy ===== *)
theory Server
  imports ConfigPoller Quarantine TcpServer
begin

text \<open>
  \<open>sensor-server/server.go\<close>: \<open>OpenServer\<close> builds the components in order and undoes what it has built when
  one of them fails; \<open>Close\<close> takes them down in the opposite order of the data flow; the goroutines of
  the running server share the router.

  The disk is seen as two file systems, the tree under the quarantine root and the tree under the data
  root, each with its own schedule of faults: the two components never touch each other's files. A
  configured root is one path component. Sockets are what \<open>OpenServer\<close> sees of them: whether they are open.
\<close>

section \<open>Opening\<close>

abbreviation (input) DefaultConfigPollInterval :: int where "DefaultConfigPollInterval \<equiv> 15 * Second"
abbreviation (input) DefaultUDPWorkerCount :: int where "DefaultUDPWorkerCount \<equiv> 4"
abbreviation (input) DefaultUDPQueueCapacity :: int where "DefaultUDPQueueCapacity \<equiv> 1024"

record ServerOptions =
  ConfigPollInterval :: int
  UDPWorkerCount :: int
  UDPQueueCapacity :: int
  OnSensorObservation_set :: bool

definition applyServerOptionDefaults :: "ServerOptions \<Rightarrow> ServerOptions" where
  "applyServerOptionDefaults opts =
     opts\<lparr>ConfigPollInterval := (if ConfigPollInterval opts \<le> 0 then DefaultConfigPollInterval else ConfigPollInterval opts),
          UDPWorkerCount := (if UDPWorkerCount opts \<le> 0 then DefaultUDPWorkerCount else UDPWorkerCount opts),
          UDPQueueCapacity := (if UDPQueueCapacity opts \<le> 0 then DefaultUDPQueueCapacity else UDPQueueCapacity opts)\<rparr>"

definition LoadConfigFile :: "string \<Rightarrow> config_file \<Rightarrow> go_error list + ConfigSnapshot" where
  "LoadConfigFile p f =
     (if p = [] then Inl [ErrText ''load configuration: empty path'']
      else if cfOpen f \<noteq> [] then Inl (cfOpen f)
      else case LoadConfig (cfDecoded f) (cfRest f) of
          Inl loadErr \<Rightarrow> Inl (errors_Join loadErr (cfClose f))
        | Inr snapshot \<Rightarrow> if cfClose f \<noteq> [] then Inl (cfClose f) else Inr snapshot)"

text \<open>What \<open>Listen\<close> and \<open>ListenPacket\<close> return, and the configuration file.\<close>

record Platform =
  pfConfig :: config_file
  pfListen :: "go_error list"
  pfListenPacket :: "go_error list"

datatype socket = Unopened | SockOpen | SockClosed

text \<open>What \<open>OpenServer\<close> has acquired, for the caller that gets an error instead of a server.\<close>

record Resources =
  rEngine :: "DataFile DataEngine option"
  rQuarantine :: "QuarantineWriter option"
  rListener :: socket
  rPacket :: socket

definition nothing :: Resources where
  "nothing = \<lparr>rEngine = None, rQuarantine = None, rListener = Unopened, rPacket = Unopened\<rparr>"

record Server =
  svConfig :: Config
  svRegistry :: ConfigRegistry
  svEngine :: "DataFile DataEngine"
  svQuarantine :: QuarantineWriter
  svRouter :: MessageRouter
  svTcp :: TCPServer
  svUdp :: UDPServer
  svPoller :: ConfigPoller

text \<open>The quarantine as the router's destination; the state is None once a write has panicked.\<close>

definition quarantine_sink :: "(QuarantineWriter \<times> FS) option UnknownMessageWriter" where
  "quarantine_sink u st =
     (case st of
        None \<Rightarrow> ([], None)
      | Some (w, fs) \<Rightarrow>
          (case WriteUnknownMessage [] u w fs of None \<Rightarrow> ([], None) | Some (e, w, fs) \<Rightarrow> (e, Some (w, fs))))"

text \<open>\<open>engine.Close()\<close> whose result nobody looks at: the engine is marked closed and the streams end.\<close>

definition close_engine :: "DataFile DataEngine \<Rightarrow> DataFile DataEngine" where
  "close_engine e = snd (engine_Close_begin e)"

definition cleanupStorage :: "DataFile DataEngine \<Rightarrow> QuarantineWriter \<Rightarrow> FS \<Rightarrow> Resources \<times> FS" where
  "cleanupStorage e w qfs =
     (let (_, w, qfs) = quarantine_Close w qfs
      in (nothing\<lparr>rEngine := Some (close_engine e), rQuarantine := Some w\<rparr>, qfs))"

definition quarantine_options :: "Config \<Rightarrow> QuarantineOptions" where
  "quarantine_options config =
     (DefaultQuarantineOptions [QuarantineRoot config])\<lparr>qRotationSize := RotationSize (cDataStream config)\<rparr>"

text \<open>The servers on the sockets, from the NewTCPServer call on; the storage has been opened and replayed.\<close>

definition OpenServer_listen :: "string \<Rightarrow> ServerOptions \<Rightarrow> Platform \<Rightarrow> Config \<Rightarrow> ConfigRegistry \<Rightarrow> MessageRouter
    \<Rightarrow> DataFile DataEngine \<Rightarrow> QuarantineWriter \<Rightarrow> FS \<Rightarrow> (go_error list + Server) \<times> Resources \<times> FS" where
  "OpenServer_listen configPath opts pf config reg router e w qfs =
     (let cleanup = cleanupStorage e w qfs in
      if pfListen pf \<noteq> [] then (Inl (pfListen pf), cleanup)
      else if pfListenPacket pf \<noteq> [] then
        (Inl (pfListenPacket pf), (fst cleanup)\<lparr>rListener := SockClosed\<rparr>, snd cleanup)
      else
        (case NewTCPServer \<lparr>TCPServerOptions.MaximumConnections = MaximumTCPConnections (cNetwork config),
                            TCPServerOptions.PayloadDeadline = NetworkConfig.PayloadDeadline (cNetwork config)\<rparr> of
           Inl err \<Rightarrow> (Inl err, (fst cleanup)\<lparr>rListener := SockClosed, rPacket := SockClosed\<rparr>, snd cleanup)
         | Inr tcp \<Rightarrow>
             (case NewUDPServer \<lparr>WorkerCount = UDPWorkerCount opts, UQueueCapacity = UDPQueueCapacity opts\<rparr> of
                Inl err \<Rightarrow> (Inl err, (fst cleanup)\<lparr>rListener := SockClosed, rPacket := SockClosed\<rparr>, snd cleanup)
              | Inr udp \<Rightarrow>
                  (case NewConfigPoller (Some reg) configPath \<lparr>Interval = ConfigPollInterval opts\<rparr> (pfConfig pf) of
                     Inl err \<Rightarrow> (Inl err, (fst cleanup)\<lparr>rListener := SockClosed, rPacket := SockClosed\<rparr>, snd cleanup)
                   | Inr poller \<Rightarrow>
                       (Inr \<lparr>svConfig = config, svRegistry = reg, svEngine = e, svQuarantine = w, svRouter = router,
                             svTcp = tcp, svUdp = udp, svPoller = poller\<rparr>,
                        \<lparr>rEngine = Some e, rQuarantine = Some w, rListener = SockOpen, rPacket = SockOpen\<rparr>, qfs)))))"

text \<open>The context is None when it is nil, and else gives its error at every message of the replay.\<close>

definition OpenServer :: "(u8 list \<Rightarrow> u8 list) \<Rightarrow> (nat \<Rightarrow> go_error list) option \<Rightarrow> string \<Rightarrow> ServerOptions \<Rightarrow> Platform
    \<Rightarrow> FS \<Rightarrow> FS \<Rightarrow> ((go_error list + Server) \<times> Resources \<times> FS \<times> FS) option" where
  "OpenServer slack ctx configPath opts pf qfs dfs =
     (case ctx of
        None \<Rightarrow> Some (Inl [ErrText ''open server: nil context''], nothing, qfs, dfs)
      | Some ctxErr \<Rightarrow>
          (let opts = applyServerOptionDefaults opts in
           case LoadConfigFile configPath (pfConfig pf) of
             Inl err \<Rightarrow> Some (Inl err, nothing, qfs, dfs)
           | Inr snapshot \<Rightarrow>
               (let config = snapshot_Config snapshot in
                case NewConfigRegistry (Some snapshot) of
                  Inl err \<Rightarrow> Some (Inl err, nothing, qfs, dfs)
                | Inr reg \<Rightarrow>
                    (let sink = engine_sink (NewFileDataStreamFactory [DataRoot config] (cDataStream config)) in do {
                       (r, qfs) \<leftarrow> OpenQuarantineWriter slack (quarantine_options config) qfs;
                       (case r of
                          Inl err \<Rightarrow> Some (Inl err, nothing\<lparr>rEngine := Some (close_engine NewDataEngine)\<rparr>, qfs, dfs)
                        | Inr w \<Rightarrow> do {
                            (err, _, w, qfs, e, dfs) \<leftarrow> ReplayQuarantine slack ctxErr sink reg w qfs (NewDataEngine, dfs);
                            if err \<noteq> [] then
                              (let (res, qfs) = cleanupStorage e w qfs in Some (Inl err, res, qfs, dfs))
                            else
                              (case NewMessageRouter (Some reg) (Some sink) (Some quarantine_sink) of
                                 Inl err \<Rightarrow> (let (res, qfs) = cleanupStorage e w qfs in Some (Inl err, res, qfs, dfs))
                               | Inr router \<Rightarrow>
                                   (let router = (if OnSensorObservation_set opts then router\<lparr>observed := Some []\<rparr> else router);
                                        (r, res, qfs) = OpenServer_listen configPath opts pf config reg router e w qfs
                                    in Some (r, res, qfs, dfs))) }) }))))"

section \<open>Nothing is left open\<close>

lemma closeSegment_qclosed: "closeSegment w fs = (e, w', fs') \<Longrightarrow> qclosed w' = qclosed w \<and> qfile w' = None"
  by (auto simp: closeSegment_def Let_def split: option.splits prod.splits)

lemma openSegment_qclosed: "openSegment w fs = (e, w', fs') \<Longrightarrow> qclosed w' = qclosed w"
  by (auto simp: openSegment_def split: sum.splits prod.splits)

lemma quarantine_rotate_qclosed: "quarantine_rotate w fs = (e, w', fs') \<Longrightarrow> qclosed w' = qclosed w"
  by (auto simp: quarantine_rotate_def Let_def dest!: closeSegment_qclosed openSegment_qclosed split: prod.splits if_splits)

lemma WriteUnknownMessage_qclosed: "WriteUnknownMessage c m w fs = Some (e, w', fs') \<Longrightarrow> qclosed w' = qclosed w"
  by (auto simp: WriteUnknownMessage_def Let_def dest!: quarantine_rotate_qclosed
      split: Option.bind_splits option.splits sum.splits prod.splits if_splits)

lemma quarantine_Close_closed:
  assumes "\<not> qclosed w" "quarantine_Close w fs = (e, w', fs')"
  shows "qclosed w' \<and> qfile w' = None"
  using assms closeSegment_qclosed [of "w\<lparr>qclosed := True\<rparr>" fs e w' fs'] by (auto simp: quarantine_Close_def)

text \<open>The replay keeps the writer open, and keeps whatever the data writer keeps.\<close>

lemma replayRecords_keeps:
  assumes "\<And>k ts v d. P d \<Longrightarrow> P (snd (dw k ts v d))"
  shows "P d \<Longrightarrow> replayRecords dw snap dev ts recs c d = (e, c', d') \<Longrightarrow> P d'"
proof (induction recs arbitrary: c d)
  case (Cons r recs)
  then show ?case using assms
    by (auto simp: Let_def split: option.splits prod.splits if_splits) (metis snd_conv)+
qed simp

lemma replayEntries_keeps:
  assumes "\<And>k ts v d. P d \<Longrightarrow> P (snd (dw k ts v d))"
  shows "P d \<Longrightarrow> replayEntries ctxErr dw snap entries c w fs d = Some (e, c', w', fs', d') \<Longrightarrow> P d' \<and> qclosed w' = qclosed w"
proof (induction entries arbitrary: c w fs d)
  case (Cons m entries)
  then show ?case using replayRecords_keeps [of P dw, OF assms]
    by (auto simp: Let_def dest!: WriteUnknownMessage_qclosed split: option.splits prod.splits if_splits Option.bind_splits) blast+
qed simp

lemma replaySegments_keeps:
  assumes "\<And>k ts v d. P d \<Longrightarrow> P (snd (dw k ts v d))"
  shows "P d \<Longrightarrow> replaySegments slack ctxErr dw snap ss c w fs d = Some (e, c', w', fs', d') \<Longrightarrow> P d' \<and> qclosed w' = qclosed w"
proof (induction ss arbitrary: c w fs d)
  case (Cons s ss)
  show ?case
  proof (cases "segSequence s \<ge> qsequence w")
    case True
    then show ?thesis using Cons by simp
  next
    case False
    obtain done1 fs1 where q: "quarantineSegmentComplete (segPath s) fs = (done1, fs1)" by (cases "quarantineSegmentComplete (segPath s) fs")
    show ?thesis
    proof (cases done1)
      case True
      then show ?thesis using Cons False q by simp
    next
      case no: False
      note run = Cons.prems(2) [simplified, simplified False q no, simplified]
      obtain r fs2 where r: "readQuarantineEntries slack (segPath s) fs1 = Some (r, fs2)"
        using run by (auto split: Option.bind_splits)
      show ?thesis
      proof (cases r)
        case (Inl x)
        then show ?thesis using run r Cons.prems(1) by simp
      next
        case (Inr es)
        then obtain e1 c1 w1 fs3 d1 where x: "replayEntries ctxErr dw snap es c w fs2 d = Some (e1, c1, w1, fs3, d1)"
          using run r by (auto split: Option.bind_splits)
        have k: "P d1" "qclosed w1 = qclosed w" using replayEntries_keeps [of P dw, OF assms Cons.prems(1) x] by simp_all
        obtain e2 fs4 where "markQuarantineSegmentComplete (segPath s) fs3 = (e2, fs4)"
          by (cases "markQuarantineSegmentComplete (segPath s) fs3")
        then show ?thesis using run r Inr x k Cons.IH [OF k(1)] by (auto split: if_splits)
      qed
    qed
  qed
qed simp

lemma ReplayQuarantine_keeps:
  assumes "\<And>k ts v d. P d \<Longrightarrow> P (snd (dw k ts v d))" "P d" "ReplayQuarantine slack ctxErr dw reg w fs d = Some (e, c', w', fs', d')"
  shows "P d' \<and> qclosed w' = qclosed w"
  using assms(2,3) replaySegments_keeps [of P dw, OF assms(1)]
  by (auto simp: ReplayQuarantine_def Let_def split: prod.splits sum.splits)

lemma engine_sink_open: "\<not> eclosed (fst d) \<Longrightarrow> \<not> eclosed (fst (snd (engine_sink f k ts v d)))"
  by (auto simp: engine_sink_def engine_WriteSensorData_def engine_stream_def put_stream_def
      split: outcome.splits prod.splits option.splits sum.splits if_splits)

lemma OpenQuarantineWriter_open:
  assumes "OpenQuarantineWriter slack opts fs = Some (Inr w, fs')"
  shows "\<not> qclosed w"
  using assms
  by (auto simp: OpenQuarantineWriter_def Let_def dest!: openSegment_qclosed
      split: Option.bind_splits sum.splits prod.splits if_splits)

text \<open>A validated configuration always gives a TCP and a UDP server.\<close>

lemma validateConfig_limits: "validateConfig c = [] \<Longrightarrow> validateLimits c = []"
  by (simp add: validateConfig_def split: if_splits)

lemma LoadConfig_network:
  assumes "LoadConfig d r = Inr s"
  shows "1 \<le> MaximumTCPConnections (cNetwork (snapshot_Config s))" "Second \<le> NetworkConfig.PayloadDeadline (cNetwork (snapshot_Config s))"
    "NetworkConfig.PayloadDeadline (cNetwork (snapshot_Config s)) \<le> Minute"
proof -
  obtain c where "NewConfigSnapshot c = Inr s" using LoadConfig_Inr [OF assms] by blast
  then have "validateLimits (snapshot_Config s) = []"
    using validateConfig_limits by (auto simp: NewConfigSnapshot_def Let_def snapshot_Config_def cloneConfig_def split: if_splits)
  then show "1 \<le> MaximumTCPConnections (cNetwork (snapshot_Config s))" "Second \<le> NetworkConfig.PayloadDeadline (cNetwork (snapshot_Config s))"
    "NetworkConfig.PayloadDeadline (cNetwork (snapshot_Config s)) \<le> Minute"
    by (auto simp: validateLimits_def Let_def split: if_splits)
qed

lemma LoadConfigFile_Inr: "LoadConfigFile p f = Inr s \<Longrightarrow> LoadConfig (cfDecoded f) (cfRest f) = Inr s \<and> p \<noteq> []"
  by (auto simp: LoadConfigFile_def split: if_splits sum.splits)

definition released :: "Resources \<Rightarrow> bool" where
  "released res \<longleftrightarrow> (case rEngine res of None \<Rightarrow> True | Some e \<Rightarrow> eclosed e)
     \<and> (case rQuarantine res of None \<Rightarrow> True | Some w \<Rightarrow> qclosed w \<and> qfile w = None)
     \<and> rListener res \<noteq> SockOpen \<and> rPacket res \<noteq> SockOpen"

lemma cleanupStorage_released:
  assumes "\<not> qclosed w"
  shows "released (fst (cleanupStorage e w qfs))"
    "released ((fst (cleanupStorage e w qfs))\<lparr>rListener := SockClosed\<rparr>)"
    "released ((fst (cleanupStorage e w qfs))\<lparr>rListener := SockClosed, rPacket := SockClosed\<rparr>)"
proof -
  obtain x w' qfs' where c: "quarantine_Close w qfs = (x, w', qfs')" by (cases "quarantine_Close w qfs")
  have "qclosed w' \<and> qfile w' = None" using quarantine_Close_closed [OF assms c] .
  moreover have "eclosed (close_engine e)" by (simp add: close_engine_def engine_Close_begin_def)
  ultimately show "released (fst (cleanupStorage e w qfs))"
    "released ((fst (cleanupStorage e w qfs))\<lparr>rListener := SockClosed\<rparr>)"
    "released ((fst (cleanupStorage e w qfs))\<lparr>rListener := SockClosed, rPacket := SockClosed\<rparr>)"
    using c by (simp_all add: cleanupStorage_def released_def nothing_def)
qed

lemma nothing_released: "released nothing" "released (nothing\<lparr>rEngine := Some (close_engine e)\<rparr>)"
  by (simp_all add: released_def nothing_def close_engine_def engine_Close_begin_def)

text \<open>The part after the replay fails only for the sockets and the poller.\<close>

lemma OpenServer_listen_cases:
  assumes "LoadConfigFile p (pfConfig pf) = Inr snap" "config = snapshot_Config snap" "\<not> qclosed w"
    and "OpenServer_listen p (applyServerOptionDefaults opts) pf config reg router e w qfs = (r, res, qfs')"
  shows "(\<exists>err. r = Inl err \<and> released res \<and> (pfListen pf \<noteq> [] \<or> pfListenPacket pf \<noteq> [] \<or> cfStat (pfConfig pf) = Inl err))
    \<or> (\<exists>sv. r = Inr sv \<and> svConfig sv = config \<and> svRegistry sv = reg \<and> svEngine sv = e \<and> svQuarantine sv = w \<and> svRouter sv = router
        \<and> tcp_inv (svTcp sv) \<and> udp_inv (svUdp sv)
        \<and> (\<exists>topts uopts. NewTCPServer topts = Inr (svTcp sv) \<and> NewUDPServer uopts = Inr (svUdp sv))
        \<and> res = \<lparr>rEngine = Some e, rQuarantine = Some w, rListener = SockOpen, rPacket = SockOpen\<rparr>)"
proof -
  note clean = cleanupStorage_released [OF assms(3), of e qfs]
  have p: "p \<noteq> []" and net: "LoadConfig (cfDecoded (pfConfig pf)) (cfRest (pfConfig pf)) = Inr snap"
    using LoadConfigFile_Inr [OF assms(1)] by simp_all
  obtain tcp where tcp: "NewTCPServer \<lparr>TCPServerOptions.MaximumConnections = MaximumTCPConnections (cNetwork config),
      TCPServerOptions.PayloadDeadline = NetworkConfig.PayloadDeadline (cNetwork config)\<rparr> = Inr tcp"
    using LoadConfig_network [OF net] assms(2) by (simp add: NewTCPServer_def)
  have udp_positive: "\<not> UDPWorkerCount (applyServerOptionDefaults opts) < 1" "\<not> UDPQueueCapacity (applyServerOptionDefaults opts) < 1"
    by (simp_all add: applyServerOptionDefaults_def)
  obtain udp where udp: "NewUDPServer \<lparr>WorkerCount = UDPWorkerCount (applyServerOptionDefaults opts),
      UQueueCapacity = UDPQueueCapacity (applyServerOptionDefaults opts)\<rparr> = Inr udp"
    using udp_positive by (simp add: NewUDPServer_def)
  have pos: "ConfigPollInterval (applyServerOptionDefaults opts) > 0" by (simp add: applyServerOptionDefaults_def)
  show ?thesis
    using assms(4) clean tcp udp p pos NewTCPServer_inv [OF tcp] NewUDPServer_inv [OF udp]
    by (auto simp: OpenServer_listen_def Let_def NewConfigPoller_def split: if_splits sum.splits prod.splits)
qed

lemma OpenServer_result:
  assumes "OpenServer slack ctx configPath opts pf qfs dfs = Some (r, res, qfs', dfs')"
  shows "case r of
      Inl err \<Rightarrow> released res
    | Inr sv \<Rightarrow> res = \<lparr>rEngine = Some (svEngine sv), rQuarantine = Some (svQuarantine sv), rListener = SockOpen, rPacket = SockOpen\<rparr>
        \<and> \<not> eclosed (svEngine sv) \<and> \<not> qclosed (svQuarantine sv)
        \<and> LoadConfigFile configPath (pfConfig pf) = Inr (registry_Snapshot (svRegistry sv))
        \<and> svConfig sv = snapshot_Config (registry_Snapshot (svRegistry sv)) \<and> registry (svRouter sv) = svRegistry sv
        \<and> tcp_inv (svTcp sv) \<and> udp_inv (svUdp sv)
        \<and> (\<exists>topts uopts. NewTCPServer topts = Inr (svTcp sv) \<and> NewUDPServer uopts = Inr (svUdp sv))
        \<and> router_Counters (svRouter sv) = zeroCounters"
proof (cases "ctx = None \<or> (\<exists>x. LoadConfigFile configPath (pfConfig pf) = Inl x)")
  case True
  then show ?thesis using assms nothing_released by (cases ctx) (auto simp: OpenServer_def Let_def)
next
  case False
  then obtain ctxErr snap where ctx: "ctx = Some ctxErr" and snap: "LoadConfigFile configPath (pfConfig pf) = Inr snap"
    by (cases "LoadConfigFile configPath (pfConfig pf)") auto
  let ?c = "snapshot_Config snap" and ?reg = "\<lparr>current = snap\<rparr>"
  let ?sink = "engine_sink (NewFileDataStreamFactory [DataRoot ?c] (cDataStream ?c))"
  note run = assms [unfolded OpenServer_def, simplified ctx snap option.case sum.case Let_def NewConfigRegistry_def]
  obtain q qfs1 where q: "OpenQuarantineWriter slack (quarantine_options ?c) qfs = Some (q, qfs1)"
    using run by (auto split: Option.bind_splits)
  show ?thesis
  proof (cases q)
    case (Inl x)
    then show ?thesis using run q nothing_released by auto
  next
    case (Inr w)
    obtain err k w1 qfs2 e dfs1 where rep: "ReplayQuarantine slack ctxErr ?sink ?reg w qfs1 (NewDataEngine, dfs) = Some (err, k, w1, qfs2, e, dfs1)"
      using run q Inr by (auto split: Option.bind_splits)
    have open_e: "\<not> eclosed e" and open_w: "\<not> qclosed w1"
      using ReplayQuarantine_keeps [of "\<lambda>d. \<not> eclosed (fst d)" ?sink, OF engine_sink_open _ rep] OpenQuarantineWriter_open q Inr
      by (auto simp: NewDataEngine_def)
    show ?thesis
    proof (cases "err = []")
      case False
      then show ?thesis using run q Inr rep cleanupStorage_released(1) [OF open_w, of e qfs2] by (auto simp: Let_def split_beta)
    next
      case True
      define router where "router = (if OnSensorObservation_set (applyServerOptionDefaults opts)
        then \<lparr>registry = ?reg, counters = zeroCounters, observed = Some []\<rparr> else \<lparr>registry = ?reg, counters = zeroCounters, observed = None\<rparr>)"
      have "OpenServer_listen configPath (applyServerOptionDefaults opts) pf ?c ?reg router e w1 qfs2 = (r, res, qfs')"
        using run q Inr rep True by (auto simp: router_def NewMessageRouter_def Let_def split_beta split: if_splits)
      from OpenServer_listen_cases [OF snap refl open_w this] open_e open_w snap show ?thesis
        by (auto simp: router_def registry_Snapshot_def router_Counters_def)
    qed
  qed
qed


definition demo_platform :: Platform where
  "demo_platform = \<lparr>pfConfig = demo_file 7, pfListen = [], pfListenPacket = []\<rparr>"

definition demo_soptions :: ServerOptions where
  "demo_soptions = \<lparr>ConfigPollInterval = 0, UDPWorkerCount = 0, UDPQueueCapacity = 0, OnSensorObservation_set = True\<rparr>"

definition demo_full_disk :: FS where
  "demo_full_disk = \<lparr>nodes = [], ops = 0, faults = (\<lambda>_. None)(0 := Some demo_full)\<rparr>"

lemma demo_load: "LoadConfigFile ''server.json'' (demo_file n) = Inr demo_snapshot"
  using demo_snapshot_new by (simp add: LoadConfigFile_def demo_file_def LoadConfig_def ensureJSONEnd_def NewConfigSnapshot_def)


section \<open>The running server\<close>

text \<open>
  \<open>start\<close> runs the poller and the two servers; all of them share the router, the quarantine and the engine.
  \<open>closePc\<close> is how far \<open>Close\<close> has come, which runs once whoever calls it: it cancels and closes the UDP
  server, then the TCP server, waits for the three goroutines, and closes the storage. \<open>quiet\<close> records
  whether \<open>Serve\<close> of the TCP server had no accepted connection in its hand when \<open>tcp.Close\<close> returned.
\<close>

datatype close_pc = NotClosing | UdpCancelled | UdpQueueClosed | UdpClosed | TcpCancelled | TcpSwept | TcpClosed | ServerClosed

type_synonym handler_state = "MessageRouter \<times> (DataFile DataEngine \<times> FS) \<times> (QuarantineWriter \<times> FS) option"

record System =
  sTcp :: TCPServer
  sUdp :: UDPServer
  sHandler :: handler_state
  sPoller :: ConfigPoller
  pollerDone :: bool
  closePc :: close_pc
  runErr :: "go_error list"
  serverCloseErr :: "go_error list"
  sWarnings :: "go_error list list"
  quiet :: bool

definition server_start :: "Server \<Rightarrow> FS \<Rightarrow> FS \<Rightarrow> System" where
  "server_start sv qfs dfs =
     \<lparr>sTcp = svTcp sv, sUdp = svUdp sv, sHandler = (svRouter sv, (svEngine sv, dfs), Some (svQuarantine sv, qfs)), sPoller = svPoller sv,
      pollerDone = False, closePc = NotClosing, runErr = [], serverCloseErr = [], sWarnings = [], quiet = False\<rparr>"

definition server_handler :: "Config \<Rightarrow> handler_state MessageHandler" where
  "server_handler config = router_handler (engine_sink (NewFileDataStreamFactory [DataRoot config] (cDataStream config))) quarantine_sink"

text \<open>\<open>fail\<close>: the first error is kept. The goroutine it starts for \<open>Close\<close> takes the steps of \<open>Close\<close> below, which any
  caller may start at any moment.\<close>

definition server_fail :: "go_error list \<Rightarrow> System \<Rightarrow> System" where
  "server_fail err s = s\<lparr>runErr := (if runErr s = [] then err else runErr s), sWarnings := sWarnings s @ [err]\<rparr>"

definition component_done :: "go_error list \<Rightarrow> System \<Rightarrow> System" where
  "component_done err s = (if err \<noteq> [] then server_fail err s else s)"

text \<open>The ends of the two \<open>Serve\<close> loops; a panic of \<open>Serve\<close> is recovered and reported like an error.\<close>

definition tcp_returns :: "go_error list \<Rightarrow> System \<Rightarrow> System outcome" where
  "tcp_returns err s =
     (case tcp_accept_error err (sTcp s) of
        Next (e, t) \<Rightarrow> Next (component_done e (s\<lparr>sTcp := t\<rparr>)) | Blocked \<Rightarrow> Blocked | Panic \<Rightarrow> Panic)"

definition udp_returns :: "go_error list \<Rightarrow> System \<Rightarrow> System outcome" where
  "udp_returns err s =
     (case udp_read_error err (sUdp s) of
        Next (e, u) \<Rightarrow> Next (component_done e (s\<lparr>sUdp := u\<rparr>)) | Blocked \<Rightarrow> Blocked | Panic \<Rightarrow> Panic)"

definition udp_panics :: "System \<Rightarrow> System outcome" where
  "udp_panics s =
     (if udp_enqueue SelSend (sUdp s) = Panic
      then Next (component_done [ErrText ''UDP server panic''] (s\<lparr>sUdp := (sUdp s)\<lparr>serveDone := True\<rparr>\<rparr>)) else Blocked)"

definition poller_ticks :: "config_file \<Rightarrow> System \<Rightarrow> System outcome" where
  "poller_ticks f s =
     (if pollerDone s then Blocked
      else (case sHandler s of (r, d, q) \<Rightarrow>
        (let (p, reg) = poller_tick f (sPoller s, registry r)
         in Next (s\<lparr>sPoller := p, sHandler := (r\<lparr>registry := reg\<rparr>, d, q)\<rparr>))))"

definition poller_returns :: "System \<Rightarrow> System outcome" where
  "poller_returns s = (if pollerDone s \<or> closePc s = NotClosing then Blocked else Next (s\<lparr>pollerDone := True\<rparr>))"

definition components_done :: "System \<Rightarrow> bool" where
  "components_done s \<longleftrightarrow> pollerDone s \<and> serveDone (sUdp s) \<and> serving (sTcp s) = Returned"

text \<open>\<open>Close\<close>, one step at a time; \<open>cerr\<close> is what closing the socket returns. The streams of the engine end
  on their own; \<open>engineErr\<close> is their joined result.\<close>

definition server_Close_step :: "go_error list \<Rightarrow> go_error list \<Rightarrow> System \<Rightarrow> System outcome" where
  "server_Close_step cerr engineErr s =
     (case closePc s of
        NotClosing \<Rightarrow> Next (s\<lparr>sUdp := udp_Close_cancel (sUdp s), closePc := UdpCancelled\<rparr>)
      | UdpCancelled \<Rightarrow> map_outcome (\<lambda>u. s\<lparr>sUdp := u, closePc := UdpQueueClosed\<rparr>) (udp_Close_queue (sUdp s))
      | UdpQueueClosed \<Rightarrow> map_outcome (\<lambda>e. s\<lparr>serverCloseErr := e, closePc := UdpClosed\<rparr>) (udp_Close_result cerr (sUdp s))
      | UdpClosed \<Rightarrow> Next (s\<lparr>sTcp := tcp_Close_cancel (sTcp s), closePc := TcpCancelled\<rparr>)
      | TcpCancelled \<Rightarrow> map_outcome (\<lambda>t. s\<lparr>sTcp := t, closePc := TcpSwept\<rparr>) (tcp_Close_sweep (sTcp s))
      | TcpSwept \<Rightarrow>
          map_outcome (\<lambda>e. s\<lparr>serverCloseErr := errors_Join (serverCloseErr s) e, closePc := TcpClosed,
              quiet := (serving (sTcp s) = AtAccept \<or> serving (sTcp s) = Returned)\<rparr>) (tcp_Close_result cerr (sTcp s))
      | TcpClosed \<Rightarrow>
          if \<not> components_done s then Blocked
          else (case sHandler s of
              (r, (e, dfs), Some (w, qfs)) \<Rightarrow>
                (let (qErr, w, qfs) = quarantine_Close w qfs
                 in Next (s\<lparr>sHandler := (r, (close_engine e, dfs), Some (w, qfs)),
                            serverCloseErr := errors_Join (runErr s) (errors_Join (serverCloseErr s) (errors_Join qErr engineErr)),
                            closePc := ServerClosed\<rparr>))
            | (r, (e, dfs), None) \<Rightarrow> Panic)
      | ServerClosed \<Rightarrow> Blocked)"

text \<open>\<open>Shutdown\<close> calls \<open>Close\<close> in a goroutine and returns its result, or the error of its context when the
  deadline comes first. \<open>Done\<close> is closed at the end of \<open>Close\<close>.\<close>

datatype shutdown_select = SelClosed | SelDeadline "go_error list"

definition server_Shutdown :: "shutdown_select \<Rightarrow> System \<Rightarrow> go_error list outcome" where
  "server_Shutdown c s =
     (case c of
        SelClosed \<Rightarrow> if closePc s = ServerClosed then Next (serverCloseErr s) else Blocked
      | SelDeadline ctxErr \<Rightarrow> Next ctxErr)"

definition server_Done :: "System \<Rightarrow> bool" where
  "server_Done s \<longleftrightarrow> closePc s = ServerClosed"

record ServerCounters =
  scTCP :: TCPServerCounters
  scUDP :: UDPServerCounters
  scRouter :: RouterCounters
  scDataStreams :: "(dataStreamKey \<times> DataStreamCounters) list"

definition server_Counters :: "DataFile RecordWriter \<Rightarrow> System \<Rightarrow> ServerCounters" where
  "server_Counters rw s =
     \<lparr>scTCP = tcp_Counters (sTcp s), scUDP = udp_Counters (sUdp s), scRouter = router_Counters (fst (sHandler s)),
      scDataStreams = engine_Counters rw (fst (fst (snd (sHandler s))))\<rparr>"

datatype sys_event =
    STcp tcp_event
  | SUdp udp_event
  | STcpReturns "go_error list"
  | SUdpReturns "go_error list"
  | SUdpPanics
  | SPoll config_file
  | SPollerReturns
  | SClose "go_error list" "go_error list"

text \<open>The steps that are \<open>Close\<close>'s, or the end of a component, are not taken by the servers themselves.\<close>

definition tcp_own :: "tcp_event \<Rightarrow> bool" where
  "tcp_own ev \<longleftrightarrow> (case ev of TCancel \<Rightarrow> False | TSweep \<Rightarrow> False | TAcceptError _ \<Rightarrow> False | _ \<Rightarrow> True)"

definition udp_own :: "udp_event \<Rightarrow> bool" where
  "udp_own ev \<longleftrightarrow> (case ev of UCancel \<Rightarrow> False | UCloseQueue \<Rightarrow> False | UReadError _ \<Rightarrow> False | _ \<Rightarrow> True)"

definition sys_step :: "Config \<Rightarrow> sys_event \<Rightarrow> System \<Rightarrow> System outcome" where
  "sys_step config ev s =
     (case ev of
        STcp e \<Rightarrow> if tcp_own e then map_outcome (\<lambda>(t, h). s\<lparr>sTcp := t, sHandler := h\<rparr>) (tcp_step (server_handler config) e (sTcp s) (sHandler s)) else Blocked
      | SUdp e \<Rightarrow> if udp_own e then map_outcome (\<lambda>(u, h). s\<lparr>sUdp := u, sHandler := h\<rparr>) (udp_step (server_handler config) e (sUdp s) (sHandler s)) else Blocked
      | STcpReturns e \<Rightarrow> tcp_returns e s
      | SUdpReturns e \<Rightarrow> udp_returns e s
      | SUdpPanics \<Rightarrow> udp_panics s
      | SPoll f \<Rightarrow> poller_ticks f s
      | SPollerReturns \<Rightarrow> poller_returns s
      | SClose a b \<Rightarrow> server_Close_step a b s)"

inductive sys_exec :: "Config \<Rightarrow> System \<Rightarrow> sys_event list \<Rightarrow> System \<Rightarrow> bool" for config where
  sys_start: "sys_exec config s [] s"
| sys_next: "sys_exec config s evs s' \<Longrightarrow> sys_step config ev s' = Next s'' \<Longrightarrow> sys_exec config s (evs @ [ev]) s''"

section \<open>The invariant of the running server\<close>

definition quarantine_state :: "bool \<Rightarrow> (QuarantineWriter \<times> FS) option \<Rightarrow> bool" where
  "quarantine_state b q = (case q of None \<Rightarrow> True | Some (w, qfs) \<Rightarrow> qclosed w = b)"

definition storage :: "bool \<Rightarrow> handler_state \<Rightarrow> bool" where
  "storage b h = (case h of (r, (e, dfs), q) \<Rightarrow> eclosed e = b \<and> quarantine_state b q)"

lemma engine_sink_eclosed: "eclosed (fst (snd (engine_sink f k ts v d))) = eclosed (fst d)"
  by (auto simp: engine_sink_def engine_WriteSensorData_def engine_stream_def put_stream_def
      split: outcome.splits prod.splits option.splits sum.splits if_splits)

lemma quarantine_sink_qclosed: "quarantine_state b q \<Longrightarrow> quarantine_state b (snd (quarantine_sink u q))"
  by (auto simp: quarantine_state_def quarantine_sink_def dest!: WriteUnknownMessage_qclosed split: option.splits prod.splits)

lemma routeRecords_keeps:
  assumes "\<And>k ts v d. P d \<Longrightarrow> P (snd (dw k ts v d))"
  shows "P d \<Longrightarrow> P (snd (snd (routeRecords dw snap mac dev t ts recs r d)))"
proof (induction recs arbitrary: r d)
  case (Cons rec recs)
  show ?case
  proof (cases "snapshot_Sensor snap (RecType rec)")
    case None
    then show ?thesis using Cons by (simp add: Let_def split_beta)
  next
    case (Some sensor)
    then show ?thesis
      using Cons.IH assms [OF Cons.prems] by (simp add: Let_def split_beta)
  qed
qed simp

lemma server_handler_storage:
  assumes "storage b h"
  shows "storage b (snd (server_handler config t ts m h))"
proof -
  obtain r d q where h: "h = (r, d, q)" by (cases h)
  have d: "eclosed (fst d) = b" and q: "quarantine_state b q"
    using assms by (simp_all add: storage_def h split_beta)
  have "eclosed (fst (snd (snd (routeRecords (engine_sink f) snap mac dev t ts recs r' d)))) = b" for f snap mac dev recs r'
    by (rule routeRecords_keeps [of "\<lambda>d. eclosed (fst d) = b"]) (simp_all add: engine_sink_eclosed d)
  then show ?thesis using d q quarantine_sink_qclosed [OF q]
    by (cases "snapshot_Device (registry_Snapshot (registry r)) (MAC (Header m))")
      (simp_all add: storage_def h server_handler_def router_handler_def Route_def Let_def split_beta)
qed

definition after_udp :: "close_pc \<Rightarrow> bool" where
  "after_udp pc \<longleftrightarrow> pc \<in> {UdpClosed, TcpCancelled, TcpSwept, TcpClosed, ServerClosed}"

definition after_tcp :: "close_pc \<Rightarrow> bool" where
  "after_tcp pc \<longleftrightarrow> pc \<in> {TcpClosed, ServerClosed}"

definition before_tcp :: "close_pc \<Rightarrow> bool" where
  "before_tcp pc \<longleftrightarrow> pc \<in> {NotClosing, UdpCancelled, UdpQueueClosed, UdpClosed}"

lemma pc_simps [simp]:
  "after_udp UdpClosed" "after_udp TcpCancelled" "after_udp TcpSwept" "after_udp TcpClosed" "after_udp ServerClosed"
  "\<not> after_udp NotClosing" "\<not> after_udp UdpCancelled" "\<not> after_udp UdpQueueClosed"
  "after_tcp TcpClosed" "after_tcp ServerClosed" "\<not> after_tcp NotClosing" "\<not> after_tcp UdpCancelled" "\<not> after_tcp UdpQueueClosed"
  "\<not> after_tcp UdpClosed" "\<not> after_tcp TcpCancelled" "\<not> after_tcp TcpSwept"
  "before_tcp NotClosing" "before_tcp UdpCancelled" "before_tcp UdpQueueClosed" "before_tcp UdpClosed"
  "\<not> before_tcp TcpCancelled" "\<not> before_tcp TcpSwept" "\<not> before_tcp TcpClosed" "\<not> before_tcp ServerClosed"
  by (simp_all add: after_udp_def after_tcp_def before_tcp_def)

definition udp_drained :: "UDPServer \<Rightarrow> bool" where
  "udp_drained u \<longleftrightarrow> connectionClosed u \<and> uqueueClosed u \<and> uqueue u = [] \<and> working u = []"

definition tcp_idle :: "TCPServer \<Rightarrow> bool" where
  "tcp_idle t \<longleftrightarrow> listenerClosed t \<and> (serving t = AtAccept \<or> serving t = Returned) \<and> waitGroup t = 0"

definition sys_inv :: "nat \<Rightarrow> System \<Rightarrow> bool" where
  "sys_inv n s \<longleftrightarrow> tcp_inv (sTcp s) \<and> udp_inv (sUdp s)
     \<and> Messages (router_Counters (fst (sHandler s))) = n + tmessages (sTcp s) + umessages (sUdp s)
     \<and> storage (closePc s = ServerClosed) (sHandler s)
     \<and> (closePc s \<noteq> NotClosing \<longrightarrow> connectionClosed (sUdp s))
     \<and> (closePc s = UdpQueueClosed \<longrightarrow> uqueueClosed (sUdp s))
     \<and> (after_udp (closePc s) \<longrightarrow> udp_drained (sUdp s))
     \<and> (before_tcp (closePc s) \<or> listenerClosed (sTcp s))
     \<and> (after_tcp (closePc s) \<and> quiet s \<longrightarrow> tcp_idle (sTcp s))
     \<and> (closePc s = ServerClosed \<longrightarrow> components_done s)"

text \<open>An idle TCP server stays idle: none of its steps can be taken.\<close>

lemma tcp_idle_stuck:
  assumes "tcp_inv t" "tcp_idle t" "tcp_own ev"
  shows "tcp_step route ev t h \<noteq> Next x"
proof -
  have "tally running (objects t) = 0" using assms(1,2) by (simp add: tcp_inv_def count_inv_def tcp_idle_def)
  then have none: "filter running (map phase (objects t)) = []" unfolding tally_def by (simp only: length_0_conv)
  have "\<not> running (phase (objects t ! p))" if "p < length (objects t)" for p
    using none nth_mem [OF that] by (auto simp: filter_empty_conv)
  moreover have "\<not> starting (phase (objects t ! p))" if "p < length (objects t)" for p
    using assms(1,2) that by (auto simp: tcp_inv_def serve_inv_def tcp_idle_def)
  ultimately have fin: "phase (objects t ! p) = Finished" if "p < length (objects t)" for p
    using that by (auto simp: running_def)
  show ?thesis
    using assms(2,3) fin
    by (cases ev) (auto simp: tcp_own_def tcp_idle_def tcp_step_def map_outcome_Next tcp_accept_def startConnection_acquire_def
        startConnection_register_def startConnection_launch_def serve_read_def serve_handle_def bindConnection_callback_def
        serve_route_def serve_end_def serve_finish_def at_phase_def split: if_splits)
qed

lemma udp_drained_step:
  assumes "udp_drained u" "udp_own ev" "udp_step route ev u h = Next (u', h')"
  shows "udp_drained u' \<and> umessages u' = umessages u \<and> h' = h"
  using assms
  by (cases ev) (auto simp: udp_drained_def udp_own_def udp_step_def map_outcome_Next udp_receive_def udp_enqueue_def udp_take_def
      udp_work_def split: if_splits udp_select.splits option.splits)

lemma udp_own_frame:
  assumes "udp_own ev" "udp_step route ev u h = Next (u', h')"
  shows "connectionClosed u' = connectionClosed u" "uqueueClosed u' = uqueueClosed u"
proof -
  have "connectionClosed u' = connectionClosed u \<and> uqueueClosed u' = uqueueClosed u"
    using assms
    by (cases ev) (auto simp: udp_own_def udp_step_def map_outcome_Next udp_receive_def udp_enqueue_def udp_take_def
        udp_work_def Let_def split: if_splits udp_select.splits option.splits list.splits sum.splits prod.splits)
  then show "connectionClosed u' = connectionClosed u" "uqueueClosed u' = uqueueClosed u" by simp_all
qed

lemma tcp_own_listener:
  assumes "tcp_own ev" "tcp_step route ev t h = Next (t', h')"
  shows "listenerClosed t' = listenerClosed t"
proof (cases ev)
  case (TRead p e)
  then have "serve_read p e t = Next t'" using assms(2) by (auto simp: tcp_step_def map_outcome_Next)
  from serve_read_shape [OF this] show ?thesis by (auto simp: set_phase_def)
next
  case (TRoute p ts)
  then show ?thesis using assms(2)
    by (auto simp: tcp_step_def serve_route_def set_phase_def Let_def split_beta split: conn_phase.splits if_splits)
qed (use assms in \<open>auto simp: tcp_own_def tcp_step_def map_outcome_Next tcp_ops
       split: if_splits serve_phase.splits conn_phase.splits option.splits\<close>)

lemma sys_invD:
  assumes "sys_inv n s"
  shows "tcp_inv (sTcp s)" "udp_inv (sUdp s)"
    "Messages (router_Counters (fst (sHandler s))) = n + tmessages (sTcp s) + umessages (sUdp s)"
    "storage (closePc s = ServerClosed) (sHandler s)"
    "closePc s \<noteq> NotClosing \<Longrightarrow> connectionClosed (sUdp s)"
    "closePc s = UdpQueueClosed \<Longrightarrow> uqueueClosed (sUdp s)"
    "after_udp (closePc s) \<Longrightarrow> udp_drained (sUdp s)"
    "before_tcp (closePc s) \<or> listenerClosed (sTcp s)"
    "after_tcp (closePc s) \<Longrightarrow> quiet s \<Longrightarrow> tcp_idle (sTcp s)"
    "closePc s = ServerClosed \<Longrightarrow> components_done s"
  using assms unfolding sys_inv_def by blast+

lemma udp_own_serveDone:
  assumes "udp_own ev" "udp_step route ev u h = Next (u', h')" "serveDone u"
  shows "serveDone u'"
  using assms
  by (cases ev) (auto simp: udp_own_def udp_step_def map_outcome_Next udp_receive_def udp_enqueue_def udp_take_def
      udp_work_def Let_def split: if_splits udp_select.splits option.splits list.splits sum.splits prod.splits)

lemma tcp_own_returned:
  assumes "tcp_own ev" "tcp_step route ev t h = Next (t', h')" "serving t = Returned"
  shows "serving t' = Returned"
proof (cases ev)
  case (TRead p e)
  then have "serve_read p e t = Next t'" using assms(2) by (auto simp: tcp_step_def map_outcome_Next)
  from serve_read_shape [OF this] show ?thesis using assms(3) by (auto simp: set_phase_def)
next
  case (TRoute p ts)
  then show ?thesis using assms(2,3)
    by (auto simp: tcp_step_def serve_route_def set_phase_def Let_def split_beta split: conn_phase.splits if_splits)
qed (use assms in \<open>auto simp: tcp_own_def tcp_step_def map_outcome_Next tcp_ops
       split: if_splits serve_phase.splits conn_phase.splits option.splits\<close>)

text \<open>Every step of the server keeps the invariant.\<close>

lemma server_handler_counts:
  "Messages (router_Counters (fst (snd (server_handler config t ts m h)))) = Messages (router_Counters (fst h)) + 1"
  unfolding server_handler_def by (rule rh.route_counts)

lemma sys_tcp_inv:
  assumes "sys_inv n s" "tcp_own ev" "tcp_step (server_handler config) ev (sTcp s) (sHandler s) = Next (t, h)" "length (objects t) < 2 ^ 64"
  shows "sys_inv n (s\<lparr>sTcp := t, sHandler := h\<rparr>)"
proof -
  note inv = sys_invD [OF assms(1)]
  have act: "\<not> (after_tcp (closePc s) \<and> quiet s)"
    using tcp_idle_stuck [OF inv(1) _ assms(2), of "server_handler config" "sHandler s" "(t, h)"] inv(9) assms(3) by blast
  have t: "tcp_inv t" by (rule tcp_step_inv [OF inv(1) assms(3,4)])
  have l: "listenerClosed t = listenerClosed (sTcp s)" by (rule tcp_own_listener [OF assms(2,3)])
  have h: "(tmessages t = tmessages (sTcp s) \<and> h = sHandler s)
      \<or> (\<exists>ts m. tmessages t = tmessages (sTcp s) + 1 \<and> h = snd (server_handler config TransportTCP ts m (sHandler s)))"
    using tcp_step_frame [OF assms(3)] by blast
  have st: "storage (closePc s = ServerClosed) h" using h server_handler_storage [OF inv(4)] inv(4) by auto
  have m: "Messages (router_Counters (fst h)) = n + tmessages t + umessages (sUdp s)"
    using h inv(3) by (auto simp: server_handler_counts)
  have "components_done (s\<lparr>sTcp := t, sHandler := h\<rparr>)" if "components_done s"
    using tcp_own_returned [OF assms(2,3)] that by (simp add: components_done_def)
  then show ?thesis unfolding sys_inv_def using inv(2,5-8,10) t l st m act by (intro conjI impI) simp_all
qed

lemma sys_udp_inv:
  assumes "sys_inv n s" "udp_own ev" "udp_step (server_handler config) ev (sUdp s) (sHandler s) = Next (u, h)"
  shows "sys_inv n (s\<lparr>sUdp := u, sHandler := h\<rparr>)"
proof -
  note inv = sys_invD [OF assms(1)]
  have u: "udp_inv u" and h: "(umessages u = umessages (sUdp s) \<and> h = sHandler s)
      \<or> (\<exists>t ts m. umessages u = umessages (sUdp s) + 1 \<and> h = snd (server_handler config t ts m (sHandler s)))"
    using udp_step_inv [OF inv(2) assms(3)] by blast+
  have st: "storage (closePc s = ServerClosed) h" using h server_handler_storage [OF inv(4)] inv(4) by auto
  have m: "Messages (router_Counters (fst h)) = n + tmessages (sTcp s) + umessages u"
    using h inv(3) by (auto simp: server_handler_counts)
  have "components_done (s\<lparr>sUdp := u, sHandler := h\<rparr>)" if "components_done s"
    using udp_own_serveDone [OF assms(2,3)] that by (simp add: components_done_def)
  moreover have "udp_drained u" if "udp_drained (sUdp s)" using udp_drained_step [OF that assms(2,3)] by simp
  ultimately show ?thesis unfolding sys_inv_def
    using inv(1,5-10) u st m udp_own_frame [OF assms(2,3)] by (intro conjI impI) simp_all
qed

lemma component_done_inv: "sys_inv n s \<Longrightarrow> sys_inv n (component_done e s)"
  by (simp add: component_done_def server_fail_def sys_inv_def components_done_def)

lemma sys_udp_done: "sys_inv n s \<Longrightarrow> sys_inv n (s\<lparr>sUdp := (sUdp s)\<lparr>serveDone := True\<rparr>\<rparr>)"
proof -
  assume inv: "sys_inv n s"
  have "udp_inv ((sUdp s)\<lparr>serveDone := True\<rparr>)" using sys_invD(2) [OF inv] by (auto simp: udp_inv_def)
  then show ?thesis using sys_invD [OF inv] unfolding sys_inv_def by (simp add: udp_drained_def components_done_def)
qed

lemma server_Close_step_inv:
  assumes "sys_inv n s" "server_Close_step cerr engineErr s = Next s'"
  shows "sys_inv n s'"
proof (cases "closePc s")
  case NotClosing
  have s': "s' = s\<lparr>sUdp := udp_Close_cancel (sUdp s), closePc := UdpCancelled\<rparr>"
    using assms(2) NotClosing by (simp add: server_Close_step_def)
  have "udp_inv (udp_Close_cancel (sUdp s))" using sys_invD(2) [OF assms(1)] by (auto simp: udp_inv_def udp_Close_cancel_def)
  then show ?thesis using sys_invD [OF assms(1)] NotClosing unfolding sys_inv_def s' by (simp add: udp_Close_cancel_def)
next
  case UdpCancelled
  then have s': "s' = s\<lparr>sUdp := (sUdp s)\<lparr>uqueueClosed := True\<rparr>, closePc := UdpQueueClosed\<rparr>" "ucancelled (sUdp s)"
    using assms(2) by (auto simp: server_Close_step_def map_outcome_Next udp_Close_queue_def split: if_splits)
  have "udp_inv ((sUdp s)\<lparr>uqueueClosed := True\<rparr>)" using sys_invD(2) [OF assms(1)] s'(2) by (auto simp: udp_inv_def)
  then show ?thesis using sys_invD [OF assms(1)] UdpCancelled unfolding sys_inv_def s' by simp
next
  case UdpQueueClosed
  then obtain e where s': "s' = s\<lparr>serverCloseErr := e, closePc := UdpClosed\<rparr>" "uqueue (sUdp s) = []" "working (sUdp s) = []"
    using assms(2) by (auto simp: server_Close_step_def map_outcome_Next udp_Close_result_def split: if_splits)
  then show ?thesis using sys_invD [OF assms(1)] UdpQueueClosed unfolding sys_inv_def s'(1) by (simp add: udp_drained_def)
next
  case UdpClosed
  have s': "s' = s\<lparr>sTcp := tcp_Close_cancel (sTcp s), closePc := TcpCancelled\<rparr>"
    using assms(2) UdpClosed by (simp add: server_Close_step_def)
  have "tcp_inv (tcp_Close_cancel (sTcp s))"
    by (rule tcp_inv_cong [OF sys_invD(1) [OF assms(1)]]) (simp_all add: tcp_Close_cancel_def)
  then show ?thesis using sys_invD [OF assms(1)] UdpClosed unfolding sys_inv_def s' by (simp add: tcp_Close_cancel_def)
next
  case TcpCancelled
  let ?t = "(sTcp s)\<lparr>objects := fold close_conn (map snd (connections (sTcp s))) (objects (sTcp s)), closeSwept := True\<rparr>"
  have s': "s' = s\<lparr>sTcp := ?t, closePc := TcpSwept\<rparr>"
    using assms(2) TcpCancelled by (auto simp: server_Close_step_def map_outcome_Next tcp_Close_sweep_def split: if_splits)
  have "tcp_inv ?t" by (rule tcp_inv_cong [OF sys_invD(1) [OF assms(1)]]) simp_all
  then show ?thesis using sys_invD [OF assms(1)] TcpCancelled unfolding sys_inv_def s' by simp
next
  case TcpSwept
  then obtain e where s': "s' = s\<lparr>serverCloseErr := errors_Join (serverCloseErr s) e, closePc := TcpClosed,
              quiet := (serving (sTcp s) = AtAccept \<or> serving (sTcp s) = Returned)\<rparr>" "waitGroup (sTcp s) = 0"
    using assms(2) by (auto simp: server_Close_step_def map_outcome_Next tcp_Close_result_def split: if_splits)
  then show ?thesis using sys_invD [OF assms(1)] TcpSwept unfolding sys_inv_def s'(1) by (simp add: tcp_idle_def)
next
  case TcpClosed
  obtain r d q where "sHandler s = (r, d, q)" by (cases "sHandler s")
  then obtain e dfs where h: "sHandler s = (r, (e, dfs), q)" by (cases d) simp
  obtain w qfs where q: "q = Some (w, qfs)" using assms(2) TcpClosed h by (cases q) (auto simp: server_Close_step_def split: if_splits)
  obtain x w' qfs' where c: "quarantine_Close w qfs = (x, w', qfs')" by (cases "quarantine_Close w qfs")
  have "\<not> qclosed w" using sys_invD(4) [OF assms(1)] TcpClosed h q by (simp add: storage_def quarantine_state_def)
  then have "qclosed w'" using quarantine_Close_closed [OF _ c] by simp
  then have st: "storage True (r, (close_engine e, dfs), Some (w', qfs'))"
    by (simp add: storage_def quarantine_state_def close_engine_def engine_Close_begin_def)
  have s': "s' = s\<lparr>sHandler := (r, (close_engine e, dfs), Some (w', qfs')),
      serverCloseErr := errors_Join (runErr s) (errors_Join (serverCloseErr s) (errors_Join x engineErr)), closePc := ServerClosed\<rparr>"
    and d: "components_done s" using assms(2) TcpClosed h q c by (auto simp: server_Close_step_def split: if_splits)
  then show ?thesis using sys_invD [OF assms(1)] TcpClosed st h unfolding sys_inv_def s' by (simp add: components_done_def)
next
  case ServerClosed
  then show ?thesis using assms by (simp add: server_Close_step_def)
qed

lemma sys_step_inv:
  assumes "sys_inv n s" "sys_step config ev s = Next s'" "length (objects (sTcp s')) < 2 ^ 64"
  shows "sys_inv n s'"
proof (cases ev)
  case (STcp e)
  then obtain t h where "tcp_step (server_handler config) e (sTcp s) (sHandler s) = Next (t, h)" "tcp_own e" "s' = s\<lparr>sTcp := t, sHandler := h\<rparr>"
    using assms(2) by (auto simp: sys_step_def map_outcome_Next split: if_splits)
  then show ?thesis using sys_tcp_inv [OF assms(1)] assms(3) by simp
next
  case (SUdp e)
  then obtain u h where "udp_step (server_handler config) e (sUdp s) (sHandler s) = Next (u, h)" "udp_own e" "s' = s\<lparr>sUdp := u, sHandler := h\<rparr>"
    using assms(2) by (auto simp: sys_step_def map_outcome_Next split: if_splits)
  then show ?thesis using sys_udp_inv [OF assms(1)] by simp
next
  case (STcpReturns e)
  then obtain x where s': "s' = component_done x (s\<lparr>sTcp := (sTcp s)\<lparr>serving := Returned\<rparr>\<rparr>)" and at: "serving (sTcp s) = AtAccept"
    using assms(2) by (auto simp: sys_step_def tcp_returns_def tcp_accept_error_def split: outcome.splits if_splits)
  have "tcp_inv ((sTcp s)\<lparr>serving := Returned\<rparr>)" using sys_invD(1) [OF assms(1)] at by (auto simp: tcp_inv_defs)
  then have "sys_inv n (s\<lparr>sTcp := (sTcp s)\<lparr>serving := Returned\<rparr>\<rparr>)"
    using sys_invD [OF assms(1)] unfolding sys_inv_def by (simp add: components_done_def tcp_idle_def)
  then show ?thesis unfolding s' by (rule component_done_inv)
next
  case (SUdpReturns e)
  then obtain x where s': "s' = component_done x (s\<lparr>sUdp := (sUdp s)\<lparr>serveDone := True\<rparr>\<rparr>)"
    using assms(2) by (auto simp: sys_step_def udp_returns_def udp_read_error_def split: outcome.splits if_splits)
  show ?thesis unfolding s' by (rule component_done_inv [OF sys_udp_done [OF assms(1)]])
next
  case SUdpPanics
  then have s': "s' = component_done [ErrText ''UDP server panic''] (s\<lparr>sUdp := (sUdp s)\<lparr>serveDone := True\<rparr>\<rparr>)"
    using assms(2) by (auto simp: sys_step_def udp_panics_def split: if_splits)
  show ?thesis unfolding s' by (rule component_done_inv [OF sys_udp_done [OF assms(1)]])
next
  case (SPoll f)
  obtain r d q where h: "sHandler s = (r, d, q)" by (cases "sHandler s")
  obtain p reg where s': "s' = s\<lparr>sPoller := p, sHandler := (r\<lparr>registry := reg\<rparr>, d, q)\<rparr>"
    using assms(2) SPoll h by (auto simp: sys_step_def poller_ticks_def Let_def split_beta split: if_splits)
  have "storage b (r\<lparr>registry := reg\<rparr>, d, q) = storage b (r, d, q)" for b by (simp add: storage_def split: prod.splits)
  then show ?thesis using sys_invD [OF assms(1)] h unfolding sys_inv_def s' by (simp add: components_done_def router_Counters_def)
next
  case SPollerReturns
  then have s': "s' = s\<lparr>pollerDone := True\<rparr>" using assms(2) by (auto simp: sys_step_def poller_returns_def split: if_splits)
  show ?thesis using sys_invD [OF assms(1)] unfolding sys_inv_def s' by (simp add: components_done_def)
next
  case (SClose a b)
  then show ?thesis using server_Close_step_inv [OF assms(1)] assms(2) by (simp add: sys_step_def)
qed

lemma sys_step_grows:
  assumes "sys_step config ev s = Next s'"
  shows "length (objects (sTcp s)) \<le> length (objects (sTcp s'))"
proof (cases ev)
  case (STcp e)
  then obtain t h where "tcp_step (server_handler config) e (sTcp s) (sHandler s) = Next (t, h)" "s' = s\<lparr>sTcp := t, sHandler := h\<rparr>"
    using assms by (auto simp: sys_step_def map_outcome_Next split: if_splits)
  then show ?thesis using tcp_step_frame by fastforce
next
  case (SClose a b)
  then show ?thesis using assms
    by (cases "closePc s") (auto simp: sys_step_def server_Close_step_def map_outcome_Next tcp_Close_cancel_def tcp_Close_sweep_def Let_def
        split: if_splits prod.splits option.splits)
qed (use assms in \<open>auto simp: sys_step_def map_outcome_Next tcp_returns_def tcp_accept_error_def udp_returns_def udp_panics_def
       component_done_def server_fail_def poller_ticks_def poller_returns_def Let_def split: if_splits outcome.splits prod.splits\<close>)

lemma sys_exec_inv:
  assumes "sys_exec config s0 evs s" "sys_inv n s0" "length (objects (sTcp s)) < 2 ^ 64"
  shows "sys_inv n s"
  using assms
proof induction
  case (sys_next s evs s' ev s'')
  then have "sys_inv n s'" using sys_step_grows [OF sys_next.hyps(2)] by simp
  then show ?case using sys_step_inv [OF _ sys_next.hyps(2)] sys_next.prems by simp
qed simp

lemma server_start_inv:
  assumes "OpenServer slack ctx configPath opts pf qfs dfs = Some (Inr sv, res, qfs1, dfs1)"
  shows "sys_inv 0 (server_start sv qfs1 dfs1)"
proof -
  note o = OpenServer_result [OF assms, simplified]
  have "tmessages (svTcp sv) = 0" "umessages (svUdp sv) = 0" using o NewTCPServer_inv NewUDPServer_inv by blast+
  then show ?thesis using o by (simp add: sys_inv_def server_start_def storage_def quarantine_state_def zeroCounters_def)
qed

section \<open>Properties of the running server\<close>

text \<open>
  C24. The whole server, in every interleaving of the poller, the goroutines of both servers, failures and
  \<open>Close\<close>: the router has counted exactly the messages the TCP and the UDP server handed to it. The
  quarantine and the data engine stay open until \<open>Close\<close> has finished, and when it has, the poller and both
  \<open>Serve\<close> loops have returned, the UDP queue and its workers are empty, and, provided that \<open>Serve\<close> of the TCP
  server had no accepted connection in its hand when \<open>tcp.Close\<close> returned, no connection is being served
  and none can be: nothing can reach the closed storage.
\<close>

theorem Server_close_order:
  assumes "OpenServer slack ctx configPath opts pf qfs dfs = Some (Inr sv, res, qfs1, dfs1)"
    and "sys_exec (svConfig sv) (server_start sv qfs1 dfs1) evs s" "length (objects (sTcp s)) < 2 ^ 64"
  shows "Messages (router_Counters (fst (sHandler s))) = tmessages (sTcp s) + umessages (sUdp s)
    \<and> storage (closePc s = ServerClosed) (sHandler s)
    \<and> (closePc s = ServerClosed \<longrightarrow> components_done s \<and> udp_drained (sUdp s)
        \<and> (quiet s \<longrightarrow> waitGroup (sTcp s) = 0
            \<and> (\<forall>ev x. tcp_own ev \<longrightarrow> tcp_step (server_handler (svConfig sv)) ev (sTcp s) (sHandler s) \<noteq> Next x)))"
proof -
  note inv = sys_invD [OF sys_exec_inv [OF assms(2) server_start_inv [OF assms(1)] assms(3)]]
  have "tcp_step (server_handler (svConfig sv)) ev (sTcp s) (sHandler s) \<noteq> Next x"
    if "closePc s = ServerClosed" "quiet s" "tcp_own ev" for ev x
    using tcp_idle_stuck [OF inv(1) _ that(3)] inv(9) that(1,2) by simp
  moreover have "waitGroup (sTcp s) = 0" if "closePc s = ServerClosed" "quiet s" using inv(9) that by (simp add: tcp_idle_def)
  ultimately show ?thesis using inv(3,4,7,10) by simp
qed

text \<open>A server that has just been opened on empty disks.\<close>

abbreviation demo_qroot :: string where "demo_qroot \<equiv> ''/tmp/quarantine''"

definition demo_sconf :: Config where "demo_sconf = snapshot_Config demo_snapshot"

lemma demo_sconf_simps:
  "QuarantineRoot demo_sconf = demo_qroot" "RotationSize (cDataStream demo_sconf) = 67108864"
  "MaximumTCPConnections (cNetwork demo_sconf) = 100" "NetworkConfig.PayloadDeadline (cNetwork demo_sconf) = 5000000000"
  by (simp_all add: demo_sconf_def snapshot_Config_def cloneConfig_def demo_snapshot_def applyConfigDefaults_def demo_config_def defaultDataStream_def)

definition demo_qw :: QuarantineWriter where
  "demo_qw = \<lparr>qoptions = quarantine_options demo_sconf, qfile = Some (qseg_path [demo_qroot] 1), qsequence = 1, qsize = 0, qclosed = False\<rparr>"

definition demo_qdisk :: "nat \<Rightarrow> FS" where
  "demo_qdisk n = \<lparr>nodes = [([demo_qroot], DirNode), (qseg_path [demo_qroot] 1, RegFile [])], ops = n, faults = \<lambda>_. None\<rparr>"

lemma demo_open_quarantine: "OpenQuarantineWriter slack (quarantine_options demo_sconf) demo_fs = Some (Inr demo_qw, demo_qdisk 3)"
proof -
  let ?d = "\<lparr>nodes = [([demo_qroot], DirNode)], ops = 1, faults = \<lambda>_. None\<rparr>"
  have root: "TrimSpace (path_string [demo_qroot]) \<noteq> []" by code_simp
  have mk: "fs_MkdirAll [demo_qroot] demo_fs = ([], ?d)"
    by (simp add: fs_MkdirAll_def fault_now_def tick_def lookup_def set_node_def)
  have disc: "discoverQuarantineSegments [demo_qroot] ?d = (Inr [], tick ?d)"
    by (simp add: discoverQuarantineSegments_def fs_ReadDir_def fault_now_def is_dir_def lookup_def entries_of_def)
  show ?thesis
    using root mk disc by (simp add: OpenQuarantineWriter_def quarantine_options_def DefaultQuarantineOptions_def demo_sconf_simps Let_def
        openSegment_def quarantine_segmentPath_def fs_OpenFile_def fault_now_def tick_def lookup_def is_dir_def set_node_def demo_qw_def
        demo_qdisk_def qseg_path_def)
qed

lemma demo_replay:
  "ReplayQuarantine slack ctxErr dw \<lparr>current = demo_snapshot\<rparr> demo_qw (demo_qdisk 3) d = Some ([], zeroReplay, demo_qw, demo_qdisk 4, d)"
proof -
  have "discoverQuarantineSegments [demo_qroot] (demo_qdisk 3) =
      (Inr [\<lparr>segSequence = 1, segPath = [demo_qroot, quarantineSegmentName 1]\<rparr>], demo_qdisk 4)"
    by (simp add: discoverQuarantineSegments_def fs_ReadDir_def fault_now_def is_dir_def lookup_def entries_of_def demo_qdisk_def tick_def
        qseg_path_def parseQuarantineSegmentName_name)
  then show ?thesis
    by (simp add: ReplayQuarantine_def demo_qw_def quarantine_options_def DefaultQuarantineOptions_def demo_sconf_simps)
qed

definition demo_server :: Server where
  "demo_server = \<lparr>svConfig = demo_sconf, svRegistry = \<lparr>current = demo_snapshot\<rparr>, svEngine = NewDataEngine, svQuarantine = demo_qw,
     svRouter = \<lparr>registry = \<lparr>current = demo_snapshot\<rparr>, counters = zeroCounters, observed = Some []\<rparr>,
     svTcp = \<lparr>toptions = \<lparr>MaximumConnections = MaximumTCPConnections (cNetwork demo_sconf), PayloadDeadline = NetworkConfig.PayloadDeadline (cNetwork demo_sconf)\<rparr>,
                tctxDone = False, listenerClosed = False, closeSwept = False, limit = 0,
                objects = [], connections = [], byMAC = [], nextID = 0, waitGroup = 0, serving = AtAccept,
                tactive = 0, ttotal = 0, trejected = 0, tmessages = 0, tmalformed = 0, tmacMismatch = 0,
                twarnings = [], callbacks = []\<rparr>,
     svUdp = \<lparr>uoptions = \<lparr>WorkerCount = 4, UQueueCapacity = 1024\<rparr>, ucancelled = False, connectionClosed = False, uqueue = [], uqueueClosed = False,
                inHand = None, serveDone = False, working = [], datagrams = 0, umessages = 0, umalformed = 0,
                udropped = 0, uwarnings = []\<rparr>,
     svPoller = \<lparr>cpath = ''server.json'', poptions = \<lparr>Interval = 15000000000\<rparr>, pobserved = fingerprint 7 100, OnError = [], OnReload = []\<rparr>\<rparr>"

lemma demo_open:
  "\<exists>res. OpenServer slack (Some ctxErr) ''server.json'' demo_soptions demo_platform demo_fs demo_fs
     = Some (Inr demo_server, res, demo_qdisk 4, demo_fs)"
proof -
  have opts: "applyServerOptionDefaults demo_soptions =
      \<lparr>ConfigPollInterval = 15000000000, UDPWorkerCount = 4, UDPQueueCapacity = 1024, OnSensorObservation_set = True\<rparr>"
    by (simp add: applyServerOptionDefaults_def demo_soptions_def)
  have stat: "cfStat (demo_file 7) = Inr (7, 100)" by (simp add: demo_file_def)
  show ?thesis
    by (simp add: OpenServer_def demo_platform_def demo_load NewConfigRegistry_def demo_sconf_def [symmetric] demo_open_quarantine
        demo_replay NewMessageRouter_def opts OpenServer_listen_def NewTCPServer_def demo_sconf_simps NewUDPServer_def NewConfigPoller_def stat
        demo_server_def Let_def)
qed

theorem Server_close_order_witness:
  "\<exists>s. sys_exec demo_sconf (server_start demo_server (demo_qdisk 4) demo_fs) [SPoll (demo_file 8), SClose [] []] s
    \<and> Messages (router_Counters (fst (sHandler s))) = tmessages (sTcp s) + umessages (sUdp s) \<and> storage False (sHandler s)"
proof -
  obtain res where op: "OpenServer (\<lambda>_. []) (Some (\<lambda>_. [])) ''server.json'' demo_soptions demo_platform demo_fs demo_fs
      = Some (Inr demo_server, res, demo_qdisk 4, demo_fs)" using demo_open by blast
  let ?s = "server_start demo_server (demo_qdisk 4) demo_fs"
  obtain s1 where s1: "sys_step demo_sconf (SPoll (demo_file 8)) ?s = Next s1" "closePc s1 = NotClosing" "objects (sTcp s1) = []"
    by (simp add: sys_step_def poller_ticks_def server_start_def demo_server_def Let_def split_beta)
  obtain s2 where s2: "sys_step demo_sconf (SClose [] []) s1 = Next s2" "closePc s2 = UdpCancelled" "objects (sTcp s2) = []"
    using s1 by (simp add: sys_step_def server_Close_step_def)
  have x: "sys_exec demo_sconf ?s [SPoll (demo_file 8), SClose [] []] s2"
    using sys_next [OF sys_next [OF sys_start s1(1)] s2(1)] by simp
  then show ?thesis using Server_close_order [OF op, of "[SPoll (demo_file 8), SClose [] []]" s2] s2
    by (auto simp: demo_server_def)
qed

primrec sys_run :: "Config \<Rightarrow> sys_event list \<Rightarrow> System \<Rightarrow> System outcome" where
  "sys_run config [] s = Next s"
| "sys_run config (ev # evs) s = (case sys_step config ev s of Next s' \<Rightarrow> sys_run config evs s' | x \<Rightarrow> x)"

lemma sys_exec_append: "sys_exec config s evs s' \<Longrightarrow> sys_run config evs' s' = Next s'' \<Longrightarrow> sys_exec config s (evs @ evs') s''"
proof (induction evs' arbitrary: evs s')
  case (Cons ev evs')
  obtain s1 where "sys_step config ev s' = Next s1" "sys_run config evs' s1 = Next s''"
    using Cons.prems(2) by (auto split: outcome.splits)
  then show ?case using Cons.IH [of "evs @ [ev]" s1] sys_next [OF Cons.prems(1)] by simp
qed simp

lemmas sys_run_exec = sys_exec_append [OF sys_start, simplified]

definition late_connection :: "Reader \<Rightarrow> string \<Rightarrow> sys_event list" where
  "late_connection nc addr =
     [STcp (TAccept nc addr)] @ replicate 6 (SClose [] []) @ [STcp TAcquire, STcp TRegister, STcp TLaunch,
      STcpReturns [NetErrClosed], SUdpReturns [NetErrClosed], SPollerReturns, SClose [] []]"

lemma engine_closed_takes_nothing:
  assumes "storage True (r, d, q)"
  shows "fst (snd (snd (server_handler config t ts m (r, d, q)))) = d"
proof -
  have c: "eclosed (fst d)" using assms by (simp add: storage_def split_beta)
  have sink: "snd (engine_sink f k ts' v d) = d" for f k ts' v
    using c by (simp add: engine_sink_def engine_WriteSensorData_def)
  have "snd (snd (routeRecords (engine_sink f) snap mac dev t ts recs r' d)) = d" for f snap mac dev recs r'
    by (rule routeRecords_keeps [of "\<lambda>x. x = d"]) (simp_all add: sink)
  then show ?thesis
    by (cases "snapshot_Device (registry_Snapshot (registry r)) (MAC (Header m))")
      (simp_all add: server_handler_def router_handler_def Route_def Let_def split_beta)
qed

lemma late_connection_run:
  "\<exists>s. sys_run demo_sconf (late_connection nc addr) (server_start demo_server (demo_qdisk 4) demo_fs) = Next s
    \<and> closePc s = ServerClosed \<and> serverCloseErr s = [] \<and> at_phase (sTcp s) 0 Serving \<and> conn (objects (sTcp s) ! 0) = nc
    \<and> length (objects (sTcp s)) = 1"
  by (simp add: late_connection_def numeral_eq_Suc server_start_def demo_server_def sys_step_def server_Close_step_def tcp_own_def udp_own_def
      tcp_eval udp_Close_cancel_def udp_Close_queue_def udp_Close_result_def tcp_Close_result_def errors_Is_def
      tcp_returns_def udp_returns_def udp_read_error_def poller_returns_def component_done_def components_done_def
      quarantine_Close_def closeSegment_def file_Sync_def file_Close_def demo_qw_def demo_qdisk_def fault_now_def tick_def errors_Join_def demo_sconf_simps)

text \<open>
  C30. \<open>Close\<close> can return, without an error, while a device is still being served. A connection that the TCP
  server has accepted and not yet registered when \<open>tcp.Close\<close> waits is not waited for: the wait group is
  empty, \<open>Close\<close> goes on, and the quarantine and the data engine are closed although the connection's
  goroutine then runs. Every reading it routes from there on reaches a closed engine, which keeps nothing of it.
\<close>

theorem Server_close_race:
  "\<exists>s. sys_exec demo_sconf (server_start demo_server (demo_qdisk 4) demo_fs) (late_connection nc addr) s
    \<and> closePc s = ServerClosed \<and> serverCloseErr s = [] \<and> storage True (sHandler s)
    \<and> at_phase (sTcp s) 0 Serving \<and> conn (objects (sTcp s) ! 0) = nc
    \<and> (\<forall>ts m. fst (snd (snd (server_handler demo_sconf TransportTCP ts m (sHandler s)))) = fst (snd (sHandler s)))"
proof -
  obtain s where s: "sys_run demo_sconf (late_connection nc addr) (server_start demo_server (demo_qdisk 4) demo_fs) = Next s"
    "closePc s = ServerClosed" "serverCloseErr s = []" "at_phase (sTcp s) 0 Serving" "conn (objects (sTcp s) ! 0) = nc"
    "length (objects (sTcp s)) = 1"
    using late_connection_run by blast
  note x = sys_run_exec [OF s(1)]
  obtain res where "OpenServer (\<lambda>_. []) (Some (\<lambda>_. [])) ''server.json'' demo_soptions demo_platform demo_fs demo_fs
      = Some (Inr demo_server, res, demo_qdisk 4, demo_fs)" using demo_open by blast
  from sys_exec_inv [OF x server_start_inv [OF this]] s(2,6) have st: "storage True (sHandler s)" using sys_invD(4) by fastforce
  obtain r d q where h: "sHandler s = (r, d, q)" by (cases "sHandler s")
  have "\<forall>ts m. fst (snd (snd (server_handler demo_sconf TransportTCP ts m (sHandler s)))) = fst (snd (sHandler s))"
    using engine_closed_takes_nothing st by (simp add: h)
  then show ?thesis using x s st by (intro exI [of _ s] conjI) assumption+
qed

end
