(* ===== verification/HttpServer.thy ===== *)
theory HttpServer
  imports Server
begin

text \<open>
  \<open>plugins/http/http-server.go\<close>: the HTTP plugin, which answers requests from the counters and the registry of
  the sensor server and from the monitoring state. A response is its status, its headers and the value that
  \<open>encoding/json\<close> is given to write. The patterns are matched as \<open>http.ServeMux\<close> does it: an exact path, or
  the subtree of a pattern that ends in a slash; a path that is not clean, or a subtree without its
  slash, is redirected.
\<close>

section \<open>Requests and responses\<close>

record CoreServer =
  coreCounters :: ServerCounters
  coreRegistry :: ConfigRegistry
  coreDone :: bool

definition core_of :: "DataFile RecordWriter \<Rightarrow> System \<Rightarrow> CoreServer" where
  "core_of rw s = \<lparr>coreCounters = server_Counters rw s, coreRegistry = registry (fst (sHandler s)), coreDone = server_Done s\<rparr>"

record StatusResponse =
  Status :: string
  Issues :: "string list"
  StatusCounters :: ServerCounters

datatype http_value =
    VHealth string "string list"
  | VStatus StatusResponse
  | VRooms "RoomSnapshot list"
  | VDevices "DeviceSnapshot list"
  | VDevice DeviceSnapshot
  | VReadings "Sample list"
  | VError string
  | VText string
  | VEmpty

record Response =
  Code :: nat
  Headers :: "(string \<times> string) list"
  Body :: http_value

abbreviation (input) StatusOK :: nat where "StatusOK \<equiv> 200"
abbreviation (input) StatusNoContent :: nat where "StatusNoContent \<equiv> 204"
abbreviation (input) StatusMovedPermanently :: nat where "StatusMovedPermanently \<equiv> 301"
abbreviation (input) StatusBadRequest :: nat where "StatusBadRequest \<equiv> 400"
abbreviation (input) StatusNotFound :: nat where "StatusNotFound \<equiv> 404"
abbreviation (input) StatusInternalServerError :: nat where "StatusInternalServerError \<equiv> 500"
abbreviation (input) StatusServiceUnavailable :: nat where "StatusServiceUnavailable \<equiv> 503"

definition writeJSON :: "nat \<Rightarrow> http_value \<Rightarrow> Response" where
  "writeJSON status value = \<lparr>Code = status, Headers = [(''Content-Type'', ''application/json'')], Body = value\<rparr>"

definition writeError :: "nat \<Rightarrow> string \<Rightarrow> Response" where
  "writeError status message = writeJSON status (VError (TrimSpace message))"

definition http_NotFound :: Response where
  "http_NotFound = \<lparr>Code = StatusNotFound, Headers = [(''Content-Type'', ''text/plain; charset=utf-8''), (''X-Content-Type-Options'', ''nosniff'')],
     Body = VText (''404 page not found'' @ [CHR 0x0A])\<rparr>"

section \<open>The status\<close>

definition stream_issue :: "dataStreamKey \<Rightarrow> string" where
  "stream_issue k = (case k of (floor, room, sensorType) \<Rightarrow>
     ''data stream '' @ FloorType_String floor @ ''/'' @ RoomType_String room @ ''/'' @ SensorType_String sensorType
       @ '' has write errors or dropped samples'')"

definition buildStatus :: "CoreServer \<Rightarrow> StatusResponse" where
  "buildStatus core =
     (let counters = coreCounters core;
          issues = (if coreDone core then [''sensor server is stopped''] else [])
            @ (if DataEngineFailures (scRouter counters) > 0 then [''sensor data writes have failed''] else [])
            @ (if QuarantineFailures (scRouter counters) > 0 then [''unknown message quarantine writes have failed''] else [])
            @ concat (map (\<lambda>(k, c). if Errors c > 0 \<or> Dropped c > 0 then [stream_issue k] else []) (scDataStreams counters));
          issues = sort issues
      in \<lparr>Status = (if issues \<noteq> [] then ''unhealthy'' else ''healthy''), Issues = issues, StatusCounters = counters\<rparr>)"

section \<open>The handlers\<close>

definition strings_Trim :: "char \<Rightarrow> string \<Rightarrow> string" where
  "strings_Trim c s = rev (dropWhile (\<lambda>x. x = c) (rev (dropWhile (\<lambda>x. x = c) s)))"

definition path_parts :: "string \<Rightarrow> string list" where
  "path_parts p = strings_Split (CHR ''/'') (strings_Trim (CHR ''/'') p)"

definition handle_health :: "CoreServer \<Rightarrow> Response" where
  "handle_health core =
     (let status = buildStatus core;
          code = (if Status status \<noteq> ''healthy'' then StatusServiceUnavailable else StatusOK)
      in writeJSON code (VHealth (Status status) (Issues status)))"

definition handle_status :: "CoreServer \<Rightarrow> Response" where
  "handle_status core = writeJSON StatusOK (VStatus (buildStatus core))"

definition handle_rooms :: "CoreServer \<Rightarrow> MonitoringState \<Rightarrow> Response" where
  "handle_rooms core state = writeJSON StatusOK (VRooms (state_Rooms (registry_Snapshot (coreRegistry core)) state))"

definition handle_room_devices :: "CoreServer \<Rightarrow> MonitoringState \<Rightarrow> string \<Rightarrow> Response" where
  "handle_room_devices core state p =
     (let parts = path_parts p in
      if length parts \<noteq> 6 \<or> parts ! 5 \<noteq> ''devices'' then http_NotFound
      else
        (let floor = parts ! 3; room = parts ! 4;
             filtered = filter (\<lambda>device. snFloor device = floor \<and> snRoom device = room) (state_Devices (registry_Snapshot (coreRegistry core)) state)
         in if filtered = [] then writeError StatusNotFound ''room not found'' else writeJSON StatusOK (VDevices filtered)))"

definition handle_devices :: "CoreServer \<Rightarrow> MonitoringState \<Rightarrow> string \<Rightarrow> Response" where
  "handle_devices core state p =
     (let parts = path_parts p in
      if length parts \<noteq> 4 \<and> (length parts \<noteq> 7 \<or> parts ! 4 \<noteq> ''sensors'' \<or> parts ! 6 \<noteq> ''readings'') then http_NotFound
      else case ParseMACAddress (parts ! 3) of
          Inl _ \<Rightarrow> writeError StatusBadRequest ''invalid MAC address''
        | Inr mac \<Rightarrow>
            if length parts = 4 then
              (case state_Device (registry_Snapshot (coreRegistry core)) mac state of
                 None \<Rightarrow> writeError StatusNotFound ''device not found''
               | Some device \<Rightarrow> writeJSON StatusOK (VDevice device))
            else
              (case ParseUint (parts ! 5) 16 of
                 None \<Rightarrow> writeError StatusBadRequest ''invalid sensor ID''
               | Some sensorID \<Rightarrow>
                   if sensorID = 0 then writeError StatusBadRequest ''invalid sensor ID''
                   else
                     (let snapshot = registry_Snapshot (coreRegistry core) in
                      case snapshot_Device snapshot mac of
                        None \<Rightarrow> writeError StatusNotFound ''device not found''
                      | Some _ \<Rightarrow>
                          (let sensorType = ToSensorType (of_nat sensorID) in
                           case snapshot_Sensor snapshot sensorType of
                             None \<Rightarrow> writeError StatusNotFound ''sensor not found''
                           | Some _ \<Rightarrow>
                               (let readings = (case Readings mac sensorType state of None \<Rightarrow> [] | Some found \<Rightarrow> found)
                                in writeJSON StatusOK (VReadings readings))))))"

section \<open>Routing\<close>

datatype http_route = RHealth | RStatus | REvents | RRooms | RRoomDevices | RDevices | RRedirect | RNone

text \<open>What \<open>path.Clean\<close> leaves alone: a rooted path without empty, dot and dot-dot elements (a slash may end it).\<close>

definition is_clean :: "string \<Rightarrow> bool" where
  "is_clean p \<longleftrightarrow> HasPrefix p ''/''
     \<and> list_all (\<lambda>c. c \<noteq> [] \<and> c \<noteq> ''.'' \<and> c \<noteq> ''..'') (butlast (strings_Split (CHR ''/'') (drop 1 p)))
     \<and> last (strings_Split (CHR ''/'') (drop 1 p)) \<noteq> ''.'' \<and> last (strings_Split (CHR ''/'') (drop 1 p)) \<noteq> ''..''"

definition mux_match :: "string \<Rightarrow> http_route" where
  "mux_match p =
     (if \<not> is_clean p then RRedirect
      else if p = ''/health'' then RHealth
      else if p = ''/api/v1/status'' then RStatus
      else if p = ''/api/v1/events'' then REvents
      else if p = ''/api/v1/rooms'' then RRooms
      else if HasPrefix p ''/api/v1/rooms/'' then RRoomDevices
      else if HasPrefix p ''/api/v1/devices/'' then RDevices
      else if p = ''/api/v1/devices'' then RRedirect
      else RNone)"

text \<open>None is the event stream, which has no single response; see \<open>handleEvents\<close>.\<close>

definition newHandler :: "CoreServer \<Rightarrow> MonitoringState \<Rightarrow> string \<Rightarrow> Response option" where
  "newHandler core state p =
     (case mux_match p of
        RHealth \<Rightarrow> Some (handle_health core)
      | RStatus \<Rightarrow> Some (handle_status core)
      | REvents \<Rightarrow> None
      | RRooms \<Rightarrow> Some (handle_rooms core state)
      | RRoomDevices \<Rightarrow> Some (handle_room_devices core state p)
      | RDevices \<Rightarrow> Some (handle_devices core state p)
      | RRedirect \<Rightarrow> Some \<lparr>Code = StatusMovedPermanently, Headers = [], Body = VEmpty\<rparr>
      | RNone \<Rightarrow> Some http_NotFound)"

definition cors_headers :: "(string \<times> string) list" where
  "cors_headers = [(''Access-Control-Allow-Origin'', ''*''), (''Access-Control-Allow-Methods'', ''GET, OPTIONS''),
     (''Access-Control-Allow-Headers'', ''Content-Type'')]"

definition corsHandler :: "(string \<Rightarrow> Response option) \<Rightarrow> string \<Rightarrow> string \<Rightarrow> Response option" where
  "corsHandler nxt meth p =
     (if meth = ''OPTIONS'' then Some \<lparr>Code = StatusNoContent, Headers = cors_headers, Body = VEmpty\<rparr>
      else map_option (\<lambda>r. r\<lparr>Headers := cors_headers @ Headers r\<rparr>) (nxt p))"

definition http_serve :: "CoreServer \<Rightarrow> MonitoringState \<Rightarrow> string \<Rightarrow> string \<Rightarrow> Response option" where
  "http_serve core state = corsHandler (newHandler core state)"

section \<open>The event stream\<close>

text \<open>One subscriber: what has been written to it, and whether the handler has returned. \<open>json\<close> stands for the
  encoding of an event's value.\<close>

record EventStream =
  esID :: u64
  esSent :: "string list"
  esReturned :: bool

definition handleEvents_begin :: "bool \<Rightarrow> MonitoringState \<Rightarrow> (Response + EventStream) \<times> MonitoringState" where
  "handleEvents_begin flusher state =
     (if \<not> flusher then (Inl (writeError StatusInternalServerError ''streaming is unsupported''), state)
      else (let (n, state) = state_Subscribe state
            in (Inr \<lparr>esID = n, esSent = ['': connected'' @ [CHR 0x0A] @ ''retry: 5000'' @ [CHR 0x0A, CHR 0x0A]], esReturned = False\<rparr>, state)))"

datatype events_select = SelEvent | SelHeartbeat | SelEnd

definition event_frame :: "(event_data \<Rightarrow> string) \<Rightarrow> Event \<Rightarrow> string" where
  "event_frame json ev = ''event: '' @ evName ev @ [CHR 0x0A] @ ''data: '' @ json (evData ev) @ [CHR 0x0A, CHR 0x0A]"

definition events_return :: "EventStream \<Rightarrow> MonitoringState \<Rightarrow> EventStream \<times> MonitoringState" where
  "events_return es state = (es\<lparr>esReturned := True\<rparr>, state\<lparr>events := hub_Unsubscribe (esID es) (events state)\<rparr>)"

definition handleEvents_step :: "(event_data \<Rightarrow> string) \<Rightarrow> events_select \<Rightarrow> bool \<Rightarrow> EventStream \<Rightarrow> MonitoringState
    \<Rightarrow> (EventStream \<times> MonitoringState) outcome" where
  "handleEvents_step json c writeFails es state =
     (if esReturned es then Blocked
      else case c of
          SelEvent \<Rightarrow>
            (case map_of (subscribers (events state)) (esID es) of
               Some (ev # rest) \<Rightarrow>
                 (let state = state\<lparr>events := (events state)\<lparr>subscribers := AList.update (esID es) rest (subscribers (events state))\<rparr>\<rparr>
                  in if writeFails then Next (events_return es state)
                     else Next (es\<lparr>esSent := esSent es @ [event_frame json ev]\<rparr>, state))
             | _ \<Rightarrow> Blocked)
        | SelHeartbeat \<Rightarrow>
            if writeFails then Next (events_return es state)
            else Next (es\<lparr>esSent := esSent es @ ['': heartbeat'' @ [CHR 0x0A, CHR 0x0A]]\<rparr>, state)
        | SelEnd \<Rightarrow> Next (events_return es state))"

section \<open>The server object\<close>

record HttpServer =
  hsListening :: bool
  hsServing :: bool
  hsCancelled :: bool
  hsDone :: bool
  hsErr :: "go_error list"

abbreviation (input) http_ErrServerClosed :: go_error where "http_ErrServerClosed \<equiv> ErrText ''http: Server closed''"

definition http_NewServer :: "HttpConfig \<Rightarrow> go_error list \<Rightarrow> go_error list + HttpServer" where
  "http_NewServer config listenErr =
     (let e = http_Validate config in
      if e \<noteq> [] then Inl e
      else if listenErr \<noteq> [] then Inl listenErr
      else Inr \<lparr>hsListening = True, hsServing = False, hsCancelled = False, hsDone = False, hsErr = []\<rparr>)"

definition http_Serve :: "HttpServer \<Rightarrow> HttpServer" where
  "http_Serve s = s\<lparr>hsServing := True\<rparr>"

definition http_Serve_returns :: "go_error list \<Rightarrow> HttpServer \<Rightarrow> HttpServer outcome" where
  "http_Serve_returns err s =
     (if \<not> hsServing s \<or> hsDone s then Blocked
      else Next (s\<lparr>hsDone := True, hsErr := (if err \<noteq> [] \<and> \<not> errors_Is err http_ErrServerClosed then err else hsErr s)\<rparr>))"

definition http_Shutdown :: "HttpServer \<Rightarrow> HttpServer" where
  "http_Shutdown s = s\<lparr>hsCancelled := True, hsListening := False\<rparr>"

definition http_Shutdown_result :: "go_error list \<Rightarrow> HttpServer \<Rightarrow> go_error list outcome" where
  "http_Shutdown_result err s = (if hsDone s then Next (errors_Join err (hsErr s)) else Blocked)"

section \<open>Lemmas\<close>

lemma slash_not_hex: "CHR ''/'' \<notin> set (hex_byte b)"
proof -
  have "hex_digit n \<noteq> CHR ''/''" if "n < 16" for n using hex_digit_range [OF that] by auto
  then show ?thesis using unat_u8_bounds [of b] by (auto simp: hex_byte_def dest: sym)
qed

lemma slash_not_mac: "CHR ''/'' \<notin> set (formatMAC mac)"
  by (cases mac) (simp add: formatMAC_def slash_not_hex)

lemma formatMAC_not_dots: "formatMAC mac \<noteq> []" "formatMAC mac \<noteq> ''.''" "formatMAC mac \<noteq> ''..''"
  by (cases mac; simp add: formatMAC_def hex_byte_def)+

lemma decimal_digits: "list_all is_digit (decimal n)"
proof (induction n rule: decimal.induct)
  case (1 n)
  show ?case
  proof (cases "n < 10")
    case True
    then show ?thesis by (subst decimal.simps) simp
  next
    case False
    then show ?thesis using 1 by (subst decimal.simps) simp
  qed
qed

lemma decimal_no_slash: "CHR ''/'' \<notin> set (decimal n)"
  using decimal_digits [of n] by (auto simp: list_all_iff is_digit_def)

lemma decimal_not_dots: "decimal n \<noteq> ''.''" "decimal n \<noteq> ''..''"
  using decimal_digits [of n] by (auto simp: is_digit_def)

text \<open>The path of the readings of a sensor, and what the handler makes of it.\<close>

definition readings_path :: "MACAddress \<Rightarrow> nat \<Rightarrow> string" where
  "readings_path mac n = ''/api/v1/devices/'' @ formatMAC mac @ ''/sensors/'' @ decimal n @ ''/readings''"

lemma readings_split:
  "strings_Split (CHR ''/'') (''api/v1/devices/'' @ formatMAC mac @ ''/sensors/'' @ decimal n @ ''/readings'')
     = [''api'', ''v1'', ''devices'', formatMAC mac, ''sensors'', decimal n, ''readings'']"
  using strings_Split_append [OF slash_not_mac, of mac] strings_Split_append [OF decimal_no_slash, of n] by simp

lemma readings_parts: "path_parts (readings_path mac n) = [''api'', ''v1'', ''devices'', formatMAC mac, ''sensors'', decimal n, ''readings'']"
proof -
  have "strings_Trim (CHR ''/'') (readings_path mac n) = ''api/v1/devices/'' @ formatMAC mac @ ''/sensors/'' @ decimal n @ ''/readings''"
    by (simp add: strings_Trim_def readings_path_def)
  then show ?thesis unfolding path_parts_def by (simp only: readings_split)
qed

lemma readings_route: "mux_match (readings_path mac n) = RDevices"
proof -
  have "drop 1 (readings_path mac n) = ''api/v1/devices/'' @ formatMAC mac @ ''/sensors/'' @ decimal n @ ''/readings''"
    by (simp add: readings_path_def)
  then have "is_clean (readings_path mac n)"
    unfolding is_clean_def using formatMAC_not_dots decimal_not_dots
    by (simp only: readings_split) (simp add: HasPrefix_def readings_path_def)
  then show ?thesis by (simp add: mux_match_def HasPrefix_def readings_path_def)
qed

lemma ParseUint_decimal: "n < 2 ^ bits \<Longrightarrow> ParseUint (decimal n) bits = Some n"
  by (simp add: ParseUint_def digits_val_decimal)

text \<open>A subscriber of the event stream is sent the events of its channel in order, and when its handler
  returns, for whatever reason, its channel is gone.\<close>

lemma handleEvents_step_sent:
  assumes "handleEvents_step json c fails es state = Next (es', state')" "\<not> esReturned es'"
  shows "(case c of
      SelEvent \<Rightarrow> \<exists>ev rest. map_of (subscribers (events state)) (esID es) = Some (ev # rest)
        \<and> map_of (subscribers (events state')) (esID es) = Some rest \<and> esSent es' = esSent es @ [event_frame json ev]
    | SelHeartbeat \<Rightarrow> state' = state
    | SelEnd \<Rightarrow> False)"
  using assms
  by (auto simp: handleEvents_step_def events_return_def Let_def update_conv' split: if_splits events_select.splits option.splits list.splits)

lemma handleEvents_step_returned:
  assumes "handleEvents_step json c fails es state = Next (es', state')" "esReturned es'"
  shows "map_of (subscribers (events state')) (esID es) = None"
  using assms
  by (auto simp: handleEvents_step_def events_return_def hub_Unsubscribe_def Let_def delete_conv'
      split: if_splits events_select.splits option.splits list.splits)

section \<open>Properties of the HTTP plugin\<close>

text \<open>
  C26. The readings endpoint is right end to end. After any sequence of callbacks, a request for the
  readings of a configured sensor of a configured device, under its printed address and its number,
  is answered with status 200 and the most recent observations of that sensor on that device, oldest
  first, as many as the configured capacity.
\<close>

theorem HTTP_readings:
  assumes "NewMonitoringState config = Inr st0" "monitor_run cs st0 = Some st"
    and "snapshot_Device (registry_Snapshot (coreRegistry core)) mac = Some dev"
    and "snapshot_Sensor (registry_Snapshot (coreRegistry core)) t = Some sensor" "t \<noteq> SENSOR_ID_UNKNOWN" "t \<le> SENSOR_ID_kWAh"
    and "meth \<noteq> ''OPTIONS''"
  shows "http_serve core st meth (readings_path mac (unat t)) =
     Some \<lparr>Code = 200, Headers = cors_headers @ [(''Content-Type'', ''application/json'')],
           Body = VReadings (lastn (nat (hHistoryCapacity config)) (observed_samples mac t cs))\<rparr>"
proof -
  obtain n where n: "hHistoryCapacity config = int (Suc n)" "mon_ok n st0" "\<And>mac t. Readings mac t st0 = None"
    using NewMonitoringState_ok [OF assms(1)] by blast
  have r: "Readings mac t st = (if observed_samples mac t cs = [] then None else Some (lastn (Suc n) (observed_samples mac t cs)))"
    using monitor_run_spec [OF n(2,3), of cs] assms(2) by auto
  have "unat t < 2 ^ 8" using unsigned_less [of t, where 'a = nat] by simp
  then have id: "ParseUint (decimal (unat t)) 16 = Some (unat t)" by (intro ParseUint_decimal) simp
  have "(of_nat (unat t) :: u16) = ucast t" by (simp add: unsigned_ucast_eq)
  then have ty: "ToSensorType (of_nat (unat t)) = t" using ToSensorType_known [OF assms(6)] by simp
  have "unat t \<noteq> 0" using assms(5) by (simp add: unat_eq_zero)
  then have "handle_devices core st (readings_path mac (unat t)) = writeJSON 200 (VReadings (lastn (Suc n) (observed_samples mac t cs)))"
    using assms(3,4) id ty r unfolding handle_devices_def readings_parts Let_def
    by (simp add: ParseMACAddress_formatMAC)
  moreover have "nat (hHistoryCapacity config) = Suc n" by (simp only: n(1) nat_int)
  ultimately show ?thesis
    using assms(7) by (simp add: http_serve_def corsHandler_def newHandler_def readings_route writeJSON_def)
qed

definition demo_core :: CoreServer where
  "demo_core = \<lparr>coreCounters = \<lparr>scTCP = tcp_Counters demo_tcp, scUDP = udp_Counters demo_udp, scRouter = zeroCounters, scDataStreams = []\<rparr>,
     coreRegistry = \<lparr>current = demo_snapshot\<rparr>, coreDone = False\<rparr>"

abbreviation demo_mac :: MACAddress where "demo_mac \<equiv> MACAddress 2 0 0 0xab 0xcd 0xef"

theorem HTTP_readings_witness:
  "\<exists>st. monitor_run [Observed ((demo_observation 7)\<lparr>oMAC := demo_mac\<rparr>)] \<lparr>historyCapacity = 2, devices = [], events = newEventHub\<rparr> = Some st
    \<and> http_serve demo_core st ''GET'' (readings_path demo_mac 1) =
        Some \<lparr>Code = 200, Headers = cors_headers @ [(''Content-Type'', ''application/json'')], Body = VReadings [\<lparr>sTimestamp = 5, sValue = 7\<rparr>]\<rparr>"
proof -
  let ?cs = "[Observed ((demo_observation 7)\<lparr>oMAC := demo_mac\<rparr>)]"
  obtain st where st: "monitor_run ?cs \<lparr>historyCapacity = 2, devices = [], events = newEventHub\<rparr> = Some st"
    using monitor_run_spec [of _ "\<lparr>historyCapacity = 2, devices = [], events = newEventHub\<rparr>" ?cs] NewMonitoringState_ok [OF demo_http_new] by blast
  have reg: "registry_Snapshot (coreRegistry demo_core) = demo_snapshot"
    by (simp add: demo_core_def registry_Snapshot_def)
  obtain sensor where sen: "snapshot_Sensor demo_snapshot 1 = Some sensor"
    by (simp add: snapshot_Sensor_def demo_snapshot_def configured_sensors_def demo_config_def add_sensor_def)
  have "http_serve demo_core st ''GET'' (readings_path demo_mac (unat (1 :: u8))) =
      Some \<lparr>Code = 200, Headers = cors_headers @ [(''Content-Type'', ''application/json'')],
        Body = VReadings (lastn (nat (hHistoryCapacity demo_http)) (observed_samples demo_mac 1 ?cs))\<rparr>"
    using reg demo_device sen by (intro HTTP_readings [OF demo_http_new st]) simp_all
  moreover have "lastn (nat (hHistoryCapacity demo_http)) (observed_samples demo_mac 1 ?cs) = [\<lparr>sTimestamp = 5, sValue = 7\<rparr>]"
    by (simp add: observed_samples_def demo_observation_def demo_http_def lastn_def)
  ultimately show ?thesis using st by simp
qed

text \<open>
  C27. The health endpoint tells the truth about the running server: it answers 200 and \<open>healthy\<close> exactly when
  the server has not stopped, no write to the engine or the quarantine has failed, and no data stream has
  an error or a dropped record; otherwise it answers 503 and \<open>unhealthy\<close>, with at least one issue.
\<close>

theorem HTTP_health:
  "\<exists>status issues. http_serve (core_of rw s) st ''GET'' ''/health'' =
      Some \<lparr>Code = (if status = ''healthy'' then 200 else 503), Headers = cors_headers @ [(''Content-Type'', ''application/json'')],
            Body = VHealth status issues\<rparr>
    \<and> (status = ''healthy'' \<longleftrightarrow> issues = []) \<and> (status = ''healthy'' \<or> status = ''unhealthy'')
    \<and> (issues = [] \<longleftrightarrow> closePc s \<noteq> ServerClosed \<and> DataEngineFailures (router_Counters (fst (sHandler s))) = 0
        \<and> QuarantineFailures (router_Counters (fst (sHandler s))) = 0
        \<and> list_all (\<lambda>(k, c). Errors c = 0 \<and> Dropped c = 0) (engine_Counters rw (fst (fst (snd (sHandler s))))))"
proof -
  let ?b = "buildStatus (core_of rw s)"
  have mux: "mux_match ''/health'' = RHealth" by code_simp
  have nil: "sort xs = [] \<longleftrightarrow> xs = []" for xs :: "string list" by (metis length_0_conv length_sort)
  have issues: "Issues ?b = [] \<longleftrightarrow> closePc s \<noteq> ServerClosed \<and> DataEngineFailures (router_Counters (fst (sHandler s))) = 0
        \<and> QuarantineFailures (router_Counters (fst (sHandler s))) = 0
        \<and> list_all (\<lambda>(k, c). Errors c = 0 \<and> Dropped c = 0) (engine_Counters rw (fst (fst (snd (sHandler s)))))"
    by (auto simp: buildStatus_def Let_def nil core_of_def server_Counters_def server_Done_def list_all_iff split_beta)
  have status: "Status ?b = (if Issues ?b = [] then ''healthy'' else ''unhealthy'')" by (simp add: buildStatus_def Let_def)
  have "http_serve (core_of rw s) st ''GET'' ''/health'' =
      Some \<lparr>Code = (if Status ?b = ''healthy'' then 200 else 503), Headers = cors_headers @ [(''Content-Type'', ''application/json'')],
            Body = VHealth (Status ?b) (Issues ?b)\<rparr>"
    by (simp add: http_serve_def corsHandler_def newHandler_def mux handle_health_def writeJSON_def Let_def)
  then show ?thesis using issues status by (intro exI conjI) (assumption | simp)+
qed

end
