(* ===== verification/Logging.thy ===== *)
theory Logging
  imports Config "HOL-Library.AList" "HOL-Library.Signed_Division"
begin

text \<open>
  \<open>logging/logging.go\<close>: the levelled logger, its line format, and the limiter of repeated warnings.

  What \<open>fmt\<close> makes of the arguments of a call is given as text. What \<open>runtime.Caller\<close> finds for a stack depth
  and the time of the call are arguments of \<open>output\<close>; a time has its calendar fields in local time and in UTC.
  What is written is the list of the \<open>Write\<close> calls, each with its writer and its line. The pooled buffers are empty when they are taken, so
  they do not appear; every caller passes a zero \<open>pc\<close>.
\<close>

section \<open>Levels\<close>

type_synonym LogLevel = int

abbreviation (input) LevelNone :: LogLevel where "LevelNone \<equiv> 0"
abbreviation (input) LevelFatal :: LogLevel where "LevelFatal \<equiv> 1"
abbreviation (input) LevelError :: LogLevel where "LevelError \<equiv> 2"
abbreviation (input) LevelWarning :: LogLevel where "LevelWarning \<equiv> 3"
abbreviation (input) LevelInfo :: LogLevel where "LevelInfo \<equiv> 4"
abbreviation (input) LevelDebug :: LogLevel where "LevelDebug \<equiv> 5"

definition ParseLevel :: "string \<Rightarrow> go_error list + LogLevel" where
  "ParseLevel value =
     (let v = ToLower value in
      if v = ''disabled'' \<or> v = ''none'' then Inr LevelNone
      else if v = ''error'' then Inr LevelError
      else if v = ''warn'' \<or> v = ''warning'' then Inr LevelWarning
      else if v = ''info'' \<or> v = [] then Inr LevelInfo
      else if v = ''debug'' then Inr LevelDebug
      else Inl [ErrText ''unsupported log level''])"

section \<open>Lines\<close>

text \<open>The flags of Go's \<open>log\<close> package.\<close>

abbreviation (input) Ldate :: int where "Ldate \<equiv> 1"
abbreviation (input) Ltime :: int where "Ltime \<equiv> 2"
abbreviation (input) Lmicroseconds :: int where "Lmicroseconds \<equiv> 4"
abbreviation (input) Llongfile :: int where "Llongfile \<equiv> 8"
abbreviation (input) Lshortfile :: int where "Lshortfile \<equiv> 16"
abbreviation (input) LUTC :: int where "LUTC \<equiv> 32"
abbreviation (input) Lmsgprefix :: int where "Lmsgprefix \<equiv> 64"
abbreviation (input) LstdFlags :: int where "LstdFlags \<equiv> 3"

definition has_flag :: "int \<Rightarrow> int \<Rightarrow> bool" where
  "has_flag flag m \<longleftrightarrow> and flag m \<noteq> 0"

record calendar =
  tYear :: int
  tMonth :: int
  tDay :: int
  tHour :: int
  tMin :: int
  tSec :: int
  tNano :: int

record Time =
  tLocal :: calendar
  tUTC :: calendar

text \<open>\<open>itoa\<close> fills a buffer of 20 bytes from its end; the list has the bytes written so far, and a write in front
  of the buffer panics.\<close>

definition digit_byte :: "int \<Rightarrow> char" where
  "digit_byte v = char_of (nat ((48 + v) mod 256))"

function itoa_loop :: "int \<Rightarrow> int \<Rightarrow> string \<Rightarrow> string option" where
  "itoa_loop i wid b =
     (if length b \<ge> 20 then None
      else if i \<ge> 10 \<or> wid > 1
      then (let q = i sdiv 10 in itoa_loop q (wid - 1) (digit_byte (i - q * 10) # b))
      else Some (digit_byte i # b))"
  by pat_completeness auto
termination
  by (relation "measure (\<lambda>(i, wid, b). 20 - length b)") auto

declare itoa_loop.simps [simp del]

definition itoa :: "string \<Rightarrow> int \<Rightarrow> int \<Rightarrow> string option" where
  "itoa bs i wid = map_option (\<lambda>b. bs @ b) (itoa_loop i wid [])"

text \<open>The loop that looks for the last slash after the first byte.\<close>

fun short_file :: "nat \<Rightarrow> string \<Rightarrow> string" where
  "short_file 0 path = path"
| "short_file (Suc i) path = (if path ! Suc i = CHR ''/'' then drop (Suc (Suc i)) path else short_file i path)"

definition formatHeader :: "string \<Rightarrow> Time \<Rightarrow> string \<Rightarrow> int \<Rightarrow> string \<Rightarrow> int \<Rightarrow> string option" where
  "formatHeader bs t pre flag path line = do {
     let bs = (if \<not> has_flag flag Lmsgprefix then bs @ pre else bs);
     bs \<leftarrow> (if has_flag flag (or Ldate (or Ltime Lmicroseconds)) then
       (let c = (if has_flag flag LUTC then tUTC t else tLocal t) in do {
          bs \<leftarrow> (if has_flag flag Ldate then do {
            bs \<leftarrow> itoa bs (tYear c) 4;
            bs \<leftarrow> itoa (bs @ ''/'') (tMonth c) 2;
            bs \<leftarrow> itoa (bs @ ''/'') (tDay c) 2;
            Some (bs @ '' '') } else Some bs);
          (if has_flag flag (or Ltime Lmicroseconds) then do {
            bs \<leftarrow> itoa bs (tHour c) 2;
            bs \<leftarrow> itoa (bs @ '':'') (tMin c) 2;
            bs \<leftarrow> itoa (bs @ '':'') (tSec c) 2;
            bs \<leftarrow> (if has_flag flag Lmicroseconds then itoa (bs @ ''.'') (tNano c sdiv 1000) 6 else Some bs);
            Some (bs @ '' '') } else Some bs) })
       else Some bs);
     bs \<leftarrow> (if has_flag flag (or Lshortfile Llongfile) then do {
       bs \<leftarrow> itoa (bs @ (if has_flag flag Lshortfile then short_file (length path - 1) path else path) @ '':'') line (-1);
       Some (bs @ '': '') } else Some bs);
     Some (if has_flag flag Lmsgprefix then bs @ pre else bs) }"

section \<open>The line logger\<close>

datatype log_out = Stdout | Stderr | LogFile string | Discard

record StdLogger =
  lout :: log_out
  depth :: int
  lprefix :: "string option"
  lflag :: i32
  isDiscard :: bool

definition std_SetOutput :: "log_out \<Rightarrow> StdLogger \<Rightarrow> StdLogger" where
  "std_SetOutput w l = l\<lparr>lout := w, isDiscard := (w = Discard)\<rparr>"

definition std_SetPrefix :: "string \<Rightarrow> StdLogger \<Rightarrow> StdLogger" where
  "std_SetPrefix p l = l\<lparr>lprefix := Some p\<rparr>"

definition std_SetFlags :: "int \<Rightarrow> StdLogger \<Rightarrow> StdLogger" where
  "std_SetFlags flag l = l\<lparr>lflag := of_int flag\<rparr>"

definition std_Flags :: "StdLogger \<Rightarrow> int" where
  "std_Flags l = sint (lflag l)"

definition std_Prefix :: "StdLogger \<Rightarrow> string" where
  "std_Prefix l = (case lprefix l of Some p \<Rightarrow> p | None \<Rightarrow> [])"

definition std_Writer :: "StdLogger \<Rightarrow> log_out" where
  "std_Writer l = lout l"

definition NewStdLogger :: "log_out \<Rightarrow> string \<Rightarrow> int \<Rightarrow> StdLogger" where
  "NewStdLogger out pre flag =
     std_SetFlags flag (std_SetPrefix pre (std_SetOutput out
       \<lparr>lout = Discard, depth = 3, lprefix = None, lflag = 0, isDiscard = False\<rparr>))"

record log_env =
  leNow :: Time
  leCaller :: "int \<Rightarrow> (string \<times> int) option"
  leWriteErr :: "go_error list"

type_synonym log_sink = "(log_out \<times> string) list"

definition std_output :: "log_env \<Rightarrow> StdLogger \<Rightarrow> int \<Rightarrow> string \<Rightarrow> log_sink \<Rightarrow> (go_error list \<times> log_sink) option" where
  "std_output env l calldepth text sink =
     (if isDiscard l then Some ([], sink)
      else
        (let pre = std_Prefix l; flag = std_Flags l;
             (path, line) = (if has_flag flag (or Lshortfile Llongfile)
               then (case leCaller env calldepth of Some x \<Rightarrow> x | None \<Rightarrow> (''???'', 0)) else ([], 0))
         in do {
           bs \<leftarrow> formatHeader [] (leNow env) pre flag path line;
           let bs = bs @ text;
           let bs = (if bs = [] \<or> last bs \<noteq> CHR 0x0A then bs @ [CHR 0x0A] else bs);
           Some (leWriteErr env, sink @ [(lout l, bs)]) }))"

definition std_Output :: "log_env \<Rightarrow> StdLogger \<Rightarrow> int \<Rightarrow> string \<Rightarrow> log_sink \<Rightarrow> (go_error list \<times> log_sink) option" where
  "std_Output env l calldepth s sink = std_output env l (calldepth + 1) s sink"

definition std_Print :: "log_env \<Rightarrow> StdLogger \<Rightarrow> string \<Rightarrow> log_sink \<Rightarrow> log_sink option" where
  "std_Print env l text sink = map_option snd (std_output env l (depth l) text sink)"

definition std_Printf :: "log_env \<Rightarrow> StdLogger \<Rightarrow> string \<Rightarrow> log_sink \<Rightarrow> log_sink option" where
  "std_Printf env l text sink = map_option snd (std_output env l (depth l) text sink)"

definition std_Println :: "log_env \<Rightarrow> StdLogger \<Rightarrow> string \<Rightarrow> log_sink \<Rightarrow> log_sink option" where
  "std_Println env l text sink = map_option snd (std_output env l (depth l) (text @ [CHR 0x0A]) sink)"

text \<open>\<open>Fatal\<close>, \<open>Panic\<close> and their variants only log.\<close>

definition std_Fatal :: "log_env \<Rightarrow> StdLogger \<Rightarrow> string \<Rightarrow> log_sink \<Rightarrow> log_sink option" where
  "std_Fatal env l text sink = map_option snd (std_Output env l (depth l) text sink)"

definition std_Fatalf :: "log_env \<Rightarrow> StdLogger \<Rightarrow> string \<Rightarrow> log_sink \<Rightarrow> log_sink option" where
  "std_Fatalf env l text sink = map_option snd (std_Output env l (depth l) text sink)"

definition std_Fatalln :: "log_env \<Rightarrow> StdLogger \<Rightarrow> string \<Rightarrow> log_sink \<Rightarrow> log_sink option" where
  "std_Fatalln env l text sink = map_option snd (std_Output env l (depth l) (text @ [CHR 0x0A]) sink)"

definition std_Panic :: "log_env \<Rightarrow> StdLogger \<Rightarrow> string \<Rightarrow> log_sink \<Rightarrow> log_sink option" where
  "std_Panic env l text sink = map_option snd (std_Output env l (depth l) text sink)"

definition std_Panicf :: "log_env \<Rightarrow> StdLogger \<Rightarrow> string \<Rightarrow> log_sink \<Rightarrow> log_sink option" where
  "std_Panicf env l text sink = map_option snd (std_Output env l (depth l) text sink)"

definition std_Panicln :: "log_env \<Rightarrow> StdLogger \<Rightarrow> string \<Rightarrow> log_sink \<Rightarrow> log_sink option" where
  "std_Panicln env l text sink = map_option snd (std_Output env l (depth l) (text @ [CHR 0x0A]) sink)"

section \<open>The levelled logger\<close>

record DefaultLogger =
  ogLogLevel :: i32
  ogDebugLogger :: StdLogger
  ogFatalLogger :: StdLogger
  ogErrLogger :: StdLogger
  ogWarnLogger :: StdLogger
  ogInfoLogger :: StdLogger
  ownedOutput :: "log_out option"
  lclosed :: bool
  lcloseErr :: "go_error list"

definition SetLevel :: "LogLevel \<Rightarrow> DefaultLogger \<Rightarrow> DefaultLogger" where
  "SetLevel level l = l\<lparr>ogLogLevel := of_int level\<rparr>"

definition log_level :: "DefaultLogger \<Rightarrow> LogLevel" where
  "log_level l = sint (ogLogLevel l)"

definition logger_on :: "log_out \<Rightarrow> log_out option \<Rightarrow> LogLevel \<Rightarrow> DefaultLogger" where
  "logger_on w owned level =
     (let flags = or Ldate (or Ltime Lshortfile) in
      SetLevel level
        \<lparr>ogLogLevel = 0, ogDebugLogger = NewStdLogger w ''DEBUG: '' flags, ogFatalLogger = NewStdLogger w ''FATAL: '' flags,
         ogErrLogger = NewStdLogger w ''ERROR: '' flags, ogWarnLogger = NewStdLogger w ''WARN: '' flags,
         ogInfoLogger = NewStdLogger w ''INFO: '' flags, ownedOutput = owned, lclosed = False, lcloseErr = []\<rparr>)"

definition NewDefault :: DefaultLogger where
  "NewDefault = logger_on Stderr None LevelInfo"

definition log_New :: "string \<Rightarrow> string \<Rightarrow> go_error list \<Rightarrow> go_error list + DefaultLogger" where
  "log_New level out openErr =
     (case ParseLevel level of
        Inl err \<Rightarrow> Inl err
      | Inr parsedLevel \<Rightarrow>
          if out = ''stdout'' then Inr (logger_on Stdout None parsedLevel)
          else if out = ''stderr'' \<or> out = [] then Inr (logger_on Stderr None parsedLevel)
          else if openErr \<noteq> [] then Inl openErr
          else Inr (logger_on (LogFile out) (Some (LogFile out)) parsedLevel))"

definition LogDebug :: "log_env \<Rightarrow> DefaultLogger \<Rightarrow> string \<Rightarrow> log_sink \<Rightarrow> log_sink option" where
  "LogDebug env l text sink = (if LevelDebug \<le> log_level l then std_Println env (ogDebugLogger l) text sink else Some sink)"

definition LogFatal :: "log_env \<Rightarrow> DefaultLogger \<Rightarrow> string \<Rightarrow> string \<Rightarrow> log_sink \<Rightarrow> log_sink option" where
  "LogFatal env l err text sink =
     (if LevelFatal \<le> log_level l
      then do { sink \<leftarrow> std_Print env (ogFatalLogger l) err sink; std_Println env (ogFatalLogger l) text sink } else Some sink)"

definition LogError :: "log_env \<Rightarrow> DefaultLogger \<Rightarrow> string \<Rightarrow> string \<Rightarrow> log_sink \<Rightarrow> log_sink option" where
  "LogError env l err text sink =
     (if LevelError \<le> log_level l
      then do { sink \<leftarrow> std_Print env (ogErrLogger l) err sink; std_Println env (ogErrLogger l) text sink } else Some sink)"

definition LogWarning :: "log_env \<Rightarrow> DefaultLogger \<Rightarrow> string \<Rightarrow> log_sink \<Rightarrow> log_sink option" where
  "LogWarning env l text sink = (if LevelWarning \<le> log_level l then std_Println env (ogWarnLogger l) text sink else Some sink)"

definition LogInfo :: "log_env \<Rightarrow> DefaultLogger \<Rightarrow> string \<Rightarrow> log_sink \<Rightarrow> log_sink option" where
  "LogInfo env l text sink = (if LevelInfo \<le> log_level l then std_Print env (ogInfoLogger l) text sink else Some sink)"

definition LogDebugf :: "log_env \<Rightarrow> DefaultLogger \<Rightarrow> string \<Rightarrow> log_sink \<Rightarrow> log_sink option" where
  "LogDebugf env l text sink = (if LevelDebug \<le> log_level l then std_Printf env (ogDebugLogger l) text sink else Some sink)"

definition LogFatalf :: "log_env \<Rightarrow> DefaultLogger \<Rightarrow> string \<Rightarrow> string \<Rightarrow> log_sink \<Rightarrow> log_sink option" where
  "LogFatalf env l err text sink =
     (if LevelFatal \<le> log_level l
      then do { sink \<leftarrow> std_Print env (ogFatalLogger l) err sink; std_Printf env (ogFatalLogger l) text sink } else Some sink)"

definition LogErrorf :: "log_env \<Rightarrow> DefaultLogger \<Rightarrow> string \<Rightarrow> string \<Rightarrow> log_sink \<Rightarrow> log_sink option" where
  "LogErrorf env l err text sink =
     (if LevelError \<le> log_level l
      then do { sink \<leftarrow> std_Print env (ogErrLogger l) err sink; std_Printf env (ogErrLogger l) text sink } else Some sink)"

definition LogWarningf :: "log_env \<Rightarrow> DefaultLogger \<Rightarrow> string \<Rightarrow> log_sink \<Rightarrow> log_sink option" where
  "LogWarningf env l text sink = (if LevelWarning \<le> log_level l then std_Printf env (ogWarnLogger l) text sink else Some sink)"

definition LogInfof :: "log_env \<Rightarrow> DefaultLogger \<Rightarrow> string \<Rightarrow> log_sink \<Rightarrow> log_sink option" where
  "LogInfof env l text sink = (if LevelInfo \<le> log_level l then std_Printf env (ogInfoLogger l) text sink else Some sink)"

definition log_Close :: "go_error list \<Rightarrow> DefaultLogger \<Rightarrow> go_error list \<times> DefaultLogger" where
  "log_Close fileErr l =
     (let l = (if lclosed l then l
               else l\<lparr>lclosed := True, lcloseErr := (if ownedOutput l \<noteq> None then fileErr else lcloseErr l)\<rparr>)
      in (lcloseErr l, l))"

section \<open>The rate limiter\<close>

text \<open>Times are in nanoseconds; \<open>Sub\<close> saturates at the ends of \<open>int64\<close>.\<close>

definition time_Sub :: "int \<Rightarrow> int \<Rightarrow> int" where
  "time_Sub t u = max (- (2 ^ 63)) (min (2 ^ 63 - 1) (t - u))"

record RateLimiter =
  rinterval :: int
  rlast :: "(string \<times> int) list"

definition NewRateLimiter :: "int \<Rightarrow> go_error list + RateLimiter" where
  "NewRateLimiter interval =
     (if interval \<le> 0 then Inl [ErrText ''new log rate limiter: interval must be positive'']
      else Inr \<lparr>rinterval = interval, rlast = []\<rparr>)"

definition Allow :: "int \<Rightarrow> string \<Rightarrow> RateLimiter \<Rightarrow> bool \<times> RateLimiter" where
  "Allow now key limiter =
     (case map_of (rlast limiter) key of
        Some t \<Rightarrow> if time_Sub now t < rinterval limiter then (False, limiter)
                  else (True, limiter\<lparr>rlast := AList.update key now (rlast limiter)\<rparr>)
      | None \<Rightarrow> (True, limiter\<lparr>rlast := AList.update key now (rlast limiter)\<rparr>))"

text \<open>The argument is the text of the error, None for nil.\<close>

definition WarningCallback :: "log_env \<Rightarrow> DefaultLogger \<Rightarrow> int \<Rightarrow> string option \<Rightarrow> RateLimiter \<Rightarrow> log_sink \<Rightarrow> (RateLimiter \<times> log_sink) option" where
  "WarningCallback env logger now err limiter sink =
     (case err of
        None \<Rightarrow> Some (limiter, sink)
      | Some text \<Rightarrow>
          (case Allow now text limiter of
             (True, limiter) \<Rightarrow> map_option (\<lambda>sink. (limiter, sink)) (LogWarning env logger text sink)
           | (False, limiter) \<Rightarrow> Some (limiter, sink)))"

section \<open>The standard logger of the package\<close>

text \<open>\<open>std\<close> and the functions of the package that act on it. \<open>Default\<close>, \<open>Flags\<close>, \<open>SetFlags\<close>, \<open>Prefix\<close>,
  \<open>SetPrefix\<close>, \<open>Writer\<close> and \<open>SetOutput\<close> of the package are the methods above at \<open>std\<close>.\<close>

definition std_default :: StdLogger where
  "std_default = NewStdLogger Stderr [] LstdFlags"

definition pkg_Print :: "log_env \<Rightarrow> StdLogger \<Rightarrow> string \<Rightarrow> log_sink \<Rightarrow> log_sink option" where
  "pkg_Print env std text sink = map_option snd (std_output env std 3 text sink)"

definition pkg_Printf :: "log_env \<Rightarrow> StdLogger \<Rightarrow> string \<Rightarrow> log_sink \<Rightarrow> log_sink option" where
  "pkg_Printf env std text sink = map_option snd (std_output env std 3 text sink)"

definition pkg_Println :: "log_env \<Rightarrow> StdLogger \<Rightarrow> string \<Rightarrow> log_sink \<Rightarrow> log_sink option" where
  "pkg_Println env std text sink = map_option snd (std_output env std 3 (text @ [CHR 0x0A]) sink)"

definition pkg_Fatal :: "log_env \<Rightarrow> StdLogger \<Rightarrow> string \<Rightarrow> log_sink \<Rightarrow> log_sink option" where
  "pkg_Fatal env std text sink = map_option snd (std_Output env std 3 text sink)"

definition pkg_Fatalf :: "log_env \<Rightarrow> StdLogger \<Rightarrow> string \<Rightarrow> log_sink \<Rightarrow> log_sink option" where
  "pkg_Fatalf env std text sink = map_option snd (std_Output env std 3 text sink)"

definition pkg_Fatalln :: "log_env \<Rightarrow> StdLogger \<Rightarrow> string \<Rightarrow> log_sink \<Rightarrow> log_sink option" where
  "pkg_Fatalln env std text sink = map_option snd (std_Output env std 3 (text @ [CHR 0x0A]) sink)"

definition pkg_Panic :: "log_env \<Rightarrow> StdLogger \<Rightarrow> string \<Rightarrow> log_sink \<Rightarrow> log_sink option" where
  "pkg_Panic env std text sink = map_option snd (std_Output env std 3 text sink)"

definition pkg_Panicf :: "log_env \<Rightarrow> StdLogger \<Rightarrow> string \<Rightarrow> log_sink \<Rightarrow> log_sink option" where
  "pkg_Panicf env std text sink = map_option snd (std_Output env std 3 text sink)"

definition pkg_Panicln :: "log_env \<Rightarrow> StdLogger \<Rightarrow> string \<Rightarrow> log_sink \<Rightarrow> log_sink option" where
  "pkg_Panicln env std text sink = map_option snd (std_Output env std 3 (text @ [CHR 0x0A]) sink)"

definition pkg_Output :: "log_env \<Rightarrow> StdLogger \<Rightarrow> int \<Rightarrow> string \<Rightarrow> log_sink \<Rightarrow> (go_error list \<times> log_sink) option" where
  "pkg_Output env std calldepth s sink = std_Output env std (calldepth + 1) s sink"

section \<open>Lemmas\<close>

lemma digit_byte_digit: "0 \<le> v \<Longrightarrow> v < 10 \<Longrightarrow> digit_byte v = char_of (48 + nat v)"
  by (simp add: digit_byte_def nat_add_distrib)

lemma char_of_48: "char_of (48 :: nat) = CHR ''0''"
  by code_simp

lemma zero_padded_step:
  assumes "w > 1 \<or> n \<ge> 10"
  shows "zero_padded w n = zero_padded (w - 1) (n div 10) @ [char_of (48 + n mod 10)]"
proof (cases "n < 10")
  case True
  then have "decimal n = [char_of (48 + n)]" "decimal (n div 10) = ''0''" "n mod 10 = n" by (simp_all add: decimal.simps char_of_48)
  moreover have "replicate (w - 1) (CHR ''0'') = replicate (w - 2) (CHR ''0'') @ ''0''"
    using assms True by (cases w; cases "w - 1") (simp_all add: replicate_append_same)
  ultimately show ?thesis using assms True by (simp add: zero_padded_def)
next
  case False
  then have "decimal n = decimal (n div 10) @ [char_of (48 + n mod 10)]" by (subst decimal.simps) simp
  then show ?thesis by (simp add: zero_padded_def)
qed

lemma itoa_loop_eq:
  assumes "0 \<le> i" "length (zero_padded (nat wid) (nat i)) + length b \<le> 20"
  shows "itoa_loop i wid b = Some (zero_padded (nat wid) (nat i) @ b)"
  using assms
proof (induction i wid b rule: itoa_loop.induct)
  case (1 i wid b)
  have ne: "zero_padded (nat wid) (nat i) \<noteq> []" by (simp add: zero_padded_def)
  then have len: "\<not> length b \<ge> 20" using "1.prems"(2) by (cases "zero_padded (nat wid) (nat i)") auto
  show ?case
  proof (cases "i \<ge> 10 \<or> wid > 1")
    case True
    have q: "i sdiv 10 = i div 10" using "1.prems"(1) by (simp add: signed_divide_int_def sgn_if)
    have pred: "nat (wid - 1) = nat wid - 1" by arith
    have ten: "nat wid > 1 \<or> nat i \<ge> 10" using True by auto
    have step: "zero_padded (nat wid) (nat i) = zero_padded (nat (wid - 1)) (nat (i div 10)) @ [char_of (48 + nat i mod 10)]"
      using zero_padded_step [OF ten] "1.prems"(1) by (simp add: pred nat_div_distrib)
    have d: "digit_byte (i - i div 10 * 10) = char_of (48 + nat i mod 10)"
    proof -
      have "i - i div 10 * 10 = i mod 10" by (simp add: minus_div_mult_eq_mod)
      then show ?thesis using "1.prems"(1) by (simp add: digit_byte_digit nat_mod_distrib)
    qed
    have "itoa_loop (i div 10) (wid - 1) (digit_byte (i - i div 10 * 10) # b)
        = Some (zero_padded (nat (wid - 1)) (nat (i div 10)) @ digit_byte (i - i div 10 * 10) # b)"
      using "1.IH" [OF len True refl] "1.prems" step unfolding q by simp
    then show ?thesis using True len step d q by (subst itoa_loop.simps) simp
  next
    case False
    then have "nat i < 10" "nat wid - 1 = 0" "digit_byte i = char_of (48 + nat i)"
      using "1.prems"(1) by (auto simp: digit_byte_digit)
    then have "zero_padded (nat wid) (nat i) = [digit_byte i]"
      by (simp add: zero_padded_def decimal.simps [of "nat i"])
    then show ?thesis using False len by (subst itoa_loop.simps) simp
  qed
qed

lemma itoa_eq:
  assumes "0 \<le> i" "i < 10 ^ 20" "wid \<le> 20"
  shows "itoa bs i wid = Some (bs @ zero_padded (nat wid) (nat i))"
proof -
  have "nat i < 10 ^ 20" using assms(1,2) by (metis nat_less_iff of_nat_numeral of_nat_power)
  then have "length (decimal (nat i)) \<le> 20" using length_decimal_le [of "nat i" 19] by simp
  then have "length (zero_padded (nat wid) (nat i)) \<le> 20" using assms(3) by (simp add: zero_padded_def)
  then show ?thesis using itoa_loop_eq [OF assms(1), of wid "[]"] by (simp add: itoa_def)
qed

subsection \<open>What a line looks like\<close>

lemma short_file_no_slash:
  assumes "CHR ''/'' \<notin> set name" "dir \<noteq> []" "n \<le> length name"
  shows "short_file (length dir + n) (dir @ ''/'' @ name) = name"
  using assms(3)
proof (induction n)
  case 0
  obtain m where m: "length dir = Suc m" using assms(2) by (cases dir) auto
  have "(dir @ ''/'' @ name) ! Suc m = CHR ''/''" using m by (simp add: nth_append)
  then show ?case using m by simp
next
  case (Suc n)
  have "(dir @ ''/'' @ name) ! Suc (length dir + n) = name ! n" by (simp add: nth_append)
  moreover have "name ! n \<noteq> CHR ''/''" using assms(1) Suc.prems by (metis Suc_le_lessD nth_mem)
  ultimately show ?case using Suc by simp
qed

text \<open>The time stamp and the ending of a line, written out.\<close>

definition line_stamp :: "calendar \<Rightarrow> string" where
  "line_stamp c =
     zero_padded 4 (nat (tYear c)) @ ''/'' @ zero_padded 2 (nat (tMonth c)) @ ''/'' @ zero_padded 2 (nat (tDay c)) @ '' '' @
     zero_padded 2 (nat (tHour c)) @ '':'' @ zero_padded 2 (nat (tMin c)) @ '':'' @ zero_padded 2 (nat (tSec c)) @ '' ''"

definition terminated :: "string \<Rightarrow> string" where
  "terminated s = (if s = [] \<or> last s \<noteq> CHR 0x0A then s @ [CHR 0x0A] else s)"

definition stamp_ok :: "calendar \<Rightarrow> bool" where
  "stamp_ok c \<longleftrightarrow> (\<forall>v \<in> {tYear c, tMonth c, tDay c, tHour c, tMin c, tSec c}. 0 \<le> v \<and> v < 10 ^ 20)"

definition log_line :: "string \<Rightarrow> calendar \<Rightarrow> string \<Rightarrow> int \<Rightarrow> string \<Rightarrow> string" where
  "log_line pre c name line text = pre @ line_stamp c @ name @ '':'' @ decimal (nat line) @ '': '' @ terminated text"

lemma formatHeader_std:
  assumes "stamp_ok (tLocal t)" "CHR ''/'' \<notin> set name" "dir \<noteq> []" "0 \<le> line" "line < 10 ^ 20"
  shows "formatHeader [] t pre 19 (dir @ ''/'' @ name) line
       = Some (pre @ line_stamp (tLocal t) @ name @ '':'' @ decimal (nat line) @ '': '')"
proof -
  have sf: "short_file (length (dir @ ''/'' @ name) - 1) (dir @ ''/'' @ name) = name"
    using short_file_no_slash [OF assms(2,3) order_refl] by simp
  have ln: "itoa bs line (- 1) = Some (bs @ decimal (nat line))" for bs
    using itoa_eq [OF assms(4,5), of "- 1" bs] by (simp add: zero_padded_def)
  have f: "has_flag 19 64 = False" "has_flag 19 (or 1 (or 2 4)) = True" "has_flag 19 32 = False" "has_flag 19 1 = True"
    "has_flag 19 (or 2 4) = True" "has_flag 19 4 = False" "has_flag 19 (or 16 8) = True" "has_flag 19 16 = True"
    by (simp_all add: has_flag_def)
  show ?thesis
    using assms(1) unfolding formatHeader_def f Let_def if_True if_False not_False_eq_True sf
    by (simp add: stamp_ok_def itoa_eq ln line_stamp_def)
qed

lemma std_output_std:
  assumes "w \<noteq> Discard" "stamp_ok (tLocal (leNow env))"
    and "leCaller env d = Some (dir @ ''/'' @ name, line)" "CHR ''/'' \<notin> set name" "dir \<noteq> []" "0 \<le> line" "line < 10 ^ 20"
  shows "std_output env (NewStdLogger w pre 19) d text sink
       = Some (leWriteErr env, sink @ [(w, log_line pre (tLocal (leNow env)) name line text)])"
proof -
  have f: "std_Flags (NewStdLogger w pre 19) = 19" "std_Prefix (NewStdLogger w pre 19) = pre"
    "\<not> isDiscard (NewStdLogger w pre 19)" "lout (NewStdLogger w pre 19) = w" "has_flag 19 (or 16 8)"
    using assms(1)
    by (simp_all add: NewStdLogger_def std_Flags_def std_SetFlags_def std_Prefix_def std_SetPrefix_def std_SetOutput_def has_flag_def)
  show ?thesis
    using formatHeader_std [OF assms(2,4-7), of pre] f assms(3)
    by (simp add: std_output_def log_line_def terminated_def)
qed

subsection \<open>The levels\<close>

text \<open>The writer that a configured output names, and the logger opened on it.\<close>

definition log_writer :: "string \<Rightarrow> log_out" where
  "log_writer out = (if out = ''stdout'' then Stdout else if out = ''stderr'' \<or> out = [] then Stderr else LogFile out)"

lemma log_writer_not_Discard [simp]: "log_writer out \<noteq> Discard"
  by (simp add: log_writer_def)

lemma log_New_ok:
  assumes "log_New level out [] = Inr l"
  obtains lv owned where "ParseLevel level = Inr lv" "0 \<le> lv" "lv \<le> 5" "l = logger_on (log_writer out) owned lv"
proof -
  obtain lv where lv: "ParseLevel level = Inr lv" using assms by (auto simp: log_New_def split: sum.splits)
  then have "0 \<le> lv" "lv \<le> 5" by (auto simp: ParseLevel_def Let_def split: if_splits)
  moreover obtain owned where "l = logger_on (log_writer out) owned lv"
    using assms lv by (auto simp: log_New_def log_writer_def split: if_splits)
  ultimately show ?thesis using that lv by blast
qed

lemma log_level_logger_on: "0 \<le> lv \<Longrightarrow> lv \<le> 5 \<Longrightarrow> log_level (logger_on w owned lv) = lv"
proof -
  assume "0 \<le> lv" "lv \<le> 5"
  then have "lv \<in> {0, 1, 2, 3, 4, 5}" by auto
  then show ?thesis by (auto simp: log_level_def logger_on_def SetLevel_def Let_def)
qed

lemma logger_on_loggers:
  "ogDebugLogger (logger_on w owned lv) = NewStdLogger w ''DEBUG: '' 19"
  "ogFatalLogger (logger_on w owned lv) = NewStdLogger w ''FATAL: '' 19"
  "ogErrLogger (logger_on w owned lv) = NewStdLogger w ''ERROR: '' 19"
  "ogWarnLogger (logger_on w owned lv) = NewStdLogger w ''WARN: '' 19"
  "ogInfoLogger (logger_on w owned lv) = NewStdLogger w ''INFO: '' 19"
  by (simp_all add: logger_on_def SetLevel_def Let_def)

lemma depth_NewStdLogger: "depth (NewStdLogger w pre flag) = 3"
  by (simp add: NewStdLogger_def std_SetFlags_def std_SetPrefix_def std_SetOutput_def)

text \<open>
  C36. What a logger that \<open>New\<close> opened writes is exactly this: the configured level lets a call through or drops it, the
  output is the configured one, and every call that passes writes one line (two for an error and its message) made
  of the prefix of the level, the date and time with zero-padded fields, the name of the calling file without its directory,
  its line number and the text, with one newline at the end when the text has none. None of the calls panics
  in the buffer of the decimal printer.
\<close>

theorem Logging_lines:
  assumes "log_New level out [] = Inr l" "ParseLevel level = Inr lv"
    and "stamp_ok (tLocal (leNow env))"
    and "leCaller env 3 = Some (dir @ ''/'' @ name, line)" "CHR ''/'' \<notin> set name" "dir \<noteq> []" "0 \<le> line" "line < 10 ^ 20"
  shows "let out_line = (\<lambda>pre text. (log_writer out, log_line pre (tLocal (leNow env)) name line text)) in
      LogDebug env l text sink = Some (sink @ (if 5 \<le> lv then [out_line ''DEBUG: '' (text @ [CHR 0x0A])] else []))
    \<and> LogInfo env l text sink = Some (sink @ (if 4 \<le> lv then [out_line ''INFO: '' text] else []))
    \<and> LogWarning env l text sink = Some (sink @ (if 3 \<le> lv then [out_line ''WARN: '' (text @ [CHR 0x0A])] else []))
    \<and> LogError env l err text sink = Some (sink @ (if 2 \<le> lv
        then [out_line ''ERROR: '' err, out_line ''ERROR: '' (text @ [CHR 0x0A])] else []))
    \<and> LogFatal env l err text sink = Some (sink @ (if 1 \<le> lv
        then [out_line ''FATAL: '' err, out_line ''FATAL: '' (text @ [CHR 0x0A])] else []))"
proof -
  obtain owned where l: "l = logger_on (log_writer out) owned lv" and lv: "0 \<le> lv" "lv \<le> 5"
    using log_New_ok [OF assms(1)] assms(2) by auto
  note facts = l log_level_logger_on [OF lv] logger_on_loggers depth_NewStdLogger
    std_output_std [OF log_writer_not_Discard assms(3-8)]
  show ?thesis
    unfolding Let_def
    by (intro conjI)
      (simp_all add: facts LogDebug_def LogInfo_def LogWarning_def LogError_def LogFatal_def std_Print_def std_Println_def)
qed

definition demo_log_env :: log_env where
  "demo_log_env =
     (let c = \<lparr>tYear = 2026, tMonth = 7, tDay = 4, tHour = 9, tMin = 5, tSec = 0, tNano = 0\<rparr> in
      \<lparr>leNow = \<lparr>tLocal = c, tUTC = c\<rparr>, leCaller = (\<lambda>d. Some (''/src'' @ ''/'' @ ''main.go'', 98)), leWriteErr = []\<rparr>)"

theorem Logging_lines_witness:
  "\<exists>l. log_New ''Warn'' ''stdout'' [] = Inr l
     \<and> LogWarning demo_log_env l ''disk'' [] =
         Some [(Stdout, ''WARN: '' @ line_stamp (tLocal (leNow demo_log_env)) @ ''main.go:98: disk'' @ [CHR 0x0A])]
     \<and> LogInfo demo_log_env l ''ready'' [] = Some []"
proof -
  have v: "ParseLevel ''Warn'' = Inr 3" by code_simp
  obtain l where l: "log_New ''Warn'' ''stdout'' [] = Inr l" by (simp add: log_New_def v)
  have env: "stamp_ok (tLocal (leNow demo_log_env))" "leCaller demo_log_env 3 = Some (''/src'' @ ''/'' @ ''main.go'', 98)"
    by (simp_all add: demo_log_env_def stamp_ok_def Let_def)
  have d: "decimal 98 = ''98''" by code_simp
  have w: "log_writer ''stdout'' = Stdout" by (simp add: log_writer_def)
  note t = Logging_lines [OF l v env, unfolded Let_def]
  have "LogWarning demo_log_env l ''disk'' [] =
         Some [(Stdout, ''WARN: '' @ line_stamp (tLocal (leNow demo_log_env)) @ ''main.go:98: disk'' @ [CHR 0x0A])]"
    using t [of "''disk''" "[]"] by (simp add: d w log_line_def terminated_def)
  moreover have "LogInfo demo_log_env l ''ready'' [] = Some []"
    using t [of "''ready''" "[]"] by simp
  ultimately show ?thesis using l by blast
qed

subsection \<open>The levels a configuration may name\<close>

lemma configured_level_parses:
  assumes "oneOf (ToLower level) [''debug'', ''info'', ''warn'', ''error'', ''disabled'']"
  obtains lv where "ParseLevel level = Inr lv"
  using assms that by (auto simp: ParseLevel_def Let_def oneOf_def)

subsection \<open>Runs of the rate limiter\<close>

fun allow_run :: "(int \<times> string) list \<Rightarrow> RateLimiter \<Rightarrow> bool list \<times> RateLimiter" where
  "allow_run [] limiter = ([], limiter)"
| "allow_run ((now, key) # calls) limiter =
     (case Allow now key limiter of (ok, limiter) \<Rightarrow>
      case allow_run calls limiter of (oks, limiter) \<Rightarrow> (ok # oks, limiter))"

lemma allow_run_snoc:
  "allow_run (calls @ [(now, key)]) limiter =
     (case allow_run calls limiter of (oks, limiter) \<Rightarrow>
      case Allow now key limiter of (ok, limiter) \<Rightarrow> (oks @ [ok], limiter))"
  by (induction calls arbitrary: limiter) (auto split: prod.splits)

lemma time_Sub_less: "0 < i \<Longrightarrow> i < 2 ^ 63 \<Longrightarrow> time_Sub t u < i \<longleftrightarrow> t - u < i"
  by (auto simp: time_Sub_def)

text \<open>The calls with this key that were let through.\<close>

definition granted :: "(int \<times> string) list \<Rightarrow> bool list \<Rightarrow> string \<Rightarrow> nat set" where
  "granted calls oks key = {a. a < length calls \<and> oks ! a \<and> snd (calls ! a) = key}"

text \<open>The entry of a key is the time of the latest granted call.\<close>

definition limiter_tracks :: "(int \<times> string) list \<Rightarrow> bool list \<Rightarrow> (string \<times> int) list \<Rightarrow> bool" where
  "limiter_tracks calls oks lst \<longleftrightarrow>
     (\<forall>key. case map_of lst key of
        None \<Rightarrow> granted calls oks key = {}
      | Some t \<Rightarrow> t \<in> (\<lambda>a. fst (calls ! a)) ` granted calls oks key \<and> (\<forall>a \<in> granted calls oks key. fst (calls ! a) \<le> t))"

lemma granted_snoc:
  assumes "length oks = length calls"
  shows "granted (calls @ [(now, key)]) (oks @ [ok]) k
       = granted calls oks k \<union> (if ok \<and> k = key then {length calls} else {})"
  using assms by (auto simp: granted_def nth_append less_Suc_eq)

lemma granted_times_snoc:
  assumes "length oks = length calls"
  shows "a \<in> granted calls oks k \<Longrightarrow> (calls @ [c]) ! a = calls ! a"
  by (simp add: granted_def nth_append)

lemma Allow_ok:
  assumes "0 < rinterval r" "rinterval r < 2 ^ 63" "limiter_tracks calls oks (rlast r)" "Allow now key r = (ok, r')"
  shows "ok \<longleftrightarrow> (\<forall>a \<in> granted calls oks key. rinterval r \<le> now - fst (calls ! a))"
proof (cases "map_of (rlast r) key")
  case None
  then have "granted calls oks key = {}" using assms(3) by (auto simp: limiter_tracks_def dest: spec [of _ key])
  then show ?thesis using None assms(4) by (auto simp: Allow_def)
next
  case (Some t)
  then have t: "t \<in> (\<lambda>a. fst (calls ! a)) ` granted calls oks key" "\<forall>a \<in> granted calls oks key. fst (calls ! a) \<le> t"
    using assms(3) by (auto simp: limiter_tracks_def dest: spec [of _ key])
  have "ok \<longleftrightarrow> rinterval r \<le> now - t"
    using Some assms(4) time_Sub_less [OF assms(1,2)] by (auto simp: Allow_def split: if_splits)
  then show ?thesis using t by force
qed

lemma Allow_cases:
  assumes "Allow now key r = (ok, r')"
  shows "r' = (if ok then r\<lparr>rlast := AList.update key now (rlast r)\<rparr> else r)" "\<not> ok \<Longrightarrow> map_of (rlast r) key \<noteq> None"
  using assms by (auto simp: Allow_def split: if_splits option.splits)

lemma Allow_rlast:
  assumes "Allow now key r = (ok, r')"
  shows "map_of (rlast r') = (if ok then (map_of (rlast r))(key \<mapsto> now) else map_of (rlast r))"
    "fst ` set (rlast r') = insert key (fst ` set (rlast r))"
    "distinct (map fst (rlast r)) \<Longrightarrow> distinct (map fst (rlast r'))" "rinterval r' = rinterval r"
proof -
  note c = Allow_cases [OF assms]
  show m: "map_of (rlast r') = (if ok then (map_of (rlast r))(key \<mapsto> now) else map_of (rlast r))"
    using c(1) by (simp add: update_conv')
  show "fst ` set (rlast r') = insert key (fst ` set (rlast r))"
    using c(2) unfolding dom_map_of_conv_image_fst [symmetric] m by auto
qed (use Allow_cases [OF assms] in \<open>auto simp: distinct_update\<close>)

lemma Allow_tracks:
  assumes "0 < rinterval r" "rinterval r < 2 ^ 63" "limiter_tracks calls oks (rlast r)" "Allow now key r = (ok, r')"
    "length oks = length calls"
  shows "limiter_tracks (calls @ [(now, key)]) (oks @ [ok]) (rlast r')"
  unfolding limiter_tracks_def
proof
  fix k
  let ?calls = "calls @ [(now, key)]"
  note g = granted_snoc [OF assms(5), of now key ok k] granted_times_snoc [OF assms(5), of _ k "(now, key)"]
  have times: "(\<lambda>a. fst (?calls ! a)) ` granted calls oks k = (\<lambda>a. fst (calls ! a)) ` granted calls oks k"
    "(\<forall>a \<in> granted calls oks k. fst (?calls ! a) \<le> u) \<longleftrightarrow> (\<forall>a \<in> granted calls oks k. fst (calls ! a) \<le> u)" for u
    using g(2) by (auto intro!: image_cong)
  show "case map_of (rlast r') k of
        None \<Rightarrow> granted ?calls (oks @ [ok]) k = {}
      | Some t \<Rightarrow> t \<in> (\<lambda>a. fst (?calls ! a)) ` granted ?calls (oks @ [ok]) k
          \<and> (\<forall>a \<in> granted ?calls (oks @ [ok]) k. fst (?calls ! a) \<le> t)"
  proof (cases "ok \<and> k = key")
    case True
    have "fst (calls ! a) \<le> now" if "a \<in> granted calls oks k" for a
      using Allow_ok [OF assms(1-4)] True assms(1) that by fastforce
    then show ?thesis using True g(1) times by (simp add: Allow_rlast(1) [OF assms(4)] nth_append)
  next
    case False
    then have "granted ?calls (oks @ [ok]) k = granted calls oks k" "map_of (rlast r') k = map_of (rlast r) k"
      using g(1) by (auto simp: Allow_rlast(1) [OF assms(4)])
    moreover have "case map_of (rlast r) k of
        None \<Rightarrow> granted calls oks k = {}
      | Some t \<Rightarrow> t \<in> (\<lambda>a. fst (calls ! a)) ` granted calls oks k \<and> (\<forall>a \<in> granted calls oks k. fst (calls ! a) \<le> t)"
      using assms(3) unfolding limiter_tracks_def by blast
    ultimately show ?thesis using times by (simp split: option.splits)
  qed
qed

text \<open>Call \<open>b\<close> was decided by the earlier granted calls with its key.\<close>

definition spaced_at :: "int \<Rightarrow> (int \<times> string) list \<Rightarrow> bool list \<Rightarrow> nat \<Rightarrow> bool" where
  "spaced_at interval calls oks b \<longleftrightarrow> (oks ! b \<longleftrightarrow>
     (\<forall>a < b. oks ! a \<and> snd (calls ! a) = snd (calls ! b) \<longrightarrow> interval \<le> fst (calls ! b) - fst (calls ! a)))"

lemma spaced_at_append:
  assumes "b < length calls" "length oks = length calls"
  shows "spaced_at interval (calls @ [c]) (oks @ [ok]) b \<longleftrightarrow> spaced_at interval calls oks b"
proof -
  have "(calls @ [c]) ! a = calls ! a" "(oks @ [ok]) ! a = oks ! a" if "a \<le> b" for a
    using assms that by (simp_all add: nth_append)
  then show ?thesis unfolding spaced_at_def by (metis less_imp_le order_refl)
qed

lemma spaced_at_last:
  assumes "length oks = length calls"
    and "ok \<longleftrightarrow> (\<forall>a \<in> granted calls oks key. interval \<le> now - fst (calls ! a))"
  shows "spaced_at interval (calls @ [(now, key)]) (oks @ [ok]) (length calls)"
proof -
  have "(calls @ [(now, key)]) ! a = calls ! a" "(oks @ [ok]) ! a = oks ! a" if "a < length calls" for a
    using assms(1) that by (simp_all add: nth_append)
  moreover have "(calls @ [(now, key)]) ! length calls = (now, key)" "(oks @ [ok]) ! length calls = ok"
    using assms(1) by (simp_all add: nth_append)
  ultimately show ?thesis using assms(2) unfolding spaced_at_def granted_def by auto
qed

lemma allow_run_inv:
  assumes "r = \<lparr>rinterval = interval, rlast = []\<rparr>" "0 < interval" "interval < 2 ^ 63" "allow_run calls r = (oks, r')"
  shows "length oks = length calls \<and> rinterval r' = interval \<and> limiter_tracks calls oks (rlast r')
    \<and> distinct (map fst (rlast r')) \<and> fst ` set (rlast r') = snd ` set calls
    \<and> (\<forall>b < length calls. spaced_at interval calls oks b)"
  using assms(4)
proof (induction calls arbitrary: oks r' rule: rev_induct)
  case Nil
  then show ?case using assms(1) by (auto simp: limiter_tracks_def granted_def)
next
  case (snoc c calls)
  obtain now key where c: "c = (now, key)" by (cases c)
  obtain oks1 r1 where run: "allow_run calls r = (oks1, r1)" by (cases "allow_run calls r")
  obtain ok where ok: "Allow now key r1 = (ok, r')" "oks = oks1 @ [ok]"
    using snoc.prems run by (auto simp: c allow_run_snoc split: prod.splits)
  note IH = snoc.IH [OF run]
  then have len: "length oks1 = length calls" and iv: "0 < rinterval r1" "rinterval r1 < 2 ^ 63" "limiter_tracks calls oks1 (rlast r1)"
    using assms(2,3) by auto
  have "spaced_at interval (calls @ [c]) oks (length calls)"
    using spaced_at_last [OF len] Allow_ok [OF iv ok(1)] IH unfolding c ok(2) by blast
  then have "\<forall>b < length (calls @ [c]). spaced_at interval (calls @ [c]) oks b"
    using IH spaced_at_append [OF _ len] unfolding ok(2) by (auto simp: less_Suc_eq)
  then show ?case
    using IH len Allow_tracks [OF iv ok(1) len] Allow_rlast(2-4) [OF ok(1)] by (simp add: ok(2) c)
qed

text \<open>
  C37. The rate limiter, over any sequence of calls with any clock: a call is let through exactly when no earlier call with
  the same key was let through less than the interval before it, so two warnings with the same text are
  at least the interval apart. The limiter keeps one entry for every key it has ever been asked about.
\<close>

theorem RateLimiter_spacing:
  assumes "NewRateLimiter interval = Inr r" "interval < 2 ^ 63" "allow_run calls r = (oks, r')"
  shows "length oks = length calls
    \<and> (\<forall>b < length calls. oks ! b \<longleftrightarrow>
      (\<forall>a < b. oks ! a \<and> snd (calls ! a) = snd (calls ! b) \<longrightarrow> interval \<le> fst (calls ! b) - fst (calls ! a)))
    \<and> length (rlast r') = card (snd ` set calls)"
proof -
  have "r = \<lparr>rinterval = interval, rlast = []\<rparr>" "0 < interval"
    using assms(1) by (auto simp: NewRateLimiter_def split: if_splits)
  note inv = allow_run_inv [OF this assms(2,3)]
  have "length (rlast r') = card (snd ` set calls)"
    using inv by (metis distinct_card length_map set_map)
  then show ?thesis using inv unfolding spaced_at_def by blast
qed

definition demo_calls :: "(int \<times> string) list" where
  "demo_calls = [(0, ''disk''), (5, ''disk''), (7, ''net''), (10, ''disk'')]"

theorem RateLimiter_spacing_witness:
  "\<exists>r oks r'. NewRateLimiter 10 = Inr r \<and> allow_run demo_calls r = (oks, r') \<and> oks = [True, False, True, True]
     \<and> length (rlast r') = card (snd ` set demo_calls)"
proof -
  have r: "NewRateLimiter 10 = Inr \<lparr>rinterval = 10, rlast = []\<rparr>" by (simp add: NewRateLimiter_def)
  have run: "allow_run demo_calls \<lparr>rinterval = 10, rlast = []\<rparr>
      = ([True, False, True, True], \<lparr>rinterval = 10, rlast = [(''disk'', 10), (''net'', 7)]\<rparr>)"
    by (simp add: demo_calls_def Allow_def time_Sub_def)
  show ?thesis using RateLimiter_spacing [OF r _ run] r run by simp
qed

end
