(* ===== verification/ServerMain.thy ===== *)
theory ServerMain
  imports HttpServer Logging
begin

text \<open>
  \<open>cmd/sensor-server/main.go\<close>: \<open>run\<close> opens the logger, the sensor server and the HTTP plugin, waits for a reason to stop,
  and takes them down. Its calls of the logger are recorded as values; what the callbacks it installs do is in
  the theories of the components that call them. \<open>run\<close> runs beside the goroutines of the two servers, so its
  second half is a machine that is interleaved with their steps.
\<close>

section \<open>The program\<close>

datatype main_log = HttpReady | ServerReady | ShutdownStarted | ShutdownCounters ServerCounters

datatype main_pc =
    MSelect
  | MHttpShutdown
  | MServerShutdown
  | MJoinClose "go_error list"
  | MDropClose "go_error list"
  | MReturned "go_error list"

record MainState =
  mPc :: main_pc
  mLogger :: "DefaultLogger option"
  mMonitoring :: "MonitoringState option"
  mSystem :: "System option"
  mHttp :: "HttpServer option"
  mInfos :: "main_log list"

text \<open>What the operating system answers: the configuration file as \<open>run\<close> itself reads it, the log file, the HTTP
  configuration file, the HTTP socket, and what \<open>OpenServer\<close> finds.\<close>

record MainEnv =
  meConfig :: config_file
  meLogOpen :: "go_error list"
  meLogClose :: "go_error list"
  meHttpOpen :: "go_error list"
  meHttpDecoded :: "go_error list + HttpConfig"
  meHttpRest :: json_rest
  meHttpClose :: "go_error list"
  meHttpListen :: "go_error list"
  mePlatform :: Platform

text \<open>A return runs the deferred \<open>logger.Close()\<close>.\<close>

definition main_return :: "MainEnv \<Rightarrow> go_error list \<Rightarrow> MainState \<Rightarrow> MainState" where
  "main_return env err m =
     m\<lparr>mPc := MReturned err, mLogger := map_option (\<lambda>l. snd (log_Close (meLogClose env) l)) (mLogger m)\<rparr>"

definition run_http_config :: "MainEnv \<Rightarrow> string \<Rightarrow> go_error list + (HttpConfig \<times> MonitoringState) option" where
  "run_http_config env httpConfigPath =
     (if httpConfigPath = [] then Inr None
      else if meHttpOpen env \<noteq> [] then Inl (meHttpOpen env)
      else case http_LoadConfig (Some (meHttpDecoded env)) (meHttpRest env) of
          Inl err \<Rightarrow> Inl (errors_Join err (meHttpClose env))
        | Inr httpConfig \<Rightarrow>
            if meHttpClose env \<noteq> [] then Inl (meHttpClose env)
            else if \<not> hEnabled httpConfig then Inr None
            else (case NewMonitoringState httpConfig of
                Inl err \<Rightarrow> Inl err
              | Inr monitoring \<Rightarrow> Inr (Some (httpConfig, monitoring))))"

text \<open>From \<open>OpenServer\<close> to the \<open>select\<close>. The context of \<open>OpenServer\<close> never ends.\<close>

definition run_serve :: "(u8 list \<Rightarrow> u8 list) \<Rightarrow> MainEnv \<Rightarrow> string \<Rightarrow> (HttpConfig \<times> MonitoringState) option
    \<Rightarrow> MainState \<Rightarrow> FS \<Rightarrow> FS \<Rightarrow> MainState option" where
  "run_serve slack env configPath http m qfs dfs = do {
     let m = m\<lparr>mMonitoring := map_option snd http\<rparr>;
     let opts = \<lparr>ConfigPollInterval = 0, UDPWorkerCount = 0, UDPQueueCapacity = 0, OnSensorObservation_set = (http \<noteq> None)\<rparr>;
     (r, _, qfs, dfs) \<leftarrow> OpenServer slack (Some (\<lambda>_. [])) configPath opts (mePlatform env) qfs dfs;
     Some (case r of
       Inl err \<Rightarrow> main_return env err m
     | Inr server \<Rightarrow>
         (let m = m\<lparr>mSystem := Some (server_start server qfs dfs)\<rparr> in
          case http of
            None \<Rightarrow> m\<lparr>mInfos := mInfos m @ [ServerReady]\<rparr>
          | Some (httpConfig, monitoring) \<Rightarrow>
              (case http_NewServer httpConfig (meHttpListen env) of
                 Inl err \<Rightarrow> m\<lparr>mPc := MJoinClose err\<rparr>
               | Inr httpServer \<Rightarrow>
                   m\<lparr>mHttp := Some (http_Serve httpServer), mInfos := mInfos m @ [HttpReady, ServerReady]\<rparr>))) }"

definition main_initial :: MainState where
  "main_initial = \<lparr>mPc = MSelect, mLogger = None, mMonitoring = None, mSystem = None, mHttp = None, mInfos = []\<rparr>"

definition run_start :: "(u8 list \<Rightarrow> u8 list) \<Rightarrow> MainEnv \<Rightarrow> string \<Rightarrow> string \<Rightarrow> FS \<Rightarrow> FS \<Rightarrow> MainState option" where
  "run_start slack env configPath httpConfigPath qfs dfs =
     (let m = main_initial in
      case LoadConfigFile configPath (meConfig env) of
        Inl err \<Rightarrow> Some (main_return env err m)
      | Inr snapshot \<Rightarrow>
          (let config = snapshot_Config snapshot in
           case log_New (Level (cLogging config)) (Output (cLogging config)) (meLogOpen env) of
             Inl err \<Rightarrow> Some (main_return env err m)
           | Inr logger \<Rightarrow>
               (let m = m\<lparr>mLogger := Some logger\<rparr> in
                case NewRateLimiter Second of
                  Inl err \<Rightarrow> Some (main_return env err m)
                | Inr _ \<Rightarrow>
                    (case run_http_config env httpConfigPath of
                       Inl err \<Rightarrow> Some (main_return env err m)
                     | Inr http \<Rightarrow> run_serve slack env configPath http m qfs dfs))))"

datatype main_event =
    MSignal
  | MServerDone
  | MHttpDone
  | MHttpServeReturns "go_error list"
  | MHttpShutdownReturns "go_error list"
  | MShutdownReturns
  | MShutdownDeadline go_error
  | MCloseReturns
  | MSys sys_event

definition main_select :: "MainState \<Rightarrow> MainState" where
  "main_select m =
     (let m = m\<lparr>mInfos := mInfos m @ [ShutdownStarted]\<rparr> in
      case mHttp m of
        None \<Rightarrow> m\<lparr>mPc := MServerShutdown\<rparr>
      | Some h \<Rightarrow> m\<lparr>mHttp := Some (http_Shutdown h), mPc := MHttpShutdown\<rparr>)"

text \<open>After the shutdown of the server.\<close>

definition main_shut :: "MainEnv \<Rightarrow> DataFile RecordWriter \<Rightarrow> go_error list \<Rightarrow> System \<Rightarrow> MainState \<Rightarrow> MainState" where
  "main_shut env rw err s m =
     (if err \<noteq> [] then main_return env err m
      else main_return env [] (m\<lparr>mInfos := mInfos m @ [ShutdownCounters (server_Counters rw s)]\<rparr>))"

definition main_step :: "MainEnv \<Rightarrow> DataFile RecordWriter \<Rightarrow> Config \<Rightarrow> main_event \<Rightarrow> MainState \<Rightarrow> MainState outcome" where
  "main_step env rw config ev m =
     (case mSystem m of
        None \<Rightarrow> Blocked
      | Some s \<Rightarrow>
          (case ev of
             MSys e \<Rightarrow> (case mPc m of MReturned _ \<Rightarrow> Blocked
                        | _ \<Rightarrow> map_outcome (\<lambda>s. m\<lparr>mSystem := Some s\<rparr>) (sys_step config e s))
           | MHttpServeReturns err \<Rightarrow>
               (case (mPc m, mHttp m) of
                  (MReturned _, _) \<Rightarrow> Blocked
                | (_, Some h) \<Rightarrow> map_outcome (\<lambda>h. m\<lparr>mHttp := Some h\<rparr>) (http_Serve_returns err h)
                | (_, None) \<Rightarrow> Blocked)
           | MSignal \<Rightarrow> if mPc m = MSelect then Next (main_select m) else Blocked
           | MServerDone \<Rightarrow> if mPc m = MSelect \<and> server_Done s then Next (main_select m) else Blocked
           | MHttpDone \<Rightarrow> if mPc m = MSelect \<and> (case mHttp m of Some h \<Rightarrow> hsDone h | None \<Rightarrow> False) then Next (main_select m) else Blocked
           | MHttpShutdownReturns err \<Rightarrow>
               (case (mPc m, mHttp m) of
                  (MHttpShutdown, Some h) \<Rightarrow>
                    map_outcome (\<lambda>err. if err \<noteq> [] then m\<lparr>mPc := MDropClose err\<rparr> else m\<lparr>mPc := MServerShutdown\<rparr>)
                      (http_Shutdown_result err h)
                | _ \<Rightarrow> Blocked)
           | MShutdownReturns \<Rightarrow>
               if mPc m = MServerShutdown then map_outcome (\<lambda>err. main_shut env rw err s m) (server_Shutdown SelClosed s) else Blocked
           | MShutdownDeadline e \<Rightarrow>
               if mPc m = MServerShutdown then map_outcome (\<lambda>err. main_shut env rw err s m) (server_Shutdown (SelDeadline [e]) s) else Blocked
           | MCloseReturns \<Rightarrow>
               if closePc s \<noteq> ServerClosed then Blocked
               else (case mPc m of
                   MJoinClose err \<Rightarrow> Next (main_return env (errors_Join err (serverCloseErr s)) m)
                 | MDropClose err \<Rightarrow> Next (main_return env err m)
                 | _ \<Rightarrow> Blocked)))"

inductive main_exec :: "MainEnv \<Rightarrow> DataFile RecordWriter \<Rightarrow> Config \<Rightarrow> MainState \<Rightarrow> main_event list \<Rightarrow> MainState \<Rightarrow> bool" for env rw config where
  main_exec_start: "main_exec env rw config m [] m"
| main_exec_next: "main_exec env rw config m evs m' \<Longrightarrow> main_step env rw config ev m' = Next m'' \<Longrightarrow> main_exec env rw config m (evs @ [ev]) m''"

section \<open>How the program ends\<close>

definition http_down :: "MainState \<Rightarrow> bool" where
  "http_down m \<longleftrightarrow> (case mHttp m of None \<Rightarrow> True | Some h \<Rightarrow> hsCancelled h \<and> hsDone h \<and> \<not> hsListening h)"

definition log_closed :: "MainState \<Rightarrow> bool" where
  "log_closed m \<longleftrightarrow> (case mLogger m of None \<Rightarrow> True | Some l \<Rightarrow> lclosed l)"

definition main_ok :: "main_event list \<Rightarrow> System \<Rightarrow> MainState \<Rightarrow> bool" where
  "main_ok evs s m \<longleftrightarrow>
     (case mPc m of
        MSelect \<Rightarrow> True
      | MHttpShutdown \<Rightarrow> (\<forall>h. mHttp m = Some h \<longrightarrow> hsCancelled h \<and> \<not> hsListening h)
      | MServerShutdown \<Rightarrow> http_down m
      | MJoinClose err \<Rightarrow> err \<noteq> [] \<and> mHttp m = None
      | MDropClose err \<Rightarrow> err \<noteq> [] \<and> http_down m
      | MReturned err \<Rightarrow> http_down m \<and> log_closed m
          \<and> (closePc s = ServerClosed \<and> (err = [] \<longrightarrow> serverCloseErr s = []
                \<and> (\<exists>rw. last (mInfos m) = ShutdownCounters (server_Counters rw s)))
             \<or> (\<exists>e. err = [e] \<and> evs \<noteq> [] \<and> last evs = MShutdownDeadline e)))"

lemma main_return_simps [simp]:
  "mPc (main_return env err m) = MReturned err" "mSystem (main_return env err m) = mSystem m"
  "mHttp (main_return env err m) = mHttp m" "mInfos (main_return env err m) = mInfos m" "log_closed (main_return env err m)"
  "http_down (main_return env err m) = http_down m"
  by (auto simp: main_return_def log_closed_def log_Close_def http_down_def Let_def split: option.splits)

text \<open>The steps of the sensor server within a run.\<close>

fun sys_events :: "main_event list \<Rightarrow> sys_event list" where
  "sys_events [] = []"
| "sys_events (MSys e # evs) = e # sys_events evs"
| "sys_events (_ # evs) = sys_events evs"

lemma sys_events_append: "sys_events (xs @ ys) = sys_events xs @ sys_events ys"
  by (induction xs rule: sys_events.induct) simp_all

lemma main_step_ok:
  assumes "main_step env rw config ev m = Next m'" "mSystem m = Some s" "main_ok evs s m"
  obtains s' where "mSystem m' = Some s'" "main_ok (evs @ [ev]) s' m'"
    "case ev of MSys e \<Rightarrow> sys_step config e s = Next s' | _ \<Rightarrow> s' = s"
proof (cases ev)
  case (MSys e)
  then obtain s' where "sys_step config e s = Next s'" "m' = m\<lparr>mSystem := Some s'\<rparr>" "\<And>err. mPc m \<noteq> MReturned err"
    using assms(1,2) by (cases "mPc m") (auto simp: main_step_def map_outcome_Next)
  then show ?thesis using that [of s'] MSys assms(3) by (cases "mPc m") (auto simp: main_ok_def http_down_def)
next
  case (MHttpServeReturns err)
  then obtain h h' where "mHttp m = Some h" "http_Serve_returns err h = Next h'" "m' = m\<lparr>mHttp := Some h'\<rparr>" "\<And>err. mPc m \<noteq> MReturned err"
    using assms(1,2) by (cases "mPc m") (auto simp: main_step_def map_outcome_Next split: option.splits)
  then show ?thesis using that [of s] MHttpServeReturns assms(2,3)
    by (cases "mPc m") (auto simp: main_ok_def http_down_def http_Serve_returns_def split: if_splits)
next
  case (MHttpShutdownReturns err)
  then show ?thesis using that [of s] assms
    by (cases "mPc m") (auto simp: main_step_def main_ok_def http_down_def http_Shutdown_result_def map_outcome_Next split: option.splits if_splits)
next
  case MShutdownReturns
  then have "mPc m = MServerShutdown" "closePc s = ServerClosed" "m' = main_shut env rw (serverCloseErr s) s m"
    using assms(1,2) by (auto simp: main_step_def server_Shutdown_def map_outcome_Next split: if_splits)
  then show ?thesis using that [of s] MShutdownReturns assms(2,3)
    by (cases "serverCloseErr s = []") (auto simp: main_ok_def main_shut_def http_down_def)
next
  case (MShutdownDeadline e)
  then have "mPc m = MServerShutdown" "m' = main_return env [e] m"
    using assms(1,2) by (auto simp: main_step_def server_Shutdown_def main_shut_def map_outcome_Next split: if_splits)
  then show ?thesis using that [of s] MShutdownDeadline assms(2,3) by (auto simp: main_ok_def)
next
  case MCloseReturns
  then show ?thesis using that [of s] assms
    by (cases "mPc m") (auto simp: main_step_def main_ok_def errors_Join_def http_down_def split: if_splits)
qed (use assms that [of s] in \<open>auto simp: main_step_def main_select_def main_ok_def http_down_def http_Shutdown_def Let_def split: if_splits option.splits\<close>)

lemma main_exec_ok:
  assumes "main_exec env rw config m0 evs m" "mSystem m0 = Some s0" "main_ok [] s0 m0"
  obtains s where "mSystem m = Some s" "main_ok evs s m" "sys_exec config s0 (sys_events evs) s"
proof -
  from assms have "\<exists>s. mSystem m = Some s \<and> main_ok evs s m \<and> sys_exec config s0 (sys_events evs) s"
  proof induction
    case (main_exec_start m)
    then show ?case using sys_start by auto
  next
    case (main_exec_next m evs m' ev m'')
    then obtain s where s: "mSystem m' = Some s" "main_ok evs s m'" "sys_exec config s0 (sys_events evs) s" by blast
    obtain s' where s': "mSystem m'' = Some s'" "main_ok (evs @ [ev]) s' m''"
      "case ev of MSys e \<Rightarrow> sys_step config e s = Next s' | _ \<Rightarrow> s' = s"
      using main_step_ok [OF main_exec_next.hyps(2) s(1,2)] by blast
    have "sys_exec config s0 (sys_events (evs @ [ev])) s'"
      using s(3) s'(3) by (cases ev) (auto simp: sys_events_append intro: sys_next)
    then show ?case using s'(1,2) by blast
  qed
  then show ?thesis using that by blast
qed

lemma main_exec_stuck: "main_exec env rw config m0 evs m \<Longrightarrow> mSystem m0 = None \<Longrightarrow> evs = [] \<and> m = m0"
  by (induction rule: main_exec.induct) (auto simp: main_step_def)

lemma run_serve_ok:
  assumes "run_serve slack env configPath http m qfs dfs = Some m0" "mSystem m = None" "mHttp m = None" "mPc m = MSelect"
  shows "case mSystem m0 of
      None \<Rightarrow> (\<exists>err. mPc m0 = MReturned err) \<and> log_closed m0 \<and> mHttp m0 = None
    | Some s0 \<Rightarrow> main_ok [] s0 m0 \<and> sys_inv 0 s0"
proof -
  define opts where "opts = \<lparr>ConfigPollInterval = 0, UDPWorkerCount = 0, UDPQueueCapacity = 0, OnSensorObservation_set = (http \<noteq> None)\<rparr>"
  obtain r res qfs1 dfs1 where o: "OpenServer slack (Some (\<lambda>_. [])) configPath opts (mePlatform env) qfs dfs = Some (r, res, qfs1, dfs1)"
    using assms(1) unfolding run_serve_def Let_def opts_def [symmetric] by (auto split: Option.bind_splits)
  show ?thesis
  proof (cases r)
    case (Inl err)
    then show ?thesis using assms o unfolding run_serve_def Let_def opts_def [symmetric] by auto
  next
    case (Inr sv)
    have "mSystem m0 = Some (server_start sv qfs1 dfs1)" "main_ok [] (server_start sv qfs1 dfs1) m0"
      using assms o unfolding Inr run_serve_def Let_def opts_def [symmetric]
      by (auto simp: main_ok_def http_NewServer_def Let_def split: option.splits sum.splits if_splits)
    then show ?thesis using server_start_inv [OF o [unfolded Inr]] by simp
  qed
qed

lemma run_start_ok:
  assumes "run_start slack env configPath httpConfigPath qfs dfs = Some m0"
  shows "case mSystem m0 of
      None \<Rightarrow> (\<exists>err. mPc m0 = MReturned err) \<and> log_closed m0 \<and> mHttp m0 = None
    | Some s0 \<Rightarrow> main_ok [] s0 m0 \<and> sys_inv 0 s0"
  using assms run_serve_ok [of slack env configPath _ _ qfs dfs m0]
  by (auto simp: run_start_def main_initial_def Let_def split: sum.splits)

text \<open>A configuration that was accepted names a level the logger knows: only its output file can fail to open.\<close>

lemma configured_logger_opens:
  assumes "LoadConfigFile configPath f = Inr snapshot"
  shows "\<exists>l. log_New (Level (cLogging (snapshot_Config snapshot))) out [] = Inr l"
proof -
  obtain c where "NewConfigSnapshot c = Inr snapshot"
    using LoadConfig_Inr LoadConfigFile_Inr [OF assms] by blast
  then have "validateLimits (snapshot_Config snapshot) = []"
    using validateConfig_limits by (auto simp: NewConfigSnapshot_def Let_def snapshot_Config_def cloneConfig_def split: if_splits)
  then have "oneOf (ToLower (Level (cLogging (snapshot_Config snapshot)))) [''debug'', ''info'', ''warn'', ''error'', ''disabled'']"
    by (auto simp: validateLimits_def Let_def split: if_splits)
  then obtain lv where "ParseLevel (Level (cLogging (snapshot_Config snapshot))) = Inr lv" by (rule configured_level_parses)
  then show ?thesis by (simp add: log_New_def)
qed


lemma main_exec_sys:
  assumes "main_exec env rw config m0 evs m" "mSystem m = Some s" "\<And>err. mPc m \<noteq> MReturned err" "sys_run config es s = Next s'"
  shows "main_exec env rw config m0 (evs @ map MSys es) (m\<lparr>mSystem := Some s'\<rparr>)"
  using assms
proof (induction es arbitrary: evs m s)
  case Nil
  then have "m\<lparr>mSystem := Some s'\<rparr> = m" by simp
  then show ?case using Nil.prems(1) by simp
next
  case (Cons e es)
  obtain s1 where s1: "sys_step config e s = Next s1" "sys_run config es s1 = Next s'"
    using Cons.prems(4) by (auto split: outcome.splits)
  have "main_step env rw config (MSys e) m = Next (m\<lparr>mSystem := Some s1\<rparr>)"
    using Cons.prems(2,3) s1(1) by (cases "mPc m") (auto simp: main_step_def)
  from Cons.IH [OF main_exec_next [OF Cons.prems(1) this], of s1] show ?case using Cons.prems(3) s1(2) by simp
qed

text \<open>A run with the HTTP plugin that a signal ends.\<close>

definition demo_main_env :: MainEnv where
  "demo_main_env = \<lparr>meConfig = demo_file 7, meLogOpen = [], meLogClose = [], meHttpOpen = [], meHttpDecoded = Inr demo_http,
     meHttpRest = RestEOF, meHttpClose = [], meHttpListen = [], mePlatform = demo_platform\<rparr>"

definition demo_main_events :: "Reader \<Rightarrow> main_event list" where
  "demo_main_events nc = [MSignal, MHttpServeReturns [http_ErrServerClosed], MHttpShutdownReturns []]
     @ map MSys (late_connection nc []) @ [MShutdownReturns]"

lemma demo_run_http: "run_http_config demo_main_env ''http.json'' = Inr (Some (demo_http, \<lparr>historyCapacity = 2, devices = [], events = newEventHub\<rparr>))"
proof -
  have "SplitHostPort '':8080'' = Some ([], ''8080'')" by code_simp
  then have "http_LoadConfig (Some (Inr demo_http)) RestEOF = Inr demo_http"
    by (simp add: http_LoadConfig_def http_ensureJSONEnd_def demo_http_def http_Validate_def)
  then show ?thesis by (simp add: run_http_config_def demo_main_env_def demo_http_new) (simp add: demo_http_def)
qed

lemma demo_run_start:
  "\<exists>l. run_start (\<lambda>_. []) demo_main_env ''server.json'' ''http.json'' demo_fs demo_fs =
     Some \<lparr>mPc = MSelect, mLogger = Some l, mMonitoring = Some \<lparr>historyCapacity = 2, devices = [], events = newEventHub\<rparr>,
       mSystem = Some (server_start demo_server (demo_qdisk 4) demo_fs),
       mHttp = Some \<lparr>hsListening = True, hsServing = True, hsCancelled = False, hsDone = False, hsErr = []\<rparr>,
       mInfos = [HttpReady, ServerReady]\<rparr>"
proof -
  obtain l where l: "log_New (Level (cLogging (snapshot_Config demo_snapshot))) (Output (cLogging (snapshot_Config demo_snapshot))) [] = Inr l"
    using configured_logger_opens [OF demo_load [of 7]] by blast
  have "http_Validate demo_http = []" using demo_http_new by (auto simp: NewMonitoringState_def Let_def split: if_splits)
  then have h: "http_NewServer demo_http [] = Inr \<lparr>hsListening = True, hsServing = False, hsCancelled = False, hsDone = False, hsErr = []\<rparr>"
    by (simp add: http_NewServer_def)
  obtain res where op: "OpenServer (\<lambda>_. []) (Some (\<lambda>_. [])) ''server.json'' demo_soptions demo_platform demo_fs demo_fs
      = Some (Inr demo_server, res, demo_qdisk 4, demo_fs)" using demo_open by blast
  have env: "meConfig demo_main_env = demo_file 7" "meLogOpen demo_main_env = []" "meHttpListen demo_main_env = []" "mePlatform demo_main_env = demo_platform"
    by (simp_all add: demo_main_env_def)
  show ?thesis
    by (simp add: run_start_def demo_load l demo_run_http NewRateLimiter_def run_serve_def env op [unfolded demo_soptions_def] h main_initial_def http_Serve_def Let_def)
qed


end
