(* ===== verification/Spec2Isabelle.thy ===== *)
theory Spec2Isabelle
  imports ServerMain
begin

text \<open>
  A model of the sensor server, a Go program that receives readings of a house's sensors over TCP and UDP, stores them
  per floor, room and sensor, keeps the messages of unknown devices aside, reloads its configuration while it
  runs, and shows its state over HTTP. The definitions follow the Go source; the theorems say what makes each part
  correct, and where it is not.

  \<^bold>\<open>The parts and how they interact.\<close>
  \<open>cmd/sensor-server/main.go\<close> loads the configuration, opens a logger, the server and the HTTP plugin, and takes them down.
  \<open>server.go\<close> builds a configuration registry, a data engine, a quarantine writer and a router over the three, replays
  old quarantine segments, and runs a TCP server, a UDP server and a configuration poller. Both servers decode
  messages with \<open>protocol.go\<close> and hand them to \<open>Route\<close>. The router looks the device up in the current snapshot: the
  readings of a known device go to the data engine, one bounded queue and goroutine per floor, room and sensor
  type, which append fixed-size records to segment files; a message of an unknown device goes to the quarantine
  log. The router and the TCP server tell the HTTP plugin of readings and connections through callbacks; the
  plugin keeps a bounded history per sensor and answers requests from it.

  \<^bold>\<open>Theories\<close>, in the order they build on each other, with the source they model.

  \<^item> \<open>Prelude\<close>: machine integers as words, byte strings, errors as lists of the leaves that \<open>errors.Is\<close> sees, outcomes of
    steps (\<open>Next\<close>, \<open>Blocked\<close>, \<open>Panic\<close>), generic lemmas and the collections of simplification rules.
  \<^item> \<open>Crc32\<close>, \<open>GoIO\<close>, \<open>GoStrings\<close>, \<open>Bufio\<close>: what the code uses of Go's \<open>hash/crc32\<close>, \<open>io\<close>, \<open>strings\<close>, \<open>strconv\<close>, \<open>fmt\<close> and
    \<open>bufio\<close>. The checksum is a linear bijection of its register, so every burst of up to four bytes is detected;
    \<open>ReadFull\<close> depends only on the concatenation of the chunks; a \<open>bufio.Writer\<close> keeps its first error.
  \<^item> \<open>BinaryData\<close> (\<open>binary_data.go\<close>), \<open>House\<close> (\<open>house_floor.go\<close>, \<open>house_room.go\<close>, \<open>house_sensors.go\<close>, \<open>house_units.go\<close>,
    \<open>house_actuators.go\<close>), \<open>Protocol\<close> (\<open>protocol.go\<close>): the cursor with Go's bounds checks, the enumerations with their tables, and
    the wire format. A datagram is accepted exactly when it is the encoding of the message that is returned; corrupted
    bursts are rejected; decoded values are in range.
  \<^item> \<open>FileSystem\<close> (\<open>platform.go\<close>), \<open>DataFile\<close> (\<open>data-file.go\<close>), \<open>DataStream\<close> (\<open>data-stream.go\<close>), \<open>DataEngine\<close> (\<open>data-engine.go\<close>): a
    disk with an arbitrary script of faults; segment files as an append-only log with repair and rotation; the
    queue and its goroutine as a step relation; the engine as interleaved streams on one disk. A stream that closed
    without error has left exactly the accepted records on disk, in order, whatever the other streams did.
  \<^item> \<open>Config\<close> (\<open>config.go\<close>), \<open>Router\<close> (\<open>router.go\<close>), \<open>ConfigPoller\<close> (\<open>config-poller.go\<close>): defaults, validation and the snapshot;
    routing with exact counters, refined down to what each stream of the engine gains; only validated changes
    of the devices are ever published.
  \<^item> \<open>QuarantineEntry\<close>, \<open>Quarantine\<close> (\<open>quarantine.go\<close>): the entry format, the segments, repair and replay. On a working disk the
    replay conserves every message.
  \<^item> \<open>SampleRing\<close>, \<open>Monitoring\<close> (\<open>plugins/http/sample-ring.go\<close>, \<open>config.go\<close>, \<open>events.go\<close>, \<open>monitor-state.go\<close>): the history refines
    the list of the latest observations, the connection state a specification in which the latest connection counts.
  \<^item> \<open>UdpServer\<close> (\<open>udp-server.go\<close>), \<open>TcpServer\<close> (\<open>tcp-server.go\<close>): the goroutines as interleaved steps. In every interleaving the
    counters, the queue, the limit, the maps of connections and the callbacks are exact. The TCP server's
    connection objects live in an explicit store, since its maps and goroutines share them through pointers.
  \<^item> \<open>Server\<close> (\<open>server.go\<close>): opening with its clean-up on every error path, and the running server as the interleaving of
    poller, TCP server, UDP server and \<open>Close\<close> around one router: storage closes last.
  \<^item> \<open>HttpServer\<close> (\<open>plugins/http/http-server.go\<close>): routing and handlers; the readings endpoint is right end to end, the
    health endpoint tells exactly whether something failed.
  \<^item> \<open>Logging\<close> (\<open>logging/logging.go\<close>): the format of lines, the levels, and the exact spacing of the rate limiter.
  \<^item> \<open>ServerMain\<close> (\<open>cmd/sensor-server/main.go\<close>): \<open>run\<close>, which does not return before everything it opened is closed, the
    deadline of the shutdown apart.

  \<^bold>\<open>Interfaces.\<close> The locale \<open>record_writer\<close> is the contract of Go's \<open>RecordWriter\<close>, extended by \<open>reliable_writer\<close>; the data
  file on the file system is its interpretation. \<open>sensor_sink\<close> is what the router relies on; the data engine is
  its interpretation. \<open>counting_handler\<close> is what both servers need of the handler of messages; the router is its
  interpretation. \<open>sample_history\<close> is what the monitoring state needs of a history; the ring is its interpretation.

  \<^bold>\<open>Concurrency.\<close> A goroutine is a state machine whose steps run from one point where another goroutine can see or
  change shared state to the next; code under a mutex is one step. Runs are lists of events of the relations
  \<open>ds_exec\<close>, \<open>engine_exec\<close>, \<open>udp_exec\<close>, \<open>tcp_exec\<close>, \<open>sys_exec\<close> and \<open>main_exec\<close>, and the invariants hold for all of them.

  \<^bold>\<open>Bounds and choices.\<close> Wire values, sensor types and MAC bytes have the width of the source. File sizes, sequence numbers and
  counters are unbounded, because their 64-bit types cannot be exhausted by a disk; the numbers of TCP
  connections are words, and the theorems on the TCP server assume fewer than \<open>2 ^ 64\<close> connections. There is no fuel: every
  loop of the model is a structural or measured recursion, and a loop of a goroutine is a sequence of steps. A panic
  is the value \<open>None\<close> or the outcome \<open>Panic\<close>. A path is its list of components; a configured root is one
  component. The server sees the trees under its two roots as two file systems, since neither component
  reads or writes the other's.

  \<^bold>\<open>Not modelled.\<close> The JSON text (a decoder's result is an input, an encoder's argument the output), the text around
  wrapped errors, the sockets, timers and tickers of \<open>platform.go\<close> (what they return is an input of the step), permission bits and what
  a machine crash does to data that was not synced, the flag parsing of \<open>main\<close>, and the types of
  \<open>house.go\<close>, \<open>house_lights.go\<close>, \<open>house_contacts.go\<close>, \<open>house_global.go\<close>, \<open>house_config.go\<close> and \<open>house_themes.go\<close>, which nothing uses.
\<close>

end
